(* ===== verification/Prelude.thy ===== *)
theory Prelude
  imports Main "HOL-Library.Word"
begin

text \<open>
  Shared vocabulary of the development: the machine integers of the Rust code, results with an
  error branch, big- and little-endian integer codecs, and byte streams read with
  \<open>read_exact\<close>.  The codec laws are collected in the locale \<open>fixed_codec\<close>, which is
  interpreted on every integer width the wire formats use.
\<close>

unbundle bit_operations_syntax

named_theorems codec_simps \<open>lengths and round trips of the integer codecs\<close>
named_theorems stream_simps \<open>behaviour of reads on a byte stream\<close>

subsection \<open>Types\<close>

type_synonym byte = "8 word"
type_synonym u16 = "16 word"
type_synonym u32 = "32 word"
type_synonym u64 = "64 word"

abbreviation Err :: "'e \<Rightarrow> 'e + 'a" where
  "Err \<equiv> Inl"

abbreviation Ok :: "'a \<Rightarrow> 'e + 'a" where
  "Ok \<equiv> Inr"

primrec and_then :: "'e + 'a \<Rightarrow> ('a \<Rightarrow> 'e + 'b) \<Rightarrow> 'e + 'b" where
  "and_then (Inl e) f = Inl e"
| "and_then (Inr a) f = f a"

primrec is_ok :: "'e + 'a \<Rightarrow> bool" where
  "is_ok (Inl e) = False"
| "is_ok (Inr a) = True"

text \<open>The outcome of code that may panic.\<close>

datatype 'a outcome = Done 'a | Panicked

subsection \<open>Integer codecs\<close>

text \<open>The \<open>n\<close> low bytes of a number, most significant first (\<open>to_be_bytes\<close>), and back
  (\<open>from_be_bytes\<close>); little-endian is the reversal.\<close>

primrec be_bytes :: "nat \<Rightarrow> nat \<Rightarrow> byte list" where
  "be_bytes 0 x = []"
| "be_bytes (Suc n) x = be_bytes n (x div 256) @ [word_of_nat (x mod 256)]"

definition from_be :: "byte list \<Rightarrow> nat" where
  "from_be bs = foldl (\<lambda>acc b. acc * 256 + unat b) 0 bs"

definition u16_be :: "u16 \<Rightarrow> byte list" where
  "u16_be w = be_bytes 2 (unat w)"

definition u32_be :: "u32 \<Rightarrow> byte list" where
  "u32_be w = be_bytes 4 (unat w)"

definition u64_be :: "u64 \<Rightarrow> byte list" where
  "u64_be w = be_bytes 8 (unat w)"

definition u32_le :: "u32 \<Rightarrow> byte list" where
  "u32_le w = rev (be_bytes 4 (unat w))"

definition u64_le :: "u64 \<Rightarrow> byte list" where
  "u64_le w = rev (be_bytes 8 (unat w))"

definition u16_of_be :: "byte list \<Rightarrow> u16" where
  "u16_of_be bs = word_of_nat (from_be bs)"

definition u32_of_be :: "byte list \<Rightarrow> u32" where
  "u32_of_be bs = word_of_nat (from_be bs)"

definition u64_of_be :: "byte list \<Rightarrow> u64" where
  "u64_of_be bs = word_of_nat (from_be bs)"

definition u32_of_le :: "byte list \<Rightarrow> u32" where
  "u32_of_le bs = word_of_nat (from_be (rev bs))"

definition u64_of_le :: "byte list \<Rightarrow> u64" where
  "u64_of_le bs = word_of_nat (from_be (rev bs))"

subsection \<open>Byte streams\<close>

text \<open>What a reader will still deliver: the bytes before the end, and whether the stream then ends
  cleanly (\<open>None\<close>) or with an I/O error.\<close>

datatype io_error = UnexpectedEof | InvalidData | InvalidInput | WriteZero | OtherIo nat

record stream =
  pending :: "byte list"
  ending :: "io_error option"

text \<open>Nanoseconds in a second, where a component counts time in nanoseconds.\<close>

definition SECOND :: nat where "SECOND = 10 ^ 9"

text \<open>Decimal rendering of a number, as \<open>format!\<close> prints an unsigned integer.\<close>

fun decimal :: "nat \<Rightarrow> string" where
  "decimal n = (if n < 10 then [char_of (48 + n)] else decimal (n div 10) @ [char_of (48 + n mod 10)])"

declare decimal.simps [simp del]

definition read_exact :: "nat \<Rightarrow> stream \<Rightarrow> io_error + (byte list \<times> stream)" where
  "read_exact n s =
     (if n \<le> length (pending s)
      then Ok (take n (pending s), s\<lparr>pending := drop n (pending s)\<rparr>)
      else Err (case ending s of None \<Rightarrow> UnexpectedEof | Some e \<Rightarrow> e))"

subsection \<open>Runs of a component\<close>

text \<open>A component as a function from an input and a state to an output and the next state, run over
  a sequence of inputs.\<close>

fun run :: "('i \<Rightarrow> 's \<Rightarrow> 'o \<times> 's) \<Rightarrow> 'i list \<Rightarrow> 's \<Rightarrow> 'o list \<times> 's" where
  "run step [] s = ([], s)"
| "run step (i # is) s =
     (let (out, s') = step i s; (outs, s'') = run step is s' in (out # outs, s''))"

subsection \<open>Facts on results\<close>

lemma and_then_Ok_conv [simp]:
  "(and_then m f = Ok b) \<longleftrightarrow> (\<exists>a. m = Ok a \<and> f a = Ok b)"
  by (cases m) auto

lemma and_then_Err_conv:
  "(and_then m f = Err e) \<longleftrightarrow> m = Err e \<or> (\<exists>a. m = Ok a \<and> f a = Err e)"
  by (cases m) auto

lemma and_then_assoc: "and_then (and_then m f) g = and_then m (\<lambda>a. and_then (f a) g)"
  by (cases m) auto

lemma is_ok_iff: "is_ok r \<longleftrightarrow> (\<exists>a. r = Ok a)"
  by (cases r) auto

subsection \<open>Facts on codecs\<close>

lemma length_be_bytes [simp, codec_simps]: "length (be_bytes n x) = n"
  by (induction n arbitrary: x) auto

text \<open>The bytes of two- and four-byte numbers written out, for evaluation.\<close>

lemma be_bytes_2: "be_bytes 2 x = [word_of_nat (x div 256 mod 256), word_of_nat (x mod 256)]"
proof -
  have "(2 :: nat) = Suc (Suc 0)" by simp
  then show ?thesis by (simp only: be_bytes.simps append.simps)
qed

lemma be_bytes_4:
  "be_bytes 4 x = [word_of_nat (x div 256 div 256 div 256 mod 256), word_of_nat (x div 256 div 256 mod 256),
     word_of_nat (x div 256 mod 256), word_of_nat (x mod 256)]"
proof -
  have "(4 :: nat) = Suc (Suc (Suc (Suc 0)))" by simp
  then show ?thesis by (simp only: be_bytes.simps append.simps)
qed

lemma from_be_Nil [simp]: "from_be [] = 0"
  by (simp add: from_be_def)

lemma from_be_snoc [simp]: "from_be (bs @ [b]) = from_be bs * 256 + unat b"
  by (simp add: from_be_def)

lemma unat_byte_of_mod [simp]: "unat (word_of_nat (x mod 256) :: byte) = x mod 256"
  by (simp add: unat_of_nat)

lemma from_be_be_bytes: "from_be (be_bytes n x) = x mod 256 ^ n"
proof (induction n arbitrary: x)
  case (Suc n)
  have "x mod (256 * 256 ^ n) = 256 * (x div 256 mod 256 ^ n) + x mod 256"
    by (rule mod_mult2_eq)
  with Suc show ?case by simp
qed simp

lemma unat_bound: "unat (w :: 'a::len word) < 2 ^ LENGTH('a)"
  by (rule unsigned_less)

lemma byte_lt_256: "unat (b :: byte) < 256"
  using unat_bound [of b] by simp

lemma from_be_bound: "from_be bs < 256 ^ length bs"
proof (induction bs rule: rev_induct)
  case (snoc b bs)
  have "from_be bs + 1 \<le> 256 ^ length bs" using snoc by simp
  then have "(from_be bs + 1) * 256 \<le> 256 ^ length bs * 256" by (rule mult_right_mono) simp
  with byte_lt_256 [of b] show ?case by simp
qed simp

lemma be_bytes_from_be: "be_bytes (length bs) (from_be bs) = bs"
proof (induction bs rule: rev_induct)
  case (snoc b bs)
  have "(from_be bs * 256 + unat b) div 256 = from_be bs"
    and "(from_be bs * 256 + unat b) mod 256 = unat b"
    using byte_lt_256 [of b] by simp_all
  with snoc show ?case by simp
qed simp

lemma be_bytes_from_be': "length bs = n \<Longrightarrow> be_bytes n (from_be bs) = bs"
  using be_bytes_from_be by blast

text \<open>A fixed-width codec: every value encodes to the same number of bytes, decoding inverts
  encoding, and every byte string of that width is the encoding of what it decodes to.\<close>

locale fixed_codec =
  fixes enc :: "'a \<Rightarrow> byte list" and dec :: "byte list \<Rightarrow> 'a" and width :: nat
  assumes enc_length: "length (enc a) = width"
    and dec_enc: "dec (enc a) = a"
    and enc_dec: "length bs = width \<Longrightarrow> enc (dec bs) = bs"
begin

lemma enc_inject: "enc a = enc b \<longleftrightarrow> a = b"
  by (metis dec_enc)

lemma take_enc: "take width (enc a @ rest) = enc a"
  by (simp add: enc_length)

lemma drop_enc: "drop width (enc a @ rest) = rest"
  by (simp add: enc_length)

lemma enc_append_inject: "enc a @ xs = enc b @ ys \<longleftrightarrow> a = b \<and> xs = ys"
  by (metis enc_length append_eq_append_conv dec_enc)

lemma dec_inject: "length bs = width \<Longrightarrow> length cs = width \<Longrightarrow> dec bs = dec cs \<Longrightarrow> bs = cs"
  by (metis enc_dec)

lemma read_exact_enc:
  "read_exact width \<lparr>pending = enc a @ rest, ending = e\<rparr>
     = Ok (enc a, \<lparr>pending = rest, ending = e\<rparr>)"
  by (simp add: read_exact_def enc_length)

end

interpretation u16_be: fixed_codec u16_be u16_of_be 2
proof unfold_locales
  fix w :: u16 and bs :: "byte list"
  show "length (u16_be w) = 2" by (simp add: u16_be_def)
  show "u16_of_be (u16_be w) = w"
    using unat_bound [of w] by (simp add: u16_be_def u16_of_be_def from_be_be_bytes)
  assume "length bs = 2"
  then show "u16_be (u16_of_be bs) = bs"
    using from_be_bound [of bs]
    by (simp add: u16_be_def u16_of_be_def unat_of_nat be_bytes_from_be')
qed

interpretation u32_be: fixed_codec u32_be u32_of_be 4
proof unfold_locales
  fix w :: u32 and bs :: "byte list"
  show "length (u32_be w) = 4" by (simp add: u32_be_def)
  show "u32_of_be (u32_be w) = w"
    using unat_bound [of w] by (simp add: u32_be_def u32_of_be_def from_be_be_bytes)
  assume "length bs = 4"
  then show "u32_be (u32_of_be bs) = bs"
    using from_be_bound [of bs]
    by (simp add: u32_be_def u32_of_be_def unat_of_nat be_bytes_from_be')
qed

interpretation u64_be: fixed_codec u64_be u64_of_be 8
proof unfold_locales
  fix w :: u64 and bs :: "byte list"
  show "length (u64_be w) = 8" by (simp add: u64_be_def)
  show "u64_of_be (u64_be w) = w"
    using unat_bound [of w] by (simp add: u64_be_def u64_of_be_def from_be_be_bytes)
  assume "length bs = 8"
  then show "u64_be (u64_of_be bs) = bs"
    using from_be_bound [of bs]
    by (simp add: u64_be_def u64_of_be_def unat_of_nat be_bytes_from_be')
qed

interpretation u32_le: fixed_codec u32_le u32_of_le 4
proof unfold_locales
  fix w :: u32 and bs :: "byte list"
  show "length (u32_le w) = 4" by (simp add: u32_le_def)
  show "u32_of_le (u32_le w) = w"
    using unat_bound [of w] by (simp add: u32_le_def u32_of_le_def from_be_be_bytes)
  assume "length bs = 4"
  then show "u32_le (u32_of_le bs) = bs"
    using from_be_bound [of "rev bs"]
    by (simp add: u32_le_def u32_of_le_def unat_of_nat be_bytes_from_be')
qed

interpretation u64_le: fixed_codec u64_le u64_of_le 8
proof unfold_locales
  fix w :: u64 and bs :: "byte list"
  show "length (u64_le w) = 8" by (simp add: u64_le_def)
  show "u64_of_le (u64_le w) = w"
    using unat_bound [of w] by (simp add: u64_le_def u64_of_le_def from_be_be_bytes)
  assume "length bs = 8"
  then show "u64_le (u64_of_le bs) = bs"
    using from_be_bound [of "rev bs"]
    by (simp add: u64_le_def u64_of_le_def unat_of_nat be_bytes_from_be')
qed

lemmas codec_lengths [simp, codec_simps] =
  u16_be.enc_length u32_be.enc_length u64_be.enc_length u32_le.enc_length u64_le.enc_length

lemmas codec_round_trips [simp, codec_simps] =
  u16_be.dec_enc u32_be.dec_enc u64_be.dec_enc u32_le.dec_enc u64_le.dec_enc

lemma u32_be_of_nat: "u32_be (word_of_nat n) = be_bytes 4 (n mod 2 ^ 32)"
  by (simp add: u32_be_def unat_of_nat)

lemma unat_u32_of_be: "length bs = 4 \<Longrightarrow> unat (u32_of_be bs) = from_be bs"
  using from_be_bound [of bs] by (simp add: u32_of_be_def unat_of_nat)

subsection \<open>Facts on streams\<close>

lemma read_exact_append [stream_simps]:
  "length bs = n \<Longrightarrow>
   read_exact n \<lparr>pending = bs @ rest, ending = e\<rparr> = Ok (bs, \<lparr>pending = rest, ending = e\<rparr>)"
  by (simp add: read_exact_def)

lemma read_exact_OkD:
  "read_exact n s = Ok (bs, s') \<Longrightarrow>
   length bs = n \<and> pending s = bs @ pending s' \<and> ending s' = ending s"
  by (auto simp: read_exact_def split: if_splits)

lemma read_exact_Ok_iff:
  "read_exact n s = Ok (bs, s') \<longleftrightarrow>
   length bs = n \<and> pending s = bs @ pending s' \<and> ending s' = ending s"
  by (cases s; cases s') (auto simp: read_exact_def)

lemma read_exact_0 [simp]: "read_exact 0 s = Ok ([], s)"
  by (simp add: read_exact_def)

lemma read_exact_Err_iff:
  "read_exact n s = Err e \<longleftrightarrow>
   length (pending s) < n \<and> e = (case ending s of None \<Rightarrow> UnexpectedEof | Some x \<Rightarrow> x)"
  by (auto simp: read_exact_def)

subsection \<open>Invariants and refinement of runs\<close>

lemma run_Cons [simp]:
  "run step (i # is) s =
     (fst (step i s) # fst (run step is (snd (step i s))), snd (run step is (snd (step i s))))"
  by (simp add: Let_def prod.case_eq_if)

declare run.simps(2) [simp del]

lemma run_append:
  "run step (xs @ ys) s =
     (fst (run step xs s) @ fst (run step ys (snd (run step xs s))),
      snd (run step ys (snd (run step xs s))))"
  by (induction xs arbitrary: s) auto

lemma run_length [simp]: "length (fst (run step is s)) = length is"
  by (induction "is" arbitrary: s) auto

lemma run_snd_snoc: "snd (run step (xs @ [x]) s) = snd (step x (snd (run step xs s)))"
  by (simp add: run_append)

text \<open>Every step keeps the invariant, hence every run does.\<close>

locale stepper =
  fixes cstep :: "'i \<Rightarrow> 's \<Rightarrow> 'o \<times> 's" and inv :: "'s \<Rightarrow> bool"
  assumes inv_step: "inv s \<Longrightarrow> inv (snd (cstep i s))"
begin

lemma inv_run: "inv s \<Longrightarrow> inv (snd (run cstep is s))"
  by (induction "is" arbitrary: s) (simp_all add: inv_step)

end

text \<open>A functional simulation: under the invariant each detailed step has the output of the abstract
  step and commutes with the abstraction.  The outputs and final states of whole runs then agree.\<close>

locale refinement = stepper cstep inv
  for cstep :: "'i \<Rightarrow> 's \<Rightarrow> 'o \<times> 's" and inv :: "'s \<Rightarrow> bool" +
  fixes astep :: "'i \<Rightarrow> 'a \<Rightarrow> 'o \<times> 'a" and abstr :: "'s \<Rightarrow> 'a"
  assumes sim: "inv s \<Longrightarrow> astep i (abstr s) = (fst (cstep i s), abstr (snd (cstep i s)))"
begin

lemma run_refines:
  "inv s \<Longrightarrow> run astep is (abstr s) = (fst (run cstep is s), abstr (snd (run cstep is s)))"
proof (induction "is" arbitrary: s)
  case (Cons i "is")
  from Cons.IH [OF inv_step [OF Cons.prems]] sim [OF Cons.prems] show ?case by simp
qed simp

end

subsection \<open>Retry delays\<close>

text \<open>A delay that doubles after each failure up to a cap.\<close>

locale doubling_backoff =
  fixes next_delay :: "nat \<Rightarrow> nat" and cap :: nat
  assumes next_delay: "next_delay d = min (2 * d) cap"
begin

lemma delay_after_failures: "d \<le> cap \<Longrightarrow> (next_delay ^^ k) d = min (2 ^ k * d) cap"
proof (induction k)
  case (Suc k)
  then show ?case by (auto simp: next_delay min_def mult.assoc)
qed simp

lemma delay_bounds:
  assumes "0 < d" "d \<le> cap"
  shows "d \<le> (next_delay ^^ k) d" "(next_delay ^^ k) d \<le> cap"
  using assms by (simp_all add: delay_after_failures)

end

end
