(* ===== verification/Host_Proto.thy ===== *)
theory Host_Proto
  imports Prelude
begin

text \<open>
  The login exchange framing of the host daemon (\<open>flux-hostd/src/proto.rs\<close>): login frames sent
  to the relay, and the relay's commands read back, either to be interpreted before a session
  exists (\<open>read_client_command\<close>) or kept as raw bytes for the proxy (\<open>read_raw_command\<close>).
  JSON serialisation is third-party code and enters as the parameters \<open>to_vec\<close> and
  \<open>from_slice\<close>; the clock enters as the argument \<open>now\<close>.
\<close>

subsection \<open>Definitions\<close>

definition MSG_LOGIN :: byte where "MSG_LOGIN = 0x06"
definition CMD_LOGIN_RESPONSE :: byte where "CMD_LOGIN_RESPONSE = 0x08"
definition CMD_LOCK :: byte where "CMD_LOCK = 0x09"
definition CMD_HELLO :: byte where "CMD_HELLO = 0x0A"
definition MAX_LOGIN_PAYLOAD :: nat where "MAX_LOGIN_PAYLOAD = 16 * 1024"
definition MAX_COMMAND_PAYLOAD :: nat where "MAX_COMMAND_PAYLOAD = 64 * 1024 * 1024"

datatype prompt_style = EchoOn | EchoOff | InfoStyle | ErrorStyle

datatype login_frame =
    LoginPrompt prompt_style string
  | LoginOk (lf_user: string) (lf_uid: u32) (lf_gid: u32) (lf_home: string) (lf_reattached: bool)
  | LoginFailed string "string option"
  | LoginBusy string

datatype client_command = Login string | Dropped byte

datatype frame_shape = Bare | Fixed nat | LengthPrefixed

record raw_command =
  rc_ty :: byte
  rc_bytes :: "byte list"

text \<open>\<open>now_micros\<close>: microseconds since the epoch truncated to 64 bits, 0 when the clock is
  before the epoch.\<close>

definition now_micros :: "nat option \<Rightarrow> u64" where
  "now_micros since_epoch = (case since_epoch of Some d \<Rightarrow> word_of_nat d | None \<Rightarrow> 0)"

definition encode_login_frame ::
  "(login_frame \<Rightarrow> byte list option) \<Rightarrow> u64 \<Rightarrow> login_frame \<Rightarrow> byte list" where
  "encode_login_frame to_vec now frame =
     (let payload = (case to_vec frame of Some p \<Rightarrow> p | None \<Rightarrow> [])
      in [MSG_LOGIN] @ u64_be now @ u32_be (word_of_nat (length payload)) @ payload)"

definition command_frame_spec :: "byte \<Rightarrow> frame_shape option" where
  "command_frame_spec ty =
     (if ty = 0x01 then Some Bare
      else if ty = 0x03 \<or> ty = 0x04 \<or> ty = 0x06 then Some (Fixed 4)
      else if ty = 0x05 then Some (Fixed 2)
      else if ty = 0x02 \<or> ty = 0x07 \<or> ty = CMD_LOGIN_RESPONSE \<or> ty = CMD_LOCK \<or> ty = CMD_HELLO
        then Some LengthPrefixed
      else None)"

definition read_command_type :: "stream \<Rightarrow> io_error + (byte option \<times> stream)" where
  "read_command_type s =
     (case read_exact 1 s of
        Inr (bs, s') \<Rightarrow> Ok (Some (hd bs), s')
      | Inl e \<Rightarrow> if e = UnexpectedEof then Ok (None, s\<lparr>pending := []\<rparr>) else Err e)"

fun read_command_body ::
  "byte \<Rightarrow> frame_shape \<Rightarrow> nat \<Rightarrow> stream \<Rightarrow> io_error + (byte list \<times> stream)" where
  "read_command_body ty Bare cap s = Ok ([ty], s)"
| "read_command_body ty (Fixed n) cap s =
     and_then (read_exact n s) (\<lambda>(body, s'). Ok (ty # body, s'))"
| "read_command_body ty LengthPrefixed cap s =
     and_then (read_exact 4 s) (\<lambda>(len_buf, s').
       let len = unat (u32_of_be len_buf)
       in if len > cap then Err InvalidData
          else and_then (read_exact len s') (\<lambda>(body, s''). Ok (ty # len_buf @ body, s'')))"

definition read_client_command ::
  "(byte list \<Rightarrow> string option) \<Rightarrow> stream \<Rightarrow> io_error + (client_command option \<times> stream)" where
  "read_client_command from_slice s =
     and_then (read_command_type s) (\<lambda>(t, s').
       case t of
         None \<Rightarrow> Ok (None, s')
       | Some ty \<Rightarrow>
           (case command_frame_spec ty of
              Some shape \<Rightarrow>
                if ty \<noteq> CMD_LOCK \<and> ty \<noteq> CMD_HELLO then
                  if ty \<noteq> CMD_LOGIN_RESPONSE then
                    and_then (read_command_body ty shape MAX_COMMAND_PAYLOAD s')
                      (\<lambda>(_, s''). Ok (Some (Dropped ty), s''))
                  else
                    and_then (read_command_body ty shape MAX_LOGIN_PAYLOAD s')
                      (\<lambda>(bytes, s''). Ok (map_option Login (from_slice (drop 5 bytes)), s''))
                else Ok (None, s')
            | None \<Rightarrow> Ok (None, s')))"

definition read_raw_command :: "stream \<Rightarrow> io_error + (raw_command option \<times> stream)" where
  "read_raw_command s =
     and_then (read_command_type s) (\<lambda>(t, s').
       case t of
         None \<Rightarrow> Ok (None, s')
       | Some ty \<Rightarrow>
           (case command_frame_spec ty of
              None \<Rightarrow> Ok (None, s')
            | Some shape \<Rightarrow>
                and_then (read_command_body ty shape MAX_COMMAND_PAYLOAD s')
                  (\<lambda>(bytes, s''). Ok (Some \<lparr>rc_ty = ty, rc_bytes = bytes\<rparr>, s''))))"

text \<open>The grammar of a command on the wire, independent of the readers: the type byte, then
  nothing, a fixed number of bytes, or a big-endian length and that many payload bytes.\<close>

inductive command_wire :: "nat \<Rightarrow> byte \<Rightarrow> byte list \<Rightarrow> bool" for cap :: nat where
  wire_bare: "command_frame_spec ty = Some Bare \<Longrightarrow> command_wire cap ty [ty]"
| wire_fixed: "command_frame_spec ty = Some (Fixed n) \<Longrightarrow> length body = n
    \<Longrightarrow> command_wire cap ty (ty # body)"
| wire_prefixed: "command_frame_spec ty = Some LengthPrefixed \<Longrightarrow> length body \<le> cap
    \<Longrightarrow> unat len = length body \<Longrightarrow> command_wire cap ty (ty # u32_be len @ body)"

inductive_simps command_wire_iff: "command_wire cap ty bytes"

lemmas cmd_defs = CMD_LOGIN_RESPONSE_def CMD_LOCK_def CMD_HELLO_def

subsection \<open>The command reader against the grammar\<close>

lemma read_command_type_Some:
  "read_command_type s = Ok (Some ty, s') \<longleftrightarrow> pending s = ty # pending s' \<and> ending s' = ending s"
  by (cases "pending s"; cases s; cases s')
    (auto simp: read_command_type_def read_exact_def split: option.splits)

lemma read_command_type_None:
  "read_command_type s = Ok (None, s') \<longleftrightarrow>
   pending s = [] \<and> (ending s = None \<or> ending s = Some UnexpectedEof) \<and> s' = s"
  by (cases "pending s"; cases s; cases s')
    (auto simp: read_command_type_def read_exact_def split: option.splits)

lemma read_command_type_Err:
  "read_command_type s = Err e \<longleftrightarrow> pending s = [] \<and> ending s = Some e \<and> e \<noteq> UnexpectedEof"
  by (cases "pending s") (auto simp: read_command_type_def read_exact_def split: option.splits)

lemma prefixed_body_Ok_iff:
  "read_command_body ty LengthPrefixed cap s = Ok (bytes, s') \<longleftrightarrow>
   (\<exists>len body. bytes = ty # u32_be len @ body \<and> unat len = length body \<and> length body \<le> cap
      \<and> pending s = u32_be len @ body @ pending s' \<and> ending s' = ending s)"
  (is "?L \<longleftrightarrow> ?R")
proof
  assume ?L
  then obtain lb s1 body where r1: "read_exact 4 s = Ok (lb, s1)"
    and cap: "unat (u32_of_be lb) \<le> cap"
    and r2: "read_exact (unat (u32_of_be lb)) s1 = Ok (body, s')"
    and b: "bytes = ty # lb @ body"
    by (auto simp: Let_def split: if_splits)
  have "u32_be (u32_of_be lb) = lb" using r1 by (simp add: read_exact_Ok_iff u32_be.enc_dec)
  with r1 r2 b cap show ?R
    by (intro exI [of _ "u32_of_be lb"] exI [of _ body]) (auto simp: read_exact_Ok_iff)
next
  assume ?R
  then obtain len body where b: "bytes = ty # u32_be len @ body" "unat len = length body"
    "length body \<le> cap" "pending s = u32_be len @ body @ pending s'" "ending s' = ending s"
    by blast
  define s1 where "s1 = s\<lparr>pending := body @ pending s'\<rparr>"
  have "read_exact 4 s = Ok (u32_be len, s1)"
    using b by (simp add: read_exact_Ok_iff s1_def)
  moreover have "read_exact (length body) s1 = Ok (body, s')"
    using b by (simp add: read_exact_Ok_iff s1_def)
  ultimately show ?L using b by simp
qed

lemma read_command_body_Ok_iff:
  assumes "command_frame_spec ty = Some shape"
  shows "read_command_body ty shape cap s = Ok (bytes, s') \<longleftrightarrow>
    command_wire cap ty bytes \<and> ty # pending s = bytes @ pending s' \<and> ending s' = ending s"
proof (cases shape)
  case Bare
  with assms show ?thesis by (cases s; cases s') (auto simp: command_wire_iff)
next
  case (Fixed n)
  with assms show ?thesis by (auto simp: command_wire_iff read_exact_Ok_iff)
next
  case LengthPrefixed
  with assms show ?thesis
    by (auto simp: prefixed_body_Ok_iff command_wire_iff simp del: read_command_body.simps)
qed

lemma command_wire_shape: "command_wire cap ty bytes \<Longrightarrow> \<exists>shape. command_frame_spec ty = Some shape"
  by (auto simp: command_wire_iff)

lemma command_wire_hd: "command_wire cap ty bytes \<Longrightarrow> \<exists>body. bytes = ty # body"
  by (auto simp: command_wire_iff)

lemma command_wire_mono: "command_wire cap ty bytes \<Longrightarrow> cap \<le> cap' \<Longrightarrow> command_wire cap' ty bytes"
  by (auto simp: command_wire_iff)

lemma command_wire_by_shape:
  "command_frame_spec ty = Some Bare \<Longrightarrow> command_wire cap ty bs \<longleftrightarrow> bs = [ty]"
  "command_frame_spec ty = Some (Fixed n) \<Longrightarrow>
     command_wire cap ty bs \<longleftrightarrow> (\<exists>body. bs = ty # body \<and> length body = n)"
  "command_frame_spec ty = Some LengthPrefixed \<Longrightarrow>
     command_wire cap ty bs \<longleftrightarrow>
     (\<exists>body len. bs = ty # u32_be len @ body \<and> length body \<le> cap \<and> unat len = length body)"
  by (auto simp: command_wire_iff)

text \<open>No command is a proper prefix of another, so a stream splits into commands in one way.\<close>

lemma command_wire_prefix_free:
  assumes "command_wire cap ty bs" "command_wire cap' ty' bs'" "bs @ xs = bs' @ ys"
  shows "ty = ty' \<and> bs = bs' \<and> xs = ys"
proof -
  obtain b b' where hd: "bs = ty # b" "bs' = ty' # b'"
    using command_wire_hd assms(1,2) by blast
  with assms(3) have ty: "ty = ty'" by simp
  obtain shape where sh: "command_frame_spec ty = Some shape"
    using command_wire_shape [OF assms(1)] by blast
  have "bs = bs' \<and> xs = ys"
  proof (cases shape)
    case Bare
    with sh have "bs = [ty]" "bs' = [ty]"
      using assms(1,2) ty by (simp_all add: command_wire_by_shape(1))
    with assms(3) show ?thesis by simp
  next
    case (Fixed n)
    with sh hd have "length b = n" "length b' = n"
      using assms(1,2) ty by (simp_all add: command_wire_by_shape(2))
    with assms(3) hd ty show ?thesis by simp
  next
    case LengthPrefixed
    with sh obtain body len body' len' where
      b: "bs = ty # u32_be len @ body" "unat len = length body" and
      b': "bs' = ty # u32_be len' @ body'" "unat len' = length body'"
      using assms(1,2) ty by (auto simp only: command_wire_by_shape(3))
    with assms(3) have "u32_be len @ body @ xs = u32_be len' @ body' @ ys" by simp
    then have "len = len'" "body @ xs = body' @ ys" by (simp_all only: u32_be.enc_append_inject)
    with b b' show ?thesis by simp
  qed
  with ty show ?thesis by simp
qed

lemma read_raw_command_Some_iff:
  "read_raw_command s = Ok (Some c, s') \<longleftrightarrow>
   command_wire MAX_COMMAND_PAYLOAD (rc_ty c) (rc_bytes c)
   \<and> pending s = rc_bytes c @ pending s' \<and> ending s' = ending s"
  (is "?L \<longleftrightarrow> ?R")
proof
  assume ?L
  then obtain ty s1 shape bytes where t: "read_command_type s = Ok (Some ty, s1)"
    and sh: "command_frame_spec ty = Some shape"
    and b: "read_command_body ty shape MAX_COMMAND_PAYLOAD s1 = Ok (bytes, s')"
    and c: "c = \<lparr>rc_ty = ty, rc_bytes = bytes\<rparr>"
    by (fastforce simp: read_raw_command_def split: option.splits)
  with t b show ?R by (auto simp: read_command_body_Ok_iff [OF sh] read_command_type_Some)
next
  assume R: ?R
  then obtain shape where sh: "command_frame_spec (rc_ty c) = Some shape"
    using command_wire_shape by blast
  from R obtain body where body: "rc_bytes c = rc_ty c # body" using command_wire_hd by blast
  define s1 where "s1 = s\<lparr>pending := body @ pending s'\<rparr>"
  have "read_command_type s = Ok (Some (rc_ty c), s1)"
    using R body by (simp add: read_command_type_Some s1_def)
  moreover have "read_command_body (rc_ty c) shape MAX_COMMAND_PAYLOAD s1 = Ok (rc_bytes c, s')"
    using R body by (simp add: read_command_body_Ok_iff [OF sh] s1_def)
  ultimately show ?L using sh by (simp add: read_raw_command_def)
qed

text \<open>What the raw reader does on a stream that ends cleanly, by the first byte.\<close>

lemma read_raw_command_Nil: "pending s = [] \<Longrightarrow> ending s = None \<Longrightarrow> read_raw_command s = Ok (None, s)"
  using read_command_type_None [of s s] by (simp add: read_raw_command_def)

lemma read_raw_command_Cons:
  assumes "pending s = ty # rest"
  shows "read_raw_command s =
    (case command_frame_spec ty of
       None \<Rightarrow> Ok (None, s\<lparr>pending := rest\<rparr>)
     | Some shape \<Rightarrow>
         and_then (read_command_body ty shape MAX_COMMAND_PAYLOAD (s\<lparr>pending := rest\<rparr>))
           (\<lambda>(bytes, s''). Ok (Some \<lparr>rc_ty = ty, rc_bytes = bytes\<rparr>, s'')))"
proof -
  have "read_command_type s = Ok (Some ty, s\<lparr>pending := rest\<rparr>)"
    using assms by (simp add: read_command_type_Some)
  then show ?thesis by (simp add: read_raw_command_def)
qed

lemma read_command_body_Err_iff:
  assumes "ending s = None"
  shows "read_command_body ty shape cap s = Err e \<longleftrightarrow>
    (case shape of
       Bare \<Rightarrow> False
     | Fixed n \<Rightarrow> length (pending s) < n \<and> e = UnexpectedEof
     | LengthPrefixed \<Rightarrow>
         if length (pending s) < 4 then e = UnexpectedEof
         else let len = from_be (take 4 (pending s)) in
           if len > cap then e = InvalidData
           else length (pending s) < 4 + len \<and> e = UnexpectedEof)"
  using assms
  by (cases shape)
    (auto simp: read_exact_def and_then_Err_conv Let_def unat_u32_of_be split: if_splits)



subsection \<open>The pre-login reader against the raw reader\<close>

lemma login_shape [simp]: "command_frame_spec CMD_LOGIN_RESPONSE = Some LengthPrefixed"
  by (simp add: command_frame_spec_def cmd_defs)

lemma cmd_distinct [simp]:
  "CMD_LOGIN_RESPONSE \<noteq> CMD_LOCK" "CMD_LOGIN_RESPONSE \<noteq> CMD_HELLO" "CMD_LOCK \<noteq> CMD_HELLO"
  by (simp_all add: cmd_defs)

lemma login_body_raw:
  assumes "pending s = CMD_LOGIN_RESPONSE # rest"
  shows "(\<exists>raw. read_raw_command s = Ok (Some raw, s') \<and> rc_bytes raw = bytes
      \<and> length bytes \<le> 5 + MAX_LOGIN_PAYLOAD)
    \<longleftrightarrow> read_command_body CMD_LOGIN_RESPONSE LengthPrefixed MAX_LOGIN_PAYLOAD
         (s\<lparr>pending := rest\<rparr>) = Ok (bytes, s')"
    (is "?L \<longleftrightarrow> ?R")
proof -
  have caps: "MAX_LOGIN_PAYLOAD \<le> MAX_COMMAND_PAYLOAD"
    by (simp add: MAX_LOGIN_PAYLOAD_def MAX_COMMAND_PAYLOAD_def)
  have "?L \<longleftrightarrow> (\<exists>raw :: raw_command. command_wire MAX_COMMAND_PAYLOAD (rc_ty raw) (rc_bytes raw)
      \<and> pending s = rc_bytes raw @ pending s' \<and> ending s' = ending s \<and> rc_bytes raw = bytes
      \<and> length bytes \<le> 5 + MAX_LOGIN_PAYLOAD)"
    by (simp only: read_raw_command_Some_iff conj_assoc)
  also have "\<dots> \<longleftrightarrow> command_wire MAX_COMMAND_PAYLOAD CMD_LOGIN_RESPONSE bytes
      \<and> pending s = bytes @ pending s' \<and> ending s' = ending s
      \<and> length bytes \<le> 5 + MAX_LOGIN_PAYLOAD" (is "?A \<longleftrightarrow> ?B")
  proof
    assume ?A
    then obtain raw :: raw_command where r: "command_wire MAX_COMMAND_PAYLOAD (rc_ty raw) bytes"
      "pending s = bytes @ pending s'" "ending s' = ending s"
      "length bytes \<le> 5 + MAX_LOGIN_PAYLOAD" by auto
    with assms command_wire_hd [OF r(1)] have "rc_ty raw = CMD_LOGIN_RESPONSE" by auto
    with r show ?B by simp
  next
    assume ?B
    then show ?A
      by (intro exI [of _ "\<lparr>rc_ty = CMD_LOGIN_RESPONSE, rc_bytes = bytes\<rparr>"]) simp
  qed
  also have "\<dots> \<longleftrightarrow> command_wire MAX_LOGIN_PAYLOAD CMD_LOGIN_RESPONSE bytes
      \<and> pending s = bytes @ pending s' \<and> ending s' = ending s"
    using caps by (auto simp: command_wire_by_shape(3))
  also have "\<dots> \<longleftrightarrow> ?R"
    using assms by (simp only: read_command_body_Ok_iff [OF login_shape]) simp
  finally show ?thesis .
qed

lemma read_client_command_Some_iff:
  "read_client_command from_slice s = Ok (Some c, s') \<longleftrightarrow>
   (\<exists>raw. read_raw_command s = Ok (Some raw, s') \<and> rc_ty raw \<noteq> CMD_LOCK \<and> rc_ty raw \<noteq> CMD_HELLO
      \<and> (case c of
            Dropped ty \<Rightarrow> ty = rc_ty raw \<and> ty \<noteq> CMD_LOGIN_RESPONSE
          | Login response \<Rightarrow> rc_ty raw = CMD_LOGIN_RESPONSE
              \<and> length (rc_bytes raw) \<le> 5 + MAX_LOGIN_PAYLOAD
              \<and> from_slice (drop 5 (rc_bytes raw)) = Some response))"
proof (cases "pending s")
  case Nil
  then show ?thesis
    by (auto simp: read_client_command_def read_raw_command_def read_command_type_def
        read_exact_def split: option.splits if_splits)
next
  case (Cons ty rest)
  let ?s1 = "s\<lparr>pending := rest\<rparr>"
  have t: "read_command_type s = Ok (Some ty, ?s1)" using Cons by (simp add: read_command_type_Some)
  have raw_ty: "rc_ty raw = ty" if "read_raw_command s = Ok (Some raw, s')" for raw
    using that t by (auto simp: read_raw_command_def split: option.splits)
  show ?thesis
  proof (cases "ty = CMD_LOGIN_RESPONSE")
    case True
    have "read_client_command from_slice s = Ok (Some c, s') \<longleftrightarrow>
      (\<exists>bytes r. read_command_body ty LengthPrefixed MAX_LOGIN_PAYLOAD ?s1 = Ok (bytes, s')
         \<and> from_slice (drop 5 bytes) = Some r \<and> c = Login r)"
      using t True
      by (auto simp: read_client_command_def simp del: read_command_body.simps)
    also have "\<dots> \<longleftrightarrow> (\<exists>raw r. read_raw_command s = Ok (Some raw, s')
         \<and> length (rc_bytes raw) \<le> 5 + MAX_LOGIN_PAYLOAD
         \<and> from_slice (drop 5 (rc_bytes raw)) = Some r \<and> c = Login r)"
      unfolding True by (subst login_body_raw [symmetric, OF Cons [unfolded True]]) auto
    finally show ?thesis
      using raw_ty True by (cases c) auto
  next
    case False
    show ?thesis
    proof (cases "command_frame_spec ty")
      case None
      with t show ?thesis by (simp add: read_client_command_def read_raw_command_def)
    next
      case (Some shape)
      define B where "B = read_command_body ty shape MAX_COMMAND_PAYLOAD ?s1"
      have raw: "read_raw_command s =
          and_then B (\<lambda>(bytes, s''). Ok (Some \<lparr>rc_ty = ty, rc_bytes = bytes\<rparr>, s''))"
        using t Some by (simp add: read_raw_command_def B_def)
      have client: "read_client_command from_slice s =
          (if ty \<noteq> CMD_LOCK \<and> ty \<noteq> CMD_HELLO then and_then B (\<lambda>(_, s''). Ok (Some (Dropped ty), s''))
           else Ok (None, ?s1))"
        using t Some False by (simp add: read_client_command_def B_def)
      show ?thesis
        unfolding raw client using False by (cases B; cases c) auto
    qed
  qed
qed

text \<open>Before a session exists, a command is accepted exactly when the raw reader accepts it and
  consumes the same bytes, and the command is not a lock or hello; a login response must also
  fit the login payload cap and hold well-formed JSON.  Every other command is reported as
  dropped with its type byte.\<close>

theorem read_client_command_iff_raw:
  "read_client_command from_slice s = Ok (Some c, s') \<longleftrightarrow>
   (\<exists>raw. read_raw_command s = Ok (Some raw, s') \<and> rc_ty raw \<noteq> CMD_LOCK \<and> rc_ty raw \<noteq> CMD_HELLO
      \<and> (case c of
            Dropped ty \<Rightarrow> ty = rc_ty raw \<and> ty \<noteq> CMD_LOGIN_RESPONSE
          | Login response \<Rightarrow> rc_ty raw = CMD_LOGIN_RESPONSE
              \<and> length (rc_bytes raw) \<le> 5 + MAX_LOGIN_PAYLOAD
              \<and> from_slice (drop 5 (rc_bytes raw)) = Some response))"
  by (rule read_client_command_Some_iff)

subsection \<open>Login frames\<close>

lemma encode_login_frame_length:
  "length (encode_login_frame to_vec now frame)
     = 13 + (case to_vec frame of Some p \<Rightarrow> length p | None \<Rightarrow> 0)"
  by (simp add: encode_login_frame_def Let_def split: option.splits)

end
