(* ===== verification/Host_Helpers.thy ===== *)
theory Host_Helpers
  imports Host_Proto
begin

text \<open>
  The functions the connection handler of the host daemon calls: the token comparison, user name
  sanitising, reading login responses and the relay-to-agent proxy loop of
  \<open>flux-hostd/src/main.rs\<close>, and the PAM worker of \<open>pam_session.rs\<close>.
\<close>

subsection \<open>Tokens, user names and responses\<close>

definition timing_safe_eq :: "byte list \<Rightarrow> byte list \<Rightarrow> bool" where
  "timing_safe_eq a b \<longleftrightarrow>
     length a = length b \<and> foldl (\<lambda>acc (x, y). acc OR (x XOR y)) 0 (zip a b) = 0"

text \<open>Strings are sequences of UTF-8 bytes.  \<open>trim\<close> removes Unicode white space, given here by
  the encodings of its code points.\<close>

definition white_space :: "string list" where
  "white_space =
     map (\<lambda>c. [c]) [CHR 0x09, CHR 0x0A, CHR 0x0B, CHR 0x0C, CHR 0x0D, CHR 0x20]
     @ map (\<lambda>c. [CHR 0xC2, c]) [CHR 0x85, CHR 0xA0]
     @ [[CHR 0xE1, CHR 0x9A, CHR 0x80]]
     @ map (\<lambda>c. [CHR 0xE2, CHR 0x80, c])
         [CHR 0x80, CHR 0x81, CHR 0x82, CHR 0x83, CHR 0x84, CHR 0x85, CHR 0x86, CHR 0x87, CHR 0x88,
          CHR 0x89, CHR 0x8A, CHR 0xA8, CHR 0xA9, CHR 0xAF]
     @ [[CHR 0xE2, CHR 0x81, CHR 0x9F], [CHR 0xE3, CHR 0x80, CHR 0x80]]"

definition strip_one :: "string list \<Rightarrow> string \<Rightarrow> string option" where
  "strip_one ws s =
     map_option (\<lambda>w. drop (length w) s) (find (\<lambda>w. w \<noteq> [] \<and> take (length w) s = w) ws)"

lemma strip_one_shorter: "strip_one ws s = Some s' \<Longrightarrow> length s' < length s"
  by (cases s) (auto simp: strip_one_def find_Some_iff)

function strip_all :: "string list \<Rightarrow> string \<Rightarrow> string" where
  "strip_all ws s = (case strip_one ws s of None \<Rightarrow> s | Some s' \<Rightarrow> strip_all ws s')"
  by pat_completeness auto
termination
  by (relation "measure (\<lambda>(ws, s). length s)") (auto dest: strip_one_shorter)

declare strip_all.simps [simp del]

definition trim :: "string \<Rightarrow> string" where
  "trim s = rev (strip_all (map rev white_space) (rev (strip_all white_space s)))"

definition is_ascii_alphanumeric :: "char \<Rightarrow> bool" where
  "is_ascii_alphanumeric c \<longleftrightarrow>
     (let n = of_char c :: nat
      in (0x61 \<le> n \<and> n \<le> 0x7A) \<or> (0x41 \<le> n \<and> n \<le> 0x5A) \<or> (0x30 \<le> n \<and> n \<le> 0x39))"

definition username_char :: "char \<Rightarrow> bool" where
  "username_char c \<longleftrightarrow> is_ascii_alphanumeric c \<or> c \<in> set ''_.-@+''"

definition sanitize_username :: "string \<Rightarrow> string option" where
  "sanitize_username name =
     (let name = trim name
      in if name = [] \<or> length name > 64 \<or> \<not> list_all username_char name then None else Some name)"

text \<open>\<open>read_response\<close>: login responses, dropping other commands.\<close>

lemma read_client_command_shorter:
  "read_client_command from_slice s = Ok (Some c, s') \<Longrightarrow> length (pending s') < length (pending s)"
  by (auto simp: read_client_command_Some_iff read_raw_command_Some_iff dest: command_wire_hd)

function read_response ::
  "(byte list \<Rightarrow> string option) \<Rightarrow> stream \<Rightarrow> io_error + (string option \<times> stream)" where
  "read_response from_slice s =
     (case read_client_command from_slice s of
        Inl e \<Rightarrow> Err e
      | Inr (None, s') \<Rightarrow> Ok (None, s')
      | Inr (Some (Login resp), s') \<Rightarrow> Ok (Some resp, s')
      | Inr (Some (Dropped _), s') \<Rightarrow> read_response from_slice s')"
  by pat_completeness auto
termination
  by (relation "measure (\<lambda>(f, s). length (pending s))") (auto dest: read_client_command_shorter)

declare read_response.simps [simp del]

text \<open>The relay-to-agent half of \<open>proxy\<close>: commands are forwarded verbatim until the end of
  the stream, an error or a lock command.  \<open>agent_wr sent\<close> tells whether writing up to
  \<open>sent\<close> fails.  The result has the bytes forwarded, the outcome and the unread input.\<close>

datatype proxy_end = ProxyDisconnected | ProxyLocked

lemma read_raw_command_shorter:
  "read_raw_command s = Ok (Some c, s') \<Longrightarrow> length (pending s') < length (pending s)"
  by (auto simp: read_raw_command_Some_iff dest!: command_wire_hd)

function from_relay ::
  "(byte list \<Rightarrow> io_error option) \<Rightarrow> byte list \<Rightarrow> stream \<Rightarrow> byte list \<times> (io_error + proxy_end) \<times> stream"
where
  "from_relay agent_wr sent s =
     (case read_raw_command s of
        Inl e \<Rightarrow> (sent, Err e, s)
      | Inr (None, s') \<Rightarrow> (sent, Ok ProxyDisconnected, s')
      | Inr (Some cmd, s') \<Rightarrow>
          if rc_ty cmd = CMD_LOCK then (sent, Ok ProxyLocked, s')
          else (case agent_wr (sent @ rc_bytes cmd) of
                  Some e \<Rightarrow> (sent, Err e, s')
                | None \<Rightarrow> from_relay agent_wr (sent @ rc_bytes cmd) s'))"
  by pat_completeness auto
termination
  by (relation "measure (\<lambda>(f, b, s). length (pending s))") (auto dest: read_raw_command_shorter)

declare from_relay.simps [simp del]

subsection \<open>The PAM worker\<close>

record pam_outcome =
  po_user :: string
  po_env :: "(string \<times> string) list"
  po_session :: "nat option"

datatype pam_event =
    PamPrompt prompt_style string
  | PamOk pam_outcome
  | PamFailed string

text \<open>What the PAM library does in one conversation: the result of each call and the texts it shows
  meanwhile.  \<open>pam_id\<close> identifies the session handle.\<close>

record pam_script =
  pam_init :: "string + unit"
  auth_prompts :: "(prompt_style \<times> string) list"
  pam_auth :: "string + unit"
  acct_prompts :: "(prompt_style \<times> string) list"
  pam_acct :: "string + unit"
  pam_user :: "string option"
  open_prompts :: "(prompt_style \<times> string) list"
  pam_open :: "string + (string \<times> string) list"
  pam_id :: nat

definition prompts :: "(prompt_style \<times> string) list \<Rightarrow> pam_event list" where
  "prompts ps = map (\<lambda>(style, msg). PamPrompt style msg) ps"

text \<open>\<open>ask\<close>: the answer handed to PAM for a response, if any arrived in time.  Trailing line
  ends are cut, and a NUL byte inside is an error.\<close>

definition ask :: "string option \<Rightarrow> string option" where
  "ask response =
     Option.bind response (\<lambda>r.
       let r = rev (dropWhile (\<lambda>c. c = CHR 0x0A \<or> c = CHR 0x0D) (rev r))
       in if CHR 0x00 \<in> set r then None else Some r)"

definition pam_worker :: "string \<Rightarrow> bool \<Rightarrow> pam_script \<Rightarrow> pam_event list" where
  "pam_worker user open_session p =
     (case pam_init p of
        Inl e \<Rightarrow> [PamFailed (''PAM initialization failed: '' @ e)]
      | Inr _ \<Rightarrow> prompts (auth_prompts p) @
     (case pam_auth p of
        Inl e \<Rightarrow> [PamFailed (''authentication failed: '' @ e)]
      | Inr _ \<Rightarrow> prompts (acct_prompts p) @
     (case pam_acct p of
        Inl e \<Rightarrow> [PamFailed (''account validation failed: '' @ e)]
      | Inr _ \<Rightarrow>
     (let user = (case pam_user p of Some u \<Rightarrow> u | None \<Rightarrow> user)
      in if \<not> open_session
         then [PamOk \<lparr>po_user = user, po_env = [], po_session = None\<rparr>]
         else prompts (open_prompts p) @
     (case pam_open p of
        Inl e \<Rightarrow> [PamFailed (''session open failed: '' @ e)]
      | Inr env \<Rightarrow> [PamOk \<lparr>po_user = user, po_env = env, po_session = Some (pam_id p)\<rparr>])))))"

subsection \<open>Facts on tokens and user names\<close>

lemma word_or_eq_0: "(x OR y = (0 :: 'a::len word)) \<longleftrightarrow> x = 0 \<and> y = 0"
  by (auto simp: bit_eq_iff bit_simps)

lemma word_xor_eq_0: "(x XOR y = (0 :: 'a::len word)) \<longleftrightarrow> x = y"
  by (auto simp: bit_eq_iff bit_simps)

lemma fold_or_xor:
  "length a = length b \<Longrightarrow>
   foldl (\<lambda>acc (x, y). acc OR (x XOR y)) acc (zip a b) = (0 :: byte) \<longleftrightarrow> acc = 0 \<and> a = b"
  by (induction a b arbitrary: acc rule: list_induct2) (auto simp: word_or_eq_0 word_xor_eq_0)

lemma timing_safe_eq_iff [simp]: "timing_safe_eq a b \<longleftrightarrow> a = b"
  by (auto simp: timing_safe_eq_def fold_or_xor)

lemma strip_one_suffix:
  assumes "strip_one ws s = Some s'"
  shows "\<exists>w \<in> set ws. s = w @ s'"
proof -
  obtain w where f: "find (\<lambda>w. w \<noteq> [] \<and> take (length w) s = w) ws = Some w"
    and s': "s' = drop (length w) s"
    using assms by (auto simp: strip_one_def)
  from f have "w \<in> set ws" "take (length w) s = w" by (auto simp: find_Some_iff)
  with s' show ?thesis by (metis append_take_drop_id)
qed

lemma strip_all_suffix: "\<exists>us. set us \<subseteq> set ws \<and> s = concat us @ strip_all ws s"
proof (induction ws s rule: strip_all.induct)
  case (1 ws s)
  show ?case
  proof (cases "strip_one ws s")
    case None
    then show ?thesis by (auto simp: strip_all.simps [of ws s] intro: exI [of _ "[]"])
  next
    case (Some s')
    then obtain w where w: "w \<in> set ws" "s = w @ s'" using strip_one_suffix by blast
    obtain us where us: "s' = concat us @ strip_all ws s'" "set us \<subseteq> set ws" using 1 Some by blast
    have "strip_all ws s = strip_all ws s'" using Some by (simp add: strip_all.simps [of ws s])
    with w us have "set (w # us) \<subseteq> set ws \<and> s = concat (w # us) @ strip_all ws s" by simp
    then show ?thesis by blast
  qed
qed

lemma strip_all_stop: "strip_one ws s = None \<Longrightarrow> strip_all ws s = s"
  by (simp add: strip_all.simps [of ws s])

text \<open>The encodings of white space are non-empty, none is a prefix or a suffix of another, and they
  hold no user name character.\<close>

definition prefix_free :: "string list \<Rightarrow> bool" where
  "prefix_free ws \<longleftrightarrow> [] \<notin> set ws
     \<and> list_all (\<lambda>w. list_all (\<lambda>w'. take (length w) w' = w \<longrightarrow> w = w') ws) ws"

lemma white_space_prefix_free: "prefix_free white_space" "prefix_free (map rev white_space)"
  by code_simp+

lemma white_space_chars: "w \<in> set white_space \<Longrightarrow> c \<in> set w \<Longrightarrow> \<not> username_char c"
proof -
  have "list_all (list_all (\<lambda>c. \<not> username_char c)) white_space" by code_simp
  then show "w \<in> set white_space \<Longrightarrow> c \<in> set w \<Longrightarrow> \<not> username_char c"
    by (auto simp: list_all_iff)
qed

lemma strip_one_append:
  assumes "prefix_free ws" "w \<in> set ws"
  shows "strip_one ws (w @ s) = Some s"
proof -
  have "w \<noteq> []" using assms by (auto simp: prefix_free_def)
  then have "find (\<lambda>v. v \<noteq> [] \<and> take (length v) (w @ s) = v) ws \<noteq> None"
    using assms(2) by (auto simp: find_None_iff)
  then obtain v where f: "find (\<lambda>v. v \<noteq> [] \<and> take (length v) (w @ s) = v) ws = Some v" by blast
  then have v: "v \<in> set ws" "take (length v) (w @ s) = v" by (auto simp: find_Some_iff)
  have "take (length v) w = v \<or> take (length w) v = w"
  proof (cases "length v \<le> length w")
    case True
    with v(2) show ?thesis by simp
  next
    case False
    have "take (length w) v = take (length w) (take (length v) (w @ s))" by (simp only: v(2))
    with False show ?thesis by simp
  qed
  with assms v(1) have "v = w" by (auto simp: prefix_free_def list_all_iff)
  with f show ?thesis by (simp add: strip_one_def)
qed

lemma strip_all_concat:
  "prefix_free ws \<Longrightarrow> set us \<subseteq> set ws \<Longrightarrow> strip_one ws s = None \<Longrightarrow> strip_all ws (concat us @ s) = s"
  by (induction us) (simp_all add: strip_all_stop strip_all.simps strip_one_append)

lemma strip_one_username:
  assumes "list_all username_char s" "\<And>w c. w \<in> set ws \<Longrightarrow> c \<in> set w \<Longrightarrow> \<not> username_char c"
  shows "strip_one ws (s @ concat vs) = None \<or> s = []"
proof (rule disjCI)
  assume "s \<noteq> []"
  then obtain x xs where s: "s = x # xs" by (cases s) auto
  show "strip_one ws (s @ concat vs) = None"
  proof (rule ccontr)
    assume "strip_one ws (s @ concat vs) \<noteq> None"
    then obtain w where "find (\<lambda>w. w \<noteq> [] \<and> take (length w) (s @ concat vs) = w) ws = Some w"
      by (auto simp: strip_one_def)
    then have w: "w \<in> set ws" "w \<noteq> []" "take (length w) (s @ concat vs) = w"
      by (auto simp: find_Some_iff)
    then obtain y ys where "w = y # ys" by (auto simp: neq_Nil_conv)
    with w(3) s have "x \<in> set w" by simp
    with assms w(1) s show False by auto
  qed
qed

lemma trim_white_space:
  assumes "s \<noteq> []" "list_all username_char s" "set ps \<subseteq> set white_space" "set qs \<subseteq> set white_space"
  shows "trim (concat ps @ s @ concat qs) = s"
proof -
  have "strip_all white_space (concat ps @ s @ concat qs) = s @ concat qs"
    using assms strip_one_username [of s white_space qs] white_space_chars
    by (intro strip_all_concat white_space_prefix_free) auto
  moreover have "strip_one (map rev white_space) (rev s @ concat []) = None \<or> rev s = []"
    using assms(2) white_space_chars by (intro strip_one_username) (auto simp: list_all_iff)
  then have "strip_all (map rev white_space) (concat (rev (map rev qs)) @ rev s) = rev s"
    using assms by (intro strip_all_concat white_space_prefix_free) auto
  ultimately show ?thesis by (simp add: trim_def rev_concat rev_map)
qed

lemma trim_decompose:
  "\<exists>ps qs. set ps \<subseteq> set white_space \<and> set qs \<subseteq> set white_space \<and> s = concat ps @ trim s @ concat qs"
proof -
  let ?t = "strip_all white_space s"
  obtain ps where ps: "set ps \<subseteq> set white_space" "s = concat ps @ ?t"
    using strip_all_suffix by blast
  obtain vs where vs: "set vs \<subseteq> set (map rev white_space)"
    "rev ?t = concat vs @ strip_all (map rev white_space) (rev ?t)"
    using strip_all_suffix by blast
  from vs(2) have "?t = rev (concat vs @ strip_all (map rev white_space) (rev ?t))"
    by (metis rev_rev_ident)
  then have t: "?t = trim s @ concat (rev (map rev vs))" by (simp add: trim_def rev_concat rev_map)
  have "set (rev (map rev vs)) \<subseteq> set white_space" using vs(1) by auto
  with ps t show ?thesis by (metis append.assoc)
qed

lemma sanitize_username_iff:
  "sanitize_username name = Some user \<longleftrightarrow>
   user \<noteq> [] \<and> length user \<le> 64 \<and> list_all username_char user
   \<and> (\<exists>ps qs. set ps \<subseteq> set white_space \<and> set qs \<subseteq> set white_space
        \<and> name = concat ps @ user @ concat qs)"
proof
  assume "sanitize_username name = Some user"
  then have "user = trim name" "user \<noteq> []" "length user \<le> 64" "list_all username_char user"
    by (auto simp: sanitize_username_def Let_def split: if_splits)
  with trim_decompose [of name] show "user \<noteq> [] \<and> length user \<le> 64 \<and> list_all username_char user
    \<and> (\<exists>ps qs. set ps \<subseteq> set white_space \<and> set qs \<subseteq> set white_space
        \<and> name = concat ps @ user @ concat qs)" by simp
next
  assume "user \<noteq> [] \<and> length user \<le> 64 \<and> list_all username_char user
    \<and> (\<exists>ps qs. set ps \<subseteq> set white_space \<and> set qs \<subseteq> set white_space
        \<and> name = concat ps @ user @ concat qs)"
  then show "sanitize_username name = Some user"
    using trim_white_space by (auto simp: sanitize_username_def)
qed

text \<open>A user name is accepted exactly when it is, but for Unicode white space around it, a
  non-empty string of at most 64 ASCII letters, digits and the characters \<open>_ . - @ +\<close>; the
  accepted name is that string, and it is itself accepted unchanged.\<close>

theorem sanitize_username_spec:
  "(sanitize_username name = Some user \<longleftrightarrow>
    user \<noteq> [] \<and> length user \<le> 64 \<and> list_all username_char user
    \<and> (\<exists>ps qs. set ps \<subseteq> set white_space \<and> set qs \<subseteq> set white_space
         \<and> name = concat ps @ user @ concat qs))
   \<and> (case sanitize_username name of Some u \<Rightarrow> sanitize_username u = Some u | None \<Rightarrow> True)"
proof -
  have "sanitize_username u = Some u" if "sanitize_username name = Some u" for u
    using that unfolding sanitize_username_iff by (intro conjI exI [of _ "[]"]) auto
  then show ?thesis using sanitize_username_iff by (auto split: option.splits)
qed

lemma sanitize_username_id:
  "u \<noteq> [] \<Longrightarrow> length u \<le> 64 \<Longrightarrow> list_all username_char u \<Longrightarrow> sanitize_username u = Some u"
  unfolding sanitize_username_iff by (intro conjI exI [of _ "[]"]) auto

subsection \<open>Facts on the readers\<close>

definition login_response :: "byte list \<Rightarrow> byte list" where
  "login_response payload = CMD_LOGIN_RESPONSE # u32_be (word_of_nat (length payload)) @ payload"

lemma read_response_login:
  assumes "from_slice payload = Some name" "length payload \<le> MAX_LOGIN_PAYLOAD"
  shows "read_response from_slice \<lparr>pending = login_response payload @ rest, ending = e\<rparr>
    = Ok (Some name, \<lparr>pending = rest, ending = e\<rparr>)"
proof -
  let ?s = "\<lparr>pending = login_response payload @ rest, ending = e\<rparr>"
  let ?s' = "\<lparr>pending = rest, ending = e\<rparr>"
  let ?raw = "\<lparr>rc_ty = CMD_LOGIN_RESPONSE, rc_bytes = login_response payload\<rparr>"
  have len: "unat (word_of_nat (length payload) :: u32) = length payload"
    using assms(2) by (simp add: unat_of_nat MAX_LOGIN_PAYLOAD_def)
  have "command_wire MAX_COMMAND_PAYLOAD CMD_LOGIN_RESPONSE (login_response payload)"
    unfolding login_response_def using assms(2) len
    by (intro wire_prefixed) (simp_all add: MAX_LOGIN_PAYLOAD_def MAX_COMMAND_PAYLOAD_def)
  then have "read_raw_command ?s = Ok (Some ?raw, ?s')" by (simp add: read_raw_command_Some_iff)
  then have "read_client_command from_slice ?s = Ok (Some (Login name), ?s')"
    unfolding read_client_command_Some_iff
    using assms by (intro exI [of _ ?raw]) (simp add: login_response_def)
  then show ?thesis by (simp add: read_response.simps [of from_slice ?s])
qed

definition agent_commands :: "raw_command list \<Rightarrow> bool" where
  "agent_commands cmds \<longleftrightarrow>
     list_all (\<lambda>c. command_wire MAX_COMMAND_PAYLOAD (rc_ty c) (rc_bytes c) \<and> rc_ty c \<noteq> CMD_LOCK) cmds"

lemma agent_commands_simps [simp]:
  "agent_commands []"
  "agent_commands (c # cs) \<longleftrightarrow> command_wire MAX_COMMAND_PAYLOAD (rc_ty c) (rc_bytes c)
     \<and> rc_ty c \<noteq> CMD_LOCK \<and> agent_commands cs"
  by (auto simp: agent_commands_def)

lemma from_relay_forwards:
  "agent_commands cmds \<Longrightarrow> pending s = concat (map rc_bytes cmds) @ rest \<Longrightarrow>
   from_relay (\<lambda>_. None) sent s
     = from_relay (\<lambda>_. None) (sent @ concat (map rc_bytes cmds)) (s\<lparr>pending := rest\<rparr>)"
proof (induction cmds arbitrary: sent s)
  case Nil
  then show ?case by (cases s) simp
next
  case (Cons c cmds)
  let ?s = "s\<lparr>pending := concat (map rc_bytes cmds) @ rest\<rparr>"
  have "read_raw_command s = Ok (Some c, ?s)"
    using Cons.prems by (simp add: read_raw_command_Some_iff)
  then have "from_relay (\<lambda>_. None) sent s = from_relay (\<lambda>_. None) (sent @ rc_bytes c) ?s"
    using Cons.prems by (simp add: from_relay.simps [of _ sent s])
  also have "\<dots> = from_relay (\<lambda>_. None) ((sent @ rc_bytes c) @ concat (map rc_bytes cmds))
      (?s\<lparr>pending := rest\<rparr>)"
    using Cons.prems by (intro Cons.IH) auto
  finally show ?case by simp
qed

lemma from_relay_sound:
  "from_relay agent_wr sent s = (fwd, r, s') \<Longrightarrow>
   \<exists>cmds tail. agent_commands cmds \<and> fwd = sent @ concat (map rc_bytes cmds)
     \<and> pending s = concat (map rc_bytes cmds) @ tail
     \<and> (r = Ok ProxyLocked \<longrightarrow> ending s' = ending s
          \<and> (\<exists>lock. command_wire MAX_COMMAND_PAYLOAD CMD_LOCK lock \<and> tail = lock @ pending s'))"
proof (induction agent_wr sent s arbitrary: fwd r s' rule: from_relay.induct)
  case (1 agent_wr sent s)
  show ?case
  proof (cases "\<exists>c s1. read_raw_command s = Ok (Some c, s1) \<and> rc_ty c \<noteq> CMD_LOCK
      \<and> agent_wr (sent @ rc_bytes c) = None")
    case False
    with 1(2) have "fwd = sent"
      and "r = Ok ProxyLocked \<longrightarrow> (\<exists>c. read_raw_command s = Ok (Some c, s') \<and> rc_ty c = CMD_LOCK)"
      by (auto simp: from_relay.simps [of _ sent s] split: sum.splits option.splits if_splits)
    then show ?thesis
      by (intro exI [of _ "[] :: raw_command list"] exI [of _ "pending s"])
        (auto simp: read_raw_command_Some_iff)
  next
    case True
    then obtain c s1 where c: "read_raw_command s = Ok (Some c, s1)" "rc_ty c \<noteq> CMD_LOCK"
      "agent_wr (sent @ rc_bytes c) = None" by blast
    with 1(2) have "from_relay agent_wr (sent @ rc_bytes c) s1 = (fwd, r, s')"
      by (simp add: from_relay.simps [of _ sent s])
    from 1(1) [OF c(1) refl refl c(2,3) this] obtain cmds tail where
      i: "agent_commands cmds" "fwd = (sent @ rc_bytes c) @ concat (map rc_bytes cmds)"
        "pending s1 = concat (map rc_bytes cmds) @ tail"
        "r = Ok ProxyLocked \<longrightarrow> ending s' = ending s1
          \<and> (\<exists>lock. command_wire MAX_COMMAND_PAYLOAD CMD_LOCK lock \<and> tail = lock @ pending s')"
      by blast
    with c(1,2) show ?thesis
      by (intro exI [of _ "c # cmds"] exI [of _ tail]) (auto simp: read_raw_command_Some_iff)
  qed
qed

text \<open>The proxy ends with a lock exactly when the relay's input is a sequence of well-formed
  commands other than lock followed by a lock command; then exactly the bytes of those commands
  have reached the agent, in order, and the input after the lock command is left unread.  However
  the proxy ends, what it forwarded is a prefix of the input made of whole commands.\<close>

theorem proxy_forwards_verbatim:
  "(from_relay (\<lambda>_. None) [] s = (fwd, Ok ProxyLocked, s') \<longleftrightarrow>
     (\<exists>cmds lock. agent_commands cmds \<and> command_wire MAX_COMMAND_PAYLOAD CMD_LOCK lock
        \<and> fwd = concat (map rc_bytes cmds) \<and> pending s = fwd @ lock @ pending s'
        \<and> ending s' = ending s))
   \<and> (\<exists>cmds tail. agent_commands cmds \<and> fst (from_relay agent_wr [] s) = concat (map rc_bytes cmds)
        \<and> pending s = concat (map rc_bytes cmds) @ tail)"
  (is "(?L \<longleftrightarrow> ?R) \<and> ?P")
proof (intro conjI iffI)
  assume ?L
  with from_relay_sound [OF this] show ?R by fastforce
next
  assume ?R
  then obtain cmds lock where r: "agent_commands cmds"
    "command_wire MAX_COMMAND_PAYLOAD CMD_LOCK lock" "fwd = concat (map rc_bytes cmds)"
    "pending s = fwd @ lock @ pending s'" "ending s' = ending s" by blast
  let ?s = "s\<lparr>pending := lock @ pending s'\<rparr>"
  have "read_raw_command ?s = Ok (Some \<lparr>rc_ty = CMD_LOCK, rc_bytes = lock\<rparr>, s')"
    using r by (simp add: read_raw_command_Some_iff)
  then have "from_relay (\<lambda>_. None) fwd ?s = (fwd, Ok ProxyLocked, s')"
    by (simp add: from_relay.simps [of _ fwd ?s])
  with from_relay_forwards [OF r(1), of s "lock @ pending s'" "[]"] r show ?L by simp
next
  obtain fwd r s' where "from_relay agent_wr [] s = (fwd, r, s')" by (metis prod_cases3)
  from from_relay_sound [OF this] this show ?P by auto
qed

end
