(* ===== verification/Host_Rate.thy ===== *)
theory Host_Rate
  imports Prelude
begin

text \<open>
  The per-peer login rate limiter of the host daemon (\<open>flux-hostd/src/rate.rs\<close>).  Instants and
  durations are numbers of milliseconds; the clock reading of each call is an argument.
\<close>

subsection \<open>Definitions\<close>

datatype ip_addr = V4 u32 | V6 "128 word"

record peer_state =
  failures :: nat
  blocked_until :: "nat option"

record limiter =
  max_failures :: nat
  cooldown :: nat
  peers :: "ip_addr \<rightharpoonup> peer_state"

definition limiter_new :: "nat \<Rightarrow> nat \<Rightarrow> limiter" where
  "limiter_new limit cd = \<lparr>max_failures = limit, cooldown = cd, peers = Map.empty\<rparr>"

definition is_blocked :: "nat \<Rightarrow> ip_addr \<Rightarrow> limiter \<Rightarrow> bool" where
  "is_blocked now peer l =
     (case Option.bind (peers l peer) blocked_until of
        Some until \<Rightarrow> until > now
      | None \<Rightarrow> False)"

definition record_failure :: "nat \<Rightarrow> ip_addr \<Rightarrow> limiter \<Rightarrow> bool \<times> limiter" where
  "record_failure now peer l =
     (let st = (case peers l peer of
                  Some st \<Rightarrow> st
                | None \<Rightarrow> \<lparr>failures = 0, blocked_until = None\<rparr>);
          st = st\<lparr>failures := failures st + 1\<rparr>
      in if failures st \<ge> max_failures l
         then (True, l\<lparr>peers := (peers l)(peer \<mapsto>
                 st\<lparr>failures := 0, blocked_until := Some (now + cooldown l)\<rparr>)\<rparr>)
         else (False, l\<lparr>peers := (peers l)(peer \<mapsto> st)\<rparr>))"

definition record_success :: "ip_addr \<Rightarrow> limiter \<Rightarrow> limiter" where
  "record_success peer l =
     (case peers l peer of
        Some st \<Rightarrow> l\<lparr>peers := (peers l)(peer \<mapsto> st\<lparr>failures := 0\<rparr>)\<rparr>
      | None \<Rightarrow> l)"

text \<open>The calls the connection handlers make, in some order over all peers.\<close>

datatype rate_call = Failure nat ip_addr | Success ip_addr

primrec call_peer :: "rate_call \<Rightarrow> ip_addr" where
  "call_peer (Failure t p) = p"
| "call_peer (Success p) = p"

primrec rate_step :: "rate_call \<Rightarrow> limiter \<Rightarrow> bool \<times> limiter" where
  "rate_step (Failure t p) l = record_failure t p l"
| "rate_step (Success p) l = (False, record_success p l)"

text \<open>Well-formedness: the configuration is that of the constructor and no counter has reached the
  limit (so the 32-bit counter of the code cannot overflow).\<close>

definition rate_inv :: "nat \<Rightarrow> nat \<Rightarrow> limiter \<Rightarrow> bool" where
  "rate_inv m cd l \<longleftrightarrow> max_failures l = m \<and> cooldown l = cd
     \<and> (\<forall>p st. peers l p = Some st \<longrightarrow> failures st < max m 1)"

lemmas rate_defs = record_failure_def record_success_def Let_def

subsection \<open>Invariant and independence of peers\<close>

lemma rate_inv_new: "rate_inv m cd (limiter_new m cd)"
  by (simp add: rate_inv_def limiter_new_def)

interpretation rate: stepper rate_step "rate_inv m cd"
proof unfold_locales
  fix l i
  assume "rate_inv m cd l"
  then show "rate_inv m cd (snd (rate_step i l))"
    by (cases i) (auto simp: rate_inv_def rate_defs split: option.splits if_splits)
qed

lemma rate_step_other: "call_peer c \<noteq> p \<Longrightarrow> peers (snd (rate_step c l)) p = peers l p"
  by (cases c) (auto simp: rate_defs split: option.splits)

lemma rate_step_local:
  assumes "peers l p = peers l' p" "max_failures l = max_failures l'" "cooldown l = cooldown l'"
    "call_peer c = p"
  shows "fst (rate_step c l) = fst (rate_step c l')
    \<and> peers (snd (rate_step c l)) p = peers (snd (rate_step c l')) p"
  using assms by (cases c) (auto simp: rate_defs split: option.splits)

lemma rate_step_config [simp]:
  "max_failures (snd (rate_step c l)) = max_failures l" "cooldown (snd (rate_step c l)) = cooldown l"
  by (cases c; auto simp: rate_defs split: option.splits)+

lemma rate_run_config [simp]:
  "max_failures (snd (run rate_step cs l)) = max_failures l"
  "cooldown (snd (run rate_step cs l)) = cooldown l"
  by (induction cs arbitrary: l) auto

lemma rate_run_local:
  assumes "peers l p = peers l' p" "max_failures l = max_failures l'" "cooldown l = cooldown l'"
  shows "peers (snd (run rate_step cs l)) p
    = peers (snd (run rate_step (filter (\<lambda>c. call_peer c = p) cs) l')) p"
  using assms
proof (induction cs arbitrary: l l')
  case (Cons c cs)
  show ?case
  proof (cases "call_peer c = p")
    case True
    with rate_step_local [OF Cons.prems True]
      Cons.IH [of "snd (rate_step c l)" "snd (rate_step c l')"] Cons.prems
    show ?thesis by simp
  next
    case False
    with rate_step_other [OF False] Cons.IH [of "snd (rate_step c l)" l'] Cons.prems
    show ?thesis by simp
  qed
qed simp

text \<open>A run of failures of one peer: the counter is the number of failures modulo the limit, and the
  block starts at the last failure that completed a full group.\<close>

lemma rate_run_failures:
  assumes "m > 0" "max_failures l = m" "cooldown l = cd" "peers l p = None" "ts \<noteq> []"
  shows "peers (snd (run rate_step (map (\<lambda>t. Failure t p) ts) l)) p
    = Some \<lparr>failures = length ts mod m,
            blocked_until = (if length ts < m then None
                             else Some (ts ! (length ts div m * m - 1) + cd))\<rparr>"
  using assms(5)
proof (induction ts rule: rev_nonempty_induct)
  case (single t)
  show ?case
  proof (cases "m = 1")
    case True
    with assms show ?thesis by (simp add: rate_defs)
  next
    case False
    with assms show ?thesis by (auto simp: rate_defs)
  qed
next
  case (snoc t ts)
  let ?l = "snd (run rate_step (map (\<lambda>t. Failure t p) ts) l)"
  let ?n = "length ts"
  have cfg: "max_failures ?l = m" "cooldown ?l = cd" using assms by simp_all
  have step: "snd (run rate_step (map (\<lambda>t. Failure t p) (ts @ [t])) l)
    = snd (rate_step (Failure t p) ?l)"
    by (simp add: run_snd_snoc)
  show ?case
  proof (cases "Suc (?n mod m) = m")
    case True
    then have "Suc ?n mod m = 0" by (simp add: mod_Suc)
    moreover have "Suc ?n div m * m = Suc ?n"
      using \<open>Suc ?n mod m = 0\<close> by (simp add: mod_eq_0_iff_dvd)
    moreover have "\<not> Suc ?n < m" using \<open>Suc ?n mod m = 0\<close> by (meson dvd_imp_le mod_eq_0_iff_dvd not_le zero_less_Suc)
    ultimately show ?thesis
      unfolding step using True cfg snoc.IH by (simp add: rate_defs nth_append)
  next
    case False
    then have md: "Suc ?n mod m = Suc (?n mod m)" and dv: "Suc ?n div m = ?n div m"
      by (simp_all add: mod_Suc div_Suc)
    have "?n mod m < m" using assms(1) by simp
    with False have lt: "Suc (?n mod m) < m" by linarith
    have small: "Suc ?n < m \<longleftrightarrow> ?n < m"
      using dv assms(1) by (metis div_less div_eq_0_iff not_gr_zero)
    have idx: "?n div m * m - 1 < ?n" if "\<not> ?n < m"
    proof -
      have "0 < ?n div m * m" using that assms(1) by (simp add: div_greater_zero_iff)
      moreover have "?n div m * m \<le> ?n" by (rule div_times_less_eq_dividend)
      ultimately show ?thesis by linarith
    qed
    from lt cfg snoc.IH small idx md dv show ?thesis
      unfolding step by (auto simp: rate_defs nth_append)
  qed
qed

lemma is_blocked_success: "is_blocked now p (record_success q l) = is_blocked now p l"
  by (auto simp: is_blocked_def record_success_def split: option.splits)



end
