(* ===== verification/Host_Session.thy ===== *)
theory Host_Session
  imports Prelude
begin

text \<open>
  The session registry of the host daemon (\<open>flux-hostd/src/session.rs\<close>) and the idle-logout
  timer of \<open>flux-hostd/src/main.rs\<close>.  The two mutex-protected slots and the atomic counter are
  fields of one record.  A method that takes the two locks one after the other is the composition of
  one definition per critical section (\<open>state_claim\<close>, \<open>state_inner\<close>, ...), so that
  the connection model can interleave other threads between them.
\<close>

subsection \<open>Definitions\<close>

record os_user =
  ou_name :: string
  ou_uid :: u32
  ou_gid :: u32
  ou_home :: string
  ou_shell :: string

record active_session =
  as_user :: os_user
  pam_guard :: "nat option"
  locked_since :: "nat option"

datatype session_state = Free | Claimed string | Active string | Locked string

record session_manager =
  inner :: "active_session option"
  claim :: "string option"
  generation :: u64
  idle_logout :: nat

definition manager_new :: "nat \<Rightarrow> session_manager" where
  "manager_new idle = \<lparr>inner = None, claim = None, generation = 0, idle_logout = idle\<rparr>"

text \<open>\<open>state\<close>: the claim slot first, then the session slot.\<close>

definition state_claim :: "session_manager \<Rightarrow> session_state option" where
  "state_claim m = map_option Claimed (claim m)"

definition state_inner :: "session_manager \<Rightarrow> session_state" where
  "state_inner m =
     (case inner m of
        None \<Rightarrow> Free
      | Some s \<Rightarrow> if locked_since s \<noteq> None then Locked (ou_name (as_user s))
                  else Active (ou_name (as_user s)))"

definition session_state_of :: "session_manager \<Rightarrow> session_state" where
  "session_state_of m = (case state_claim m of Some st \<Rightarrow> st | None \<Rightarrow> state_inner m)"

text \<open>\<open>try_claim\<close>: the session slot must be empty, then the claim slot.\<close>

definition claim_inner :: "session_manager \<Rightarrow> bool" where
  "claim_inner m = (inner m = None)"

definition claim_slot :: "string \<Rightarrow> session_manager \<Rightarrow> bool \<times> session_manager" where
  "claim_slot user m =
     (if claim m \<noteq> None then (False, m) else (True, m\<lparr>claim := Some user\<rparr>))"

definition try_claim :: "string \<Rightarrow> session_manager \<Rightarrow> bool \<times> session_manager" where
  "try_claim user m = (if \<not> claim_inner m then (False, m) else claim_slot user m)"

definition claim_drop :: "session_manager \<Rightarrow> session_manager" where
  "claim_drop m = m\<lparr>claim := None\<rparr>"

text \<open>\<open>open\<close>: clear the claim, then install the session.\<close>

definition open_clear :: "session_manager \<Rightarrow> session_manager" where
  "open_clear m = m\<lparr>claim := None\<rparr>"

definition open_install :: "os_user \<Rightarrow> nat \<Rightarrow> session_manager \<Rightarrow> session_manager" where
  "open_install user guard m =
     m\<lparr>inner := Some \<lparr>as_user = user, pam_guard = Some guard, locked_since = None\<rparr>\<rparr>"

definition session_open :: "os_user \<Rightarrow> nat \<Rightarrow> session_manager \<Rightarrow> session_manager" where
  "session_open user guard m = open_install user guard (open_clear m)"

definition try_attach :: "string \<Rightarrow> session_manager \<Rightarrow> bool \<times> session_manager" where
  "try_attach user m =
     (case inner m of
        Some s \<Rightarrow>
          if locked_since s \<noteq> None \<and> ou_name (as_user s) = user
          then (True, m\<lparr>inner := Some (s\<lparr>locked_since := None\<rparr>), generation := generation m + 1\<rparr>)
          else (False, m)
      | None \<Rightarrow> (False, m))"

definition session_lock :: "nat \<Rightarrow> session_manager \<Rightarrow> string option \<times> session_manager" where
  "session_lock now m =
     (case inner m of
        Some s \<Rightarrow>
          (Some (ou_name (as_user s)),
           m\<lparr>inner := Some (s\<lparr>locked_since := Some now\<rparr>), generation := generation m + 1\<rparr>)
      | None \<Rightarrow> (None, m))"

definition session_take :: "session_manager \<Rightarrow> active_session option \<times> session_manager" where
  "session_take m = (inner m, m\<lparr>inner := None, generation := generation m + 1\<rparr>)"

text \<open>\<open>schedule_idle_logout\<close>: the generation the timer captures, \<open>None\<close> when idle logout is
  disabled, and the test the timer makes when it expires.\<close>

definition schedule_idle_logout :: "session_manager \<Rightarrow> u64 option" where
  "schedule_idle_logout m = (if idle_logout m = 0 then None else Some (generation m))"

definition idle_timer_fires :: "u64 \<Rightarrow> session_manager \<Rightarrow> bool" where
  "idle_timer_fires captured m \<longleftrightarrow>
     generation m = captured \<and> (case session_state_of m of Locked _ \<Rightarrow> True | _ \<Rightarrow> False)"

text \<open>Calls on the registry and what they answer.\<close>

datatype session_call =
    CallState
  | CallTryClaim string
  | CallDropClaim
  | CallOpen os_user nat
  | CallAttach string
  | CallLock nat
  | CallTake

datatype session_answer =
    AnsState session_state
  | AnsBool bool
  | AnsUser "string option"
  | AnsUnit

fun session_step :: "session_call \<Rightarrow> session_manager \<Rightarrow> session_answer \<times> session_manager" where
  "session_step CallState m = (AnsState (session_state_of m), m)"
| "session_step (CallTryClaim u) m = map_prod AnsBool id (try_claim u m)"
| "session_step CallDropClaim m = (AnsUnit, claim_drop m)"
| "session_step (CallOpen u g) m = (AnsUnit, session_open u g m)"
| "session_step (CallAttach u) m = map_prod AnsBool id (try_attach u m)"
| "session_step (CallLock now) m = map_prod AnsUser id (session_lock now m)"
| "session_step CallTake m =
     map_prod (\<lambda>s. AnsUser (map_option (ou_name \<circ> as_user) s)) id (session_take m)"

text \<open>The documented life cycle of the slot, as a machine on \<open>session_state\<close> alone: free,
  claimed while a fresh login runs, active, locked, and back to active for the same user only.\<close>

fun slot_step :: "session_call \<Rightarrow> session_state \<Rightarrow> session_answer \<times> session_state" where
  "slot_step CallState st = (AnsState st, st)"
| "slot_step (CallTryClaim u) Free = (AnsBool True, Claimed u)"
| "slot_step (CallTryClaim u) st = (AnsBool False, st)"
| "slot_step CallDropClaim (Claimed u) = (AnsUnit, Free)"
| "slot_step CallDropClaim st = (AnsUnit, st)"
| "slot_step (CallOpen u g) st = (AnsUnit, Active (ou_name u))"
| "slot_step (CallAttach u) (Locked v) = (if u = v then (AnsBool True, Active v)
                                          else (AnsBool False, Locked v))"
| "slot_step (CallAttach u) st = (AnsBool False, st)"
| "slot_step (CallLock now) (Active u) = (AnsUser (Some u), Locked u)"
| "slot_step (CallLock now) (Locked u) = (AnsUser (Some u), Locked u)"
| "slot_step (CallLock now) st = (AnsUser None, st)"
| "slot_step CallTake (Active u) = (AnsUser (Some u), Free)"
| "slot_step CallTake (Locked u) = (AnsUser (Some u), Free)"
| "slot_step CallTake st = (AnsUser None, st)"

text \<open>A claim and a session never coexist.\<close>

definition slot_inv :: "session_manager \<Rightarrow> bool" where
  "slot_inv m \<longleftrightarrow> claim m = None \<or> inner m = None"

definition is_locked :: "session_manager \<Rightarrow> bool" where
  "is_locked m \<longleftrightarrow> (\<exists>s. inner m = Some s \<and> locked_since s \<noteq> None)"

lemmas session_defs =
  session_state_of_def state_claim_def state_inner_def try_claim_def claim_inner_def claim_slot_def
  claim_drop_def session_open_def open_clear_def open_install_def try_attach_def session_lock_def
  session_take_def

subsection \<open>The registry implements the life cycle\<close>

interpretation slot: refinement session_step slot_inv slot_step session_state_of
proof unfold_locales
  fix m i
  assume inv: "slot_inv m"
  show "slot_inv (snd (session_step i m))"
    using inv by (cases i) (auto simp: slot_inv_def session_defs split: option.splits)
  show "slot_step i (session_state_of m)
      = (fst (session_step i m), session_state_of (snd (session_step i m)))"
    using inv
    by (cases i; cases "claim m"; cases "inner m") (auto simp: slot_inv_def session_defs)
qed

lemma slot_inv_new: "slot_inv (manager_new idle)"
  by (simp add: slot_inv_def manager_new_def)

lemma state_new: "session_state_of (manager_new idle) = Free"
  by (simp add: session_defs manager_new_def)

text \<open>C2: As long as its methods run one after the other, the registry answers every sequence of
  calls as the documented life cycle does: a fresh login claims only a free slot, a locked session
  is re-attached by its own user only, and a logout frees the slot.\<close>

theorem session_registry_refines:
  "fst (run session_step calls (manager_new idle)) = fst (run slot_step calls Free)
   \<and> session_state_of (snd (run session_step calls (manager_new idle)))
       = snd (run slot_step calls Free)"
  using slot.run_refines [OF slot_inv_new, of calls idle] by (simp add: state_new)

subsection \<open>The idle timer\<close>

lemma session_step_generation:
  "generation (snd (session_step c m)) = generation m
     \<and> (is_locked (snd (session_step c m)) \<longrightarrow> is_locked m)
   \<or> generation (snd (session_step c m)) = generation m + 1"
  by (cases c) (auto simp: session_defs is_locked_def split: option.splits)

lemma session_run_generation:
  "\<exists>k \<le> length calls. generation (snd (run session_step calls m)) = generation m + word_of_nat k
     \<and> (k = 0 \<longrightarrow> is_locked (snd (run session_step calls m)) \<longrightarrow> is_locked m)"
proof (induction calls arbitrary: m)
  case Nil
  show ?case by simp
next
  case (Cons c calls)
  let ?m = "snd (session_step c m)"
  obtain k where k: "k \<le> length calls"
    "generation (snd (run session_step calls ?m)) = generation ?m + word_of_nat k"
    "k = 0 \<longrightarrow> is_locked (snd (run session_step calls ?m)) \<longrightarrow> is_locked ?m"
    using Cons.IH by blast
  from session_step_generation [of c m] show ?case
  proof
    assume "generation ?m = generation m \<and> (is_locked ?m \<longrightarrow> is_locked m)"
    with k show ?thesis by (intro exI [of _ k]) auto
  next
    assume "generation ?m = generation m + 1"
    with k show ?thesis by (intro exI [of _ "Suc k"]) auto
  qed
qed

lemma state_Locked_iff:
  "(\<exists>u. session_state_of m = Locked u) \<longleftrightarrow> claim m = None \<and> is_locked m"
  by (auto simp: session_defs is_locked_def split: option.splits)

lemma idle_timer_fires_iff:
  "idle_timer_fires g m \<longleftrightarrow> generation m = g \<and> claim m = None \<and> is_locked m"
  unfolding idle_timer_fires_def state_Locked_iff [symmetric] by (auto split: session_state.splits)

text \<open>C8: The idle timer captures the generation before the session is locked, and locking advances
  the generation, so a timer started while the session is attached never fires: whatever calls
  follow (fewer than \<open>2 ^ 64\<close> of them), its test fails.  A timer that captured the generation
  after the lock would fire.\<close>

theorem idle_logout_never_fires:
  assumes "\<not> is_locked m" "schedule_idle_logout m = Some g" "length calls < 2 ^ 64"
  shows "\<not> idle_timer_fires g (snd (run session_step calls m))
    \<and> (inner m \<noteq> None \<longrightarrow> claim m = None \<longrightarrow>
        (let m' = snd (session_lock now m) in idle_timer_fires (generation m') m'))"
proof
  have g: "g = generation m" using assms(2) by (simp add: schedule_idle_logout_def split: if_splits)
  obtain k where k: "k \<le> length calls"
    "generation (snd (run session_step calls m)) = generation m + word_of_nat k"
    "k = 0 \<longrightarrow> is_locked (snd (run session_step calls m)) \<longrightarrow> is_locked m"
    using session_run_generation by blast
  show "\<not> idle_timer_fires g (snd (run session_step calls m))"
  proof
    assume "idle_timer_fires g (snd (run session_step calls m))"
    then have f: "generation (snd (run session_step calls m)) = generation m"
      "is_locked (snd (run session_step calls m))" by (simp_all add: idle_timer_fires_iff g)
    with k assms(1) have "k \<noteq> 0" "word_of_nat k = (0 :: u64)" by auto
    moreover have "k < 2 ^ 64" using k(1) assms(3) by simp
    ultimately show False by (simp add: word_of_nat_eq_0_iff nat_dvd_not_less)
  qed
  show "inner m \<noteq> None \<longrightarrow> claim m = None \<longrightarrow>
      (let m' = snd (session_lock now m) in idle_timer_fires (generation m') m')"
    by (auto simp: idle_timer_fires_iff session_lock_def is_locked_def)
qed

text \<open>The order of the connection handler: schedule the timer of an attached session, lock it, and
  let the timer expire.\<close>

theorem idle_logout_never_fires_witness:
  "let user = \<lparr>ou_name = ''bryce'', ou_uid = 2101, ou_gid = 8001, ou_home = ''/home/bryce'',
               ou_shell = ''/bin/bash''\<rparr>;
       m = session_open user 7 (manager_new 60)
   in session_state_of (snd (run session_step [CallLock 5] m)) = Locked ''bryce''
      \<and> \<not> idle_timer_fires 0 (snd (run session_step [CallLock 5] m))"
proof -
  define user :: os_user where "user = \<lparr>ou_name = ''bryce'', ou_uid = 2101, ou_gid = 8001,
    ou_home = ''/home/bryce'', ou_shell = ''/bin/bash''\<rparr>"
  define m where "m = session_open user 7 (manager_new 60)"
  have "\<not> is_locked m" "schedule_idle_logout m = Some 0"
    by (simp_all add: m_def session_defs manager_new_def is_locked_def schedule_idle_logout_def)
  then have "\<not> idle_timer_fires 0 (snd (run session_step [CallLock 5] m))"
    by (rule idle_logout_never_fires [THEN conjunct1]) simp
  moreover have "session_state_of (snd (run session_step [CallLock 5] m)) = Locked ''bryce''"
    by (simp add: m_def user_def session_defs manager_new_def)
  ultimately show ?thesis by (simp add: m_def user_def Let_def)
qed

end
