(* ===== verification/Host_Login.thy ===== *)
theory Host_Login
  imports Host_Helpers Host_Rate Host_Session
begin

text \<open>
  The connection handler of the host daemon (\<open>handle_connection\<close> in
  \<open>flux-hostd/src/main.rs\<close>).  A connection is a machine with a program counter; one step runs up to
  the next critical section on shared state or the next interaction with the outside, so that every
  interleaving of connections the daemon can show is a sequence of steps.  The outside (failing
  writes, PAM, the account database, the agent) chooses the \<open>env\<close> argument of a step; the
  bytes the relay will send are the connection's input stream.
\<close>

subsection \<open>Connections and shared state\<close>

definition USERNAME_PROMPT :: string where "USERNAME_PROMPT = ''Username''"
definition MAX_LOGIN_FAILURES :: nat where "MAX_LOGIN_FAILURES = 3"
definition LOGIN_COOLDOWN :: nat where "LOGIN_COOLDOWN = 10 * 1000"

text \<open>The fields of \<open>RuntimeStatus\<close> the daemon writes.\<close>

record runtime_status =
  login_state :: string
  logged_in_user :: "string option"
  encoder_backend :: "string option"
  display_name :: "string option"
  encode_width :: u32
  encode_height :: u32
  captured_virtual_display :: "bool option"

text \<open>Logout tasks: an idle timer waiting with the generation it captured, a task about to take the
  session out of the registry, and one that took it and is about to reset the status.\<close>

datatype logout_task = TimerWaiting u64 | LogoutTake | LogoutReset

record shared =
  manager :: session_manager
  limits :: limiter
  status :: runtime_status
  tasks :: "logout_task list"
  relay_token :: "byte list option"

definition update_login_status :: "session_manager \<Rightarrow> runtime_status \<Rightarrow> runtime_status" where
  "update_login_status m s =
     (case session_state_of m of
        Active user \<Rightarrow> s\<lparr>login_state := ''active'', logged_in_user := Some user\<rparr>
      | Locked user \<Rightarrow> s\<lparr>login_state := ''locked'', logged_in_user := Some user\<rparr>
      | _ \<Rightarrow> s\<lparr>login_state := ''idle'', logged_in_user := None\<rparr>)"

text \<open>Where control goes once a scope that may own the claim is left.\<close>

datatype scope_exit =
    ToPrompt
  | ToPanic
  | ToReturn "io_error + unit"
  | ToProxyEnd "io_error + proxy_end"

datatype pc =
    PcCooldown
  | PcHello
  | PcPrompt
  | PcReadName
  | PcInvalid
  | PcStateClaim string
  | PcStateInner string
  | PcClaimInner string
  | PcClaimSlot string
  | PcBusyClaim string
  | PcBusyInner string
  | PcSendBusy string
  | PcPamStart string bool
  | PcPamWait string bool "pam_event list"
  | PcPamPrompt string bool prompt_style string "pam_event list"
  | PcPamReply string bool "pam_event list"
  | PcPamFailed string string
  | PcRecordFailure
  | PcRecordSuccess string bool pam_outcome
  | PcAttach string
  | PcAttachStatus string
  | PcLookupFresh string pam_outcome
  | PcNoAccount string
  | PcLookupAttached string
  | PcStartSession os_user pam_outcome
  | PcStartFailed os_user string
  | PcOpenClear os_user pam_outcome
  | PcOpenInstall os_user pam_outcome
  | PcOpenStatus os_user
  | PcSendOk login_frame
  | PcConnect
  | PcProxy
  | PcUnwind scope_exit
  | PcProxyEnd "io_error + proxy_end"
  | PcLock proxy_end
  | PcLockStatus proxy_end
  | PcDone "io_error + unit"
  | PcPanicked

text \<open>What a connection has done, as an observer sees it.\<close>

datatype conn_event =
    EvHello
  | EvSent login_frame
  | EvPamStart string bool pam_script
  | EvPamOk pam_outcome
  | EvLookup string "os_user option"
  | EvForward "byte list"
  | EvProxyEnd

record conn =
  pc :: pc
  peer :: ip_addr
  rd :: stream
  holds_claim :: bool
  events :: "conn_event list"

datatype env =
    Proceed
  | WriteFails io_error
  | HelloTimeout
  | PamRuns pam_script
  | PamTaskFails
  | PamWorkerGone
  | LookupGives "io_error + os_user option"
  | SessionStarts "string + unit"
  | AgentRefuses io_error
  | AgentEnds
  | AgentWriteFails io_error

definition goto :: "pc \<Rightarrow> conn \<Rightarrow> conn" where
  "goto p c = c\<lparr>pc := p\<rparr>"

definition observe :: "conn_event \<Rightarrow> conn \<Rightarrow> conn" where
  "observe e c = c\<lparr>events := events c @ [e]\<rparr>"

text \<open>\<open>write_login_frame(..).await?\<close>: go on when the write succeeds, leave the handler with its
  error when it fails.\<close>

definition send_frame :: "env \<Rightarrow> login_frame \<Rightarrow> pc \<Rightarrow> conn \<Rightarrow> conn option" where
  "send_frame ev frame next c =
     (case ev of
        Proceed \<Rightarrow> Some (goto next (observe (EvSent frame) c))
      | WriteFails e \<Rightarrow> Some (goto (PcUnwind (ToReturn (Err e))) c)
      | _ \<Rightarrow> None)"

text \<open>The relay token check on the first command.\<close>

definition hello_ok :: "byte list \<Rightarrow> io_error + (raw_command option \<times> stream) \<Rightarrow> bool" where
  "hello_ok token hello =
     (case hello of
        Inr (Some cmd, _) \<Rightarrow> rc_ty cmd = CMD_HELLO \<and> length (rc_bytes cmd) = 5 + length token
          \<and> timing_safe_eq (drop 5 (rc_bytes cmd)) token
      | _ \<Rightarrow> False)"

definition busy_user :: "string \<Rightarrow> session_state \<Rightarrow> string" where
  "busy_user username st =
     (case st of Claimed u \<Rightarrow> u | Active u \<Rightarrow> u | Locked u \<Rightarrow> u | Free \<Rightarrow> username)"

text \<open>The \<open>match shared.manager.state()\<close> that picks the login mode.\<close>

definition login_mode :: "string \<Rightarrow> session_state \<Rightarrow> pc" where
  "login_mode username st =
     (case st of
        Free \<Rightarrow> PcClaimInner username
      | Claimed u \<Rightarrow> PcSendBusy u
      | Active u \<Rightarrow> PcSendBusy u
      | Locked u \<Rightarrow> if u = username then PcPamStart username False else PcSendBusy u)"

definition leave :: "io_error + unit \<Rightarrow> conn \<Rightarrow> conn" where
  "leave r c = goto (PcUnwind (ToReturn r)) c"

definition ok_frame :: "string \<Rightarrow> os_user option \<Rightarrow> login_frame" where
  "ok_frame user os =
     LoginOk user
       (case os of Some u \<Rightarrow> ou_uid u | None \<Rightarrow> 0)
       (case os of Some u \<Rightarrow> ou_gid u | None \<Rightarrow> 0)
       (case os of Some u \<Rightarrow> ou_home u | None \<Rightarrow> [])
       True"

text \<open>\<open>drive_pam\<close>: what the next event of the PAM worker leads to; the channel closes after the
  worker's last event.\<close>

definition needs_reply :: "prompt_style \<Rightarrow> bool" where
  "needs_reply style \<longleftrightarrow> style = EchoOn \<or> style = EchoOff"

definition drive_pam :: "string \<Rightarrow> bool \<Rightarrow> pam_event list \<Rightarrow> conn \<Rightarrow> conn" where
  "drive_pam username fresh evs c =
     (case evs of
        [] \<Rightarrow> goto (PcPamFailed username ''login service unavailable'') c
      | PamPrompt style message # evs' \<Rightarrow> goto (PcPamPrompt username fresh style message evs') c
      | PamOk outcome # evs' \<Rightarrow>
          goto (PcRecordSuccess username fresh outcome) (observe (EvPamOk outcome) c)
      | PamFailed message # evs' \<Rightarrow> goto (PcPamFailed username message) c)"

fun step_at ::
  "(byte list \<Rightarrow> string option) \<Rightarrow> nat \<Rightarrow> env \<Rightarrow> pc \<Rightarrow> conn \<Rightarrow> shared \<Rightarrow> (conn \<times> shared) option"
where
  "step_at fs now ev PcCooldown c sh =
     Some (if is_blocked now (peer c) (limits sh) then c else goto PcHello c, sh)"
| "step_at fs now ev PcHello c sh =
     (case relay_token sh of
        None \<Rightarrow> Some (goto PcPrompt c, sh)
      | Some token \<Rightarrow>
          let hello = read_raw_command (rd c)
          in if ev \<noteq> HelloTimeout \<and> hello_ok token hello
             then Some (goto PcPrompt (observe EvHello (c\<lparr>rd := snd (projr hello)\<rparr>)), sh)
             else Some (leave (Ok ()) c, sh))"
| "step_at fs now ev PcPrompt c sh =
     map_option (\<lambda>c. (c, sh)) (send_frame ev (LoginPrompt EchoOn USERNAME_PROMPT) PcReadName c)"
| "step_at fs now ev PcReadName c sh =
     (case read_response fs (rd c) of
        Inl e \<Rightarrow> Some (leave (Err e) c, sh)
      | Inr (None, s) \<Rightarrow> Some (leave (Ok ()) (c\<lparr>rd := s\<rparr>), sh)
      | Inr (Some name, s) \<Rightarrow>
          (case sanitize_username name of
             None \<Rightarrow> Some (goto PcInvalid (c\<lparr>rd := s\<rparr>), sh)
           | Some username \<Rightarrow> Some (goto (PcStateClaim username) (c\<lparr>rd := s\<rparr>), sh)))"
| "step_at fs now ev PcInvalid c sh =
     map_option (\<lambda>c. (c, sh))
       (send_frame ev (LoginFailed ''invalid username'' None) (PcUnwind ToPrompt) c)"
| "step_at fs now ev (PcStateClaim username) c sh =
     (case state_claim (manager sh) of
        Some st \<Rightarrow> Some (goto (login_mode username st) c, sh)
      | None \<Rightarrow> Some (goto (PcStateInner username) c, sh))"
| "step_at fs now ev (PcStateInner username) c sh =
     Some (goto (login_mode username (state_inner (manager sh))) c, sh)"
| "step_at fs now ev (PcClaimInner username) c sh =
     Some (goto (if claim_inner (manager sh) then PcClaimSlot username else PcBusyClaim username) c,
           sh)"
| "step_at fs now ev (PcClaimSlot username) c sh =
     (case claim_slot username (manager sh) of
        (True, m) \<Rightarrow> Some (goto (PcPamStart username True) (c\<lparr>holds_claim := True\<rparr>),
                          sh\<lparr>manager := m\<rparr>)
      | (False, m) \<Rightarrow> Some (goto (PcBusyClaim username) c, sh))"
| "step_at fs now ev (PcBusyClaim username) c sh =
     (case state_claim (manager sh) of
        Some st \<Rightarrow> Some (goto (PcSendBusy (busy_user username st)) c, sh)
      | None \<Rightarrow> Some (goto (PcBusyInner username) c, sh))"
| "step_at fs now ev (PcBusyInner username) c sh =
     Some (goto (PcSendBusy (busy_user username (state_inner (manager sh)))) c, sh)"
| "step_at fs now ev (PcSendBusy user) c sh =
     map_option (\<lambda>c. (c, sh)) (send_frame ev (LoginBusy user) (PcUnwind (ToReturn (Ok ()))) c)"
| "step_at fs now ev (PcPamStart username fresh) c sh =
     (case ev of
        PamRuns p \<Rightarrow> Some (goto (PcPamWait username fresh (pam_worker username fresh p))
                            (observe (EvPamStart username fresh p) c), sh)
      | _ \<Rightarrow> None)"
| "step_at fs now ev (PcPamWait username fresh evs) c sh =
     Some (if ev = PamTaskFails then leave (Err (OtherIo 0)) c else drive_pam username fresh evs c, sh)"
| "step_at fs now ev (PcPamPrompt username fresh style message evs) c sh =
     map_option (\<lambda>c. (c, sh))
       (send_frame ev (LoginPrompt style message)
          (if needs_reply style then PcPamReply username fresh evs
           else PcPamWait username fresh evs) c)"
| "step_at fs now ev (PcPamReply username fresh evs) c sh =
     (case read_response fs (rd c) of
        Inl e \<Rightarrow> Some (leave (Err e) c, sh)
      | Inr (None, s) \<Rightarrow> Some (leave (Err UnexpectedEof) (c\<lparr>rd := s\<rparr>), sh)
      | Inr (Some resp, s) \<Rightarrow>
          Some (goto (if ev = PamWorkerGone then PcRecordFailure else PcPamWait username fresh evs)
                  (c\<lparr>rd := s\<rparr>), sh))"
| "step_at fs now ev (PcPamFailed username message) c sh =
     map_option (\<lambda>c. (c, sh))
       (send_frame ev (LoginFailed message (Some username)) PcRecordFailure c)"
| "step_at fs now ev PcRecordFailure c sh =
     (case record_failure now (peer c) (limits sh) of
        (tripped, l) \<Rightarrow>
          Some (goto (PcUnwind (if tripped then ToReturn (Ok ()) else ToPrompt)) c,
                sh\<lparr>limits := l\<rparr>))"
| "step_at fs now ev (PcRecordSuccess username fresh outcome) c sh =
     Some (goto (if fresh then PcLookupFresh username outcome else PcAttach username) c,
           sh\<lparr>limits := record_success (peer c) (limits sh)\<rparr>)"
| "step_at fs now ev (PcAttach username) c sh =
     (case try_attach username (manager sh) of
        (True, m) \<Rightarrow> Some (goto (PcAttachStatus username) c, sh\<lparr>manager := m\<rparr>)
      | (False, m) \<Rightarrow> Some (goto (PcBusyClaim username) c, sh))"
| "step_at fs now ev (PcAttachStatus username) c sh =
     Some (goto (PcLookupAttached username) c, sh\<lparr>status := update_login_status (manager sh) (status sh)\<rparr>)"
| "step_at fs now ev (PcLookupFresh username outcome) c sh =
     (case ev of
        LookupGives (Inl e) \<Rightarrow> Some (leave (Err e) c, sh)
      | LookupGives (Inr None) \<Rightarrow>
          Some (goto (PcNoAccount username) (observe (EvLookup (po_user outcome) None) c), sh)
      | LookupGives (Inr (Some user)) \<Rightarrow>
          Some (goto (if holds_claim c then PcStartSession user outcome else PcUnwind ToPanic)
                  (observe (EvLookup (po_user outcome) (Some user)) c), sh)
      | _ \<Rightarrow> None)"
| "step_at fs now ev (PcNoAccount username) c sh =
     map_option (\<lambda>c. (c, sh))
       (send_frame ev (LoginFailed ''no local account'' (Some username)) (PcUnwind ToPrompt) c)"
| "step_at fs now ev (PcLookupAttached username) c sh =
     (case ev of
        LookupGives (Inl e) \<Rightarrow> Some (leave (Err e) c, sh)
      | LookupGives (Inr os) \<Rightarrow> Some (goto (PcSendOk (ok_frame username os)) c, sh)
      | _ \<Rightarrow> None)"
| "step_at fs now ev (PcStartSession user outcome) c sh =
     (case ev of
        SessionStarts (Inl e) \<Rightarrow> Some (goto (PcStartFailed user e) c, sh)
      | SessionStarts (Inr _) \<Rightarrow> Some (goto (PcOpenClear user outcome) c, sh)
      | _ \<Rightarrow> None)"
| "step_at fs now ev (PcStartFailed user e) c sh =
     map_option (\<lambda>c. (c, sh))
       (send_frame ev (LoginFailed (''session start failed: '' @ e) (Some (ou_name user)))
          (PcUnwind (ToReturn (Ok ()))) c)"
| "step_at fs now ev (PcOpenClear user outcome) c sh =
     (case po_session outcome of
        None \<Rightarrow> Some (goto (PcUnwind ToPanic) c, sh)
      | Some _ \<Rightarrow> Some (goto (PcOpenInstall user outcome) c,
                       sh\<lparr>manager := open_clear (manager sh)\<rparr>))"
| "step_at fs now ev (PcOpenInstall user outcome) c sh =
     Some (goto (PcOpenStatus user) c,
           sh\<lparr>manager := open_install user (the (po_session outcome)) (manager sh)\<rparr>)"
| "step_at fs now ev (PcOpenStatus user) c sh =
     Some (goto (PcSendOk (LoginOk (ou_name user) (ou_uid user) (ou_gid user) (ou_home user) False)) c,
           sh\<lparr>status := update_login_status (manager sh) (status sh)\<rparr>)"
| "step_at fs now ev (PcSendOk frame) c sh =
     map_option (\<lambda>c. (c, sh)) (send_frame ev frame PcConnect c)"
| "step_at fs now ev PcConnect c sh =
     (case ev of
        AgentRefuses e \<Rightarrow> Some (goto (PcUnwind (ToProxyEnd (Err e))) c, sh)
      | Proceed \<Rightarrow> Some (goto PcProxy c, sh)
      | _ \<Rightarrow> None)"
| "step_at fs now ev PcProxy c sh =
     (if ev = AgentEnds then Some (goto (PcUnwind (ToProxyEnd (Ok ProxyDisconnected))) c, sh)
      else case read_raw_command (rd c) of
        Inl e \<Rightarrow> Some (goto (PcUnwind (ToProxyEnd (Err e))) c, sh)
      | Inr (None, s) \<Rightarrow>
          Some (goto (PcUnwind (ToProxyEnd (Ok ProxyDisconnected))) (c\<lparr>rd := s\<rparr>), sh)
      | Inr (Some cmd, s) \<Rightarrow>
          if rc_ty cmd = CMD_LOCK
          then Some (goto (PcUnwind (ToProxyEnd (Ok ProxyLocked))) (c\<lparr>rd := s\<rparr>), sh)
          else (case ev of
                  AgentWriteFails e \<Rightarrow>
                    Some (goto (PcUnwind (ToProxyEnd (Err e))) (c\<lparr>rd := s\<rparr>), sh)
                | _ \<Rightarrow> Some (observe (EvForward (rc_bytes cmd)) (c\<lparr>rd := s\<rparr>), sh)))"
| "step_at fs now ev (PcUnwind x) c sh =
     Some (goto (case x of
                   ToPrompt \<Rightarrow> PcPrompt
                 | ToPanic \<Rightarrow> PcPanicked
                 | ToReturn r \<Rightarrow> PcDone r
                 | ToProxyEnd r \<Rightarrow> PcProxyEnd r) (c\<lparr>holds_claim := False\<rparr>),
           if holds_claim c then sh\<lparr>manager := claim_drop (manager sh)\<rparr> else sh)"
| "step_at fs now ev (PcProxyEnd r) c sh =
     (case r of
        Inl e \<Rightarrow> Some (goto (PcDone (Err e)) (observe EvProxyEnd c),
                       sh\<lparr>manager := snd (session_lock now (manager sh))\<rparr>)
      | Inr stop \<Rightarrow> Some (goto (PcLock stop) (observe EvProxyEnd c),
          sh\<lparr>tasks := tasks sh @ (case schedule_idle_logout (manager sh) of
                                      None \<Rightarrow> []
                                    | Some g \<Rightarrow> [TimerWaiting g])\<rparr>))"
| "step_at fs now ev (PcLock stop) c sh =
     Some (goto (PcLockStatus stop) c, sh\<lparr>manager := snd (session_lock now (manager sh))\<rparr>)"
| "step_at fs now ev (PcLockStatus stop) c sh =
     Some (goto (case stop of ProxyDisconnected \<Rightarrow> PcDone (Ok ()) | ProxyLocked \<Rightarrow> PcPrompt) c,
           sh\<lparr>status := update_login_status (manager sh) (status sh)\<rparr>)"
| "step_at fs now ev (PcDone r) c sh = None"
| "step_at fs now ev PcPanicked c sh = None"

definition conn_step ::
  "(byte list \<Rightarrow> string option) \<Rightarrow> nat \<Rightarrow> env \<Rightarrow> conn \<Rightarrow> shared \<Rightarrow> (conn \<times> shared) option" where
  "conn_step fs now ev c sh = step_at fs now ev (pc c) c sh"

end
