(* ===== verification/Host_System.thy ===== *)
theory Host_System
  imports Host_Login
begin

text \<open>
  The host daemon as a whole: connections accepted by \<open>accept_loop\<close>, each running the
  machine of \<open>Host_Login\<close>, idle-logout timers and logouts, interleaved arbitrarily over the
  shared state.  The theorems are about every reachable state: what a relay peer can observe
  follows an authentication protocol, and concrete schedules show two defects of the handler.
\<close>

subsection \<open>Definitions\<close>

definition DEFAULT_FRAME_PORT :: u16 where "DEFAULT_FRAME_PORT = 8556"
definition AGENT_PORT :: u16 where "AGENT_PORT = 8557"

text \<open>\<open>IpAddr::is_loopback\<close>: 127.0.0.0/8 or ::1.\<close>

fun is_loopback :: "ip_addr \<Rightarrow> bool" where
  "is_loopback (V4 a) \<longleftrightarrow> drop_bit 24 a = 127"
| "is_loopback (V6 a) \<longleftrightarrow> a = 1"

definition accepts_plaintext :: "bool \<Rightarrow> ip_addr \<Rightarrow> bool" where
  "accepts_plaintext allow_plaintext ip \<longleftrightarrow> is_loopback ip \<or> allow_plaintext"

definition new_conn :: "ip_addr \<Rightarrow> stream \<Rightarrow> conn" where
  "new_conn p s = \<lparr>pc = PcCooldown, peer = p, rd = s, holds_claim = False, events = []\<rparr>"

text \<open>\<open>logout_current\<close>: take the session, and when there was one reset the status after its
  target is stopped and its PAM session closed.\<close>

definition logout_take :: "session_manager \<Rightarrow> session_manager \<times> logout_task list" where
  "logout_take m =
     (case session_take m of
        (Some _, m') \<Rightarrow> (m', [LogoutReset])
      | (None, m') \<Rightarrow> (m', []))"

definition logout_reset :: "runtime_status \<Rightarrow> runtime_status" where
  "logout_reset s =
     s\<lparr>encoder_backend := None, display_name := None, encode_width := 0, encode_height := 0,
       captured_virtual_display := None, login_state := ''idle'', logged_in_user := None\<rparr>"

text \<open>\<open>spawn_agent_watcher\<close>: it lives while its user's session does, and copies the agent's
  report (parsed from a status file) into the status.\<close>

record agent_report =
  ar_backend :: "string option"
  ar_display :: "string option"
  ar_width :: "u64 option"
  ar_height :: "u64 option"
  ar_virtual :: "bool option"

definition watcher_continues :: "string \<Rightarrow> session_state \<Rightarrow> bool" where
  "watcher_continues user st =
     (case st of Active u \<Rightarrow> u = user | Locked u \<Rightarrow> u = user | _ \<Rightarrow> False)"

definition agent_report_apply :: "agent_report \<Rightarrow> runtime_status \<Rightarrow> runtime_status" where
  "agent_report_apply v s =
     (let s = (case ar_backend v of Some b \<Rightarrow> s\<lparr>encoder_backend := Some b\<rparr> | None \<Rightarrow> s);
          s = s\<lparr>display_name := ar_display v\<rparr>;
          s = (case ar_width v of Some w \<Rightarrow> s\<lparr>encode_width := ucast w\<rparr> | None \<Rightarrow> s);
          s = (case ar_height v of Some h \<Rightarrow> s\<lparr>encode_height := ucast h\<rparr> | None \<Rightarrow> s)
      in s\<lparr>captured_virtual_display := ar_virtual v\<rparr>)"

record host_system =
  conns :: "nat \<Rightarrow> conn option"
  global :: shared

definition system_init :: "byte list option \<Rightarrow> nat \<Rightarrow> host_system" where
  "system_init token idle =
     \<lparr>conns = (\<lambda>_. None),
      global = \<lparr>manager = manager_new idle,
                limits = limiter_new MAX_LOGIN_FAILURES LOGIN_COOLDOWN,
                status = \<lparr>login_state = ''idle'', logged_in_user = None,
                  encoder_backend = Some ''pending'', display_name = None, encode_width = 0,
                  encode_height = 0, captured_virtual_display = None\<rparr>,
                tasks = [], relay_token = token\<rparr>\<rparr>"

text \<open>One action of the daemon: accept a TCP connection or bridge a QUIC one, step one, let a logout task go on, begin the
  logout of a shutdown, or apply an agent report.\<close>

datatype action =
    Accept nat ip_addr stream
  | AcceptQuic nat ip_addr stream
  | Step nat nat env
  | TaskStep nat
  | Shutdown
  | AgentReport string agent_report

fun task_step :: "logout_task \<Rightarrow> shared \<Rightarrow> shared \<times> logout_task list" where
  "task_step (TimerWaiting g) sh = (sh, if idle_timer_fires g (manager sh) then [LogoutTake] else [])"
| "task_step LogoutTake sh = (case logout_take (manager sh) of (m, ts) \<Rightarrow> (sh\<lparr>manager := m\<rparr>, ts))"
| "task_step LogoutReset sh = (sh\<lparr>status := logout_reset (status sh)\<rparr>, [])"

fun system_step ::
  "(byte list \<Rightarrow> string option) \<Rightarrow> bool \<Rightarrow> action \<Rightarrow> host_system \<Rightarrow> host_system option" where
  "system_step fs plain (Accept i p s) sys =
     (if conns sys i = None \<and> accepts_plaintext plain p
      then Some (sys\<lparr>conns := (conns sys)(i := Some (new_conn p s))\<rparr>) else None)"
| "system_step fs plain (AcceptQuic i p s) sys =
     (if conns sys i = None
      then Some (sys\<lparr>conns := (conns sys)(i := Some (new_conn p s))\<rparr>) else None)"
| "system_step fs plain (Step i now ev) sys =
     (case conns sys i of
        None \<Rightarrow> None
      | Some c \<Rightarrow> map_option (\<lambda>(c', sh). sys\<lparr>conns := (conns sys)(i := Some c'), global := sh\<rparr>)
                   (conn_step fs now ev c (global sys)))"
| "system_step fs plain (TaskStep n) sys =
     (if n < length (tasks (global sys))
      then (case task_step (tasks (global sys) ! n) (global sys) of
              (sh, ts) \<Rightarrow> Some (sys\<lparr>global := sh\<lparr>tasks :=
                 take n (tasks (global sys)) @ ts @ drop (Suc n) (tasks (global sys))\<rparr>\<rparr>))
      else None)"
| "system_step fs plain Shutdown sys =
     Some (sys\<lparr>global := (global sys)\<lparr>tasks := tasks (global sys) @ [LogoutTake]\<rparr>\<rparr>)"
| "system_step fs plain (AgentReport user v) sys =
     (if watcher_continues user (session_state_of (manager (global sys)))
      then Some (sys\<lparr>global := (global sys)\<lparr>status := agent_report_apply v (status (global sys))\<rparr>\<rparr>)
      else None)"

inductive reachable ::
  "(byte list \<Rightarrow> string option) \<Rightarrow> bool \<Rightarrow> byte list option \<Rightarrow> nat \<Rightarrow> host_system \<Rightarrow> bool"
  for fs plain token idle where
  reach_init: "reachable fs plain token idle (system_init token idle)"
| reach_step: "reachable fs plain token idle sys \<Longrightarrow> system_step fs plain a sys = Some sys'
    \<Longrightarrow> reachable fs plain token idle sys'"

fun system_run ::
  "(byte list \<Rightarrow> string option) \<Rightarrow> bool \<Rightarrow> action list \<Rightarrow> host_system \<Rightarrow> host_system option" where
  "system_run fs plain [] sys = Some sys"
| "system_run fs plain (a # as) sys =
     (case system_step fs plain a sys of None \<Rightarrow> None | Some sys' \<Rightarrow> system_run fs plain as sys')"

lemma system_run_reachable:
  "reachable fs plain token idle sys \<Longrightarrow> system_run fs plain as sys = Some sys' \<Longrightarrow>
   reachable fs plain token idle sys'"
  by (induction "as" arbitrary: sys) (auto split: option.splits intro: reach_step)

subsection \<open>The authentication protocol\<close>

text \<open>What the observable events of a connection must look like, independently of the handler.\<close>

datatype auth =
    AuthHello
  | AuthIdle
  | AuthPam string bool pam_script
  | AuthOk string bool pam_outcome
  | AuthAccount os_user
  | AuthIn string

definition pam_accepts :: "string \<Rightarrow> bool \<Rightarrow> pam_script \<Rightarrow> pam_outcome \<Rightarrow> bool" where
  "pam_accepts username fresh p outcome \<longleftrightarrow>
     is_ok (pam_init p) \<and> is_ok (pam_auth p) \<and> is_ok (pam_acct p) \<and> (fresh \<longrightarrow> is_ok (pam_open p))
     \<and> po_user outcome = (case pam_user p of Some u \<Rightarrow> u | None \<Rightarrow> username)
     \<and> (fresh \<longleftrightarrow> po_session outcome \<noteq> None)"

fun is_login_ok :: "login_frame \<Rightarrow> bool" where
  "is_login_ok (LoginOk _ _ _ _ _) = True"
| "is_login_ok _ = False"

fun auth_next :: "auth \<Rightarrow> conn_event \<Rightarrow> auth option" where
  "auth_next AuthHello EvHello = Some AuthIdle"
| "auth_next AuthHello _ = None"
| "auth_next (AuthIn u) (EvForward bs) = Some (AuthIn u)"
| "auth_next (AuthIn u) EvProxyEnd = Some AuthIdle"
| "auth_next (AuthIn u) _ = None"
| "auth_next a (EvPamStart username fresh p) = Some (AuthPam username fresh p)"
| "auth_next (AuthPam username fresh p) (EvPamOk outcome) =
     (if pam_accepts username fresh p outcome then Some (AuthOk username fresh outcome) else None)"
| "auth_next (AuthOk username True outcome) (EvLookup name os) =
     (if name = po_user outcome
      then Some (case os of Some user \<Rightarrow> AuthAccount user | None \<Rightarrow> AuthIdle) else None)"
| "auth_next (AuthOk username False outcome) (EvSent (LoginOk u uid gid home True)) =
     (if u = username then Some (AuthIn u) else None)"
| "auth_next (AuthAccount user) (EvSent (LoginOk u uid gid home False)) =
     (if u = ou_name user \<and> uid = ou_uid user \<and> gid = ou_gid user \<and> home = ou_home user
      then Some (AuthIn u) else None)"
| "auth_next (AuthPam username fresh p) (EvSent frame) =
     (if is_login_ok frame then None else Some (AuthPam username fresh p))"
| "auth_next a (EvSent frame) = (if is_login_ok frame then None else Some AuthIdle)"
| "auth_next a _ = None"

fun auth_run :: "auth \<Rightarrow> conn_event list \<Rightarrow> auth option" where
  "auth_run a [] = Some a"
| "auth_run a (e # es) = (case auth_next a e of None \<Rightarrow> None | Some a' \<Rightarrow> auth_run a' es)"

definition auth_start :: "byte list option \<Rightarrow> auth" where
  "auth_start token = (case token of None \<Rightarrow> AuthIdle | Some _ \<Rightarrow> AuthHello)"

text \<open>How far the protocol has come at each point of the handler.\<close>

definition auth_open :: "auth \<Rightarrow> bool" where
  "auth_open a \<longleftrightarrow> a \<noteq> AuthHello \<and> (\<forall>u. a \<noteq> AuthIn u)"

fun pc_auth :: "auth \<Rightarrow> pc \<Rightarrow> auth \<Rightarrow> bool" where
  "pc_auth start PcCooldown a \<longleftrightarrow> a = start"
| "pc_auth start PcHello a \<longleftrightarrow> a = start"
| "pc_auth start (PcPamWait u fresh evs) a \<longleftrightarrow>
     (\<exists>p. a = AuthPam u fresh p \<and> set evs \<subseteq> set (pam_worker u fresh p))"
| "pc_auth start (PcPamPrompt u fresh style msg evs) a \<longleftrightarrow>
     (\<exists>p. a = AuthPam u fresh p \<and> set evs \<subseteq> set (pam_worker u fresh p))"
| "pc_auth start (PcPamReply u fresh evs) a \<longleftrightarrow>
     (\<exists>p. a = AuthPam u fresh p \<and> set evs \<subseteq> set (pam_worker u fresh p))"
| "pc_auth start (PcRecordSuccess u fresh outcome) a \<longleftrightarrow> a = AuthOk u fresh outcome"
| "pc_auth start (PcAttach u) a \<longleftrightarrow> (\<exists>outcome. a = AuthOk u False outcome)"
| "pc_auth start (PcAttachStatus u) a \<longleftrightarrow> (\<exists>outcome. a = AuthOk u False outcome)"
| "pc_auth start (PcLookupAttached u) a \<longleftrightarrow> (\<exists>outcome. a = AuthOk u False outcome)"
| "pc_auth start (PcLookupFresh u outcome) a \<longleftrightarrow> a = AuthOk u True outcome"
| "pc_auth start (PcStartSession user outcome) a \<longleftrightarrow> a = AuthAccount user"
| "pc_auth start (PcOpenClear user outcome) a \<longleftrightarrow> a = AuthAccount user"
| "pc_auth start (PcOpenInstall user outcome) a \<longleftrightarrow> a = AuthAccount user"
| "pc_auth start (PcOpenStatus user) a \<longleftrightarrow> a = AuthAccount user"
| "pc_auth start (PcSendOk frame) a \<longleftrightarrow>
     (\<exists>user. a = AuthAccount user
        \<and> frame = LoginOk (ou_name user) (ou_uid user) (ou_gid user) (ou_home user) False)
     \<or> (\<exists>u outcome os. a = AuthOk u False outcome \<and> frame = ok_frame u os)"
| "pc_auth start PcConnect a \<longleftrightarrow> (\<exists>u. a = AuthIn u)"
| "pc_auth start PcProxy a \<longleftrightarrow> (\<exists>u. a = AuthIn u)"
| "pc_auth start (PcUnwind (ToProxyEnd r)) a \<longleftrightarrow> (\<exists>u. a = AuthIn u)"
| "pc_auth start (PcUnwind (ToReturn r)) a \<longleftrightarrow> True"
| "pc_auth start (PcProxyEnd r) a \<longleftrightarrow> (\<exists>u. a = AuthIn u)"
| "pc_auth start (PcDone r) a \<longleftrightarrow> True"
| "pc_auth start PcPanicked a \<longleftrightarrow> True"
| "pc_auth start _ a \<longleftrightarrow> auth_open a"

definition conn_auth :: "auth \<Rightarrow> conn \<Rightarrow> bool" where
  "conn_auth start c \<longleftrightarrow> (\<exists>a. auth_run start (events c) = Some a \<and> pc_auth start (pc c) a)"

text \<open>Who owns the claim guard, and that a fresh login carries an open PAM session: the two
  \<open>expect\<close> calls of the handler cannot panic.\<close>

fun pc_claim :: "pc \<Rightarrow> bool \<Rightarrow> bool" where
  "pc_claim (PcPamStart u fresh) held \<longleftrightarrow> held = fresh"
| "pc_claim (PcPamWait u fresh evs) held \<longleftrightarrow> held = fresh
     \<and> (\<forall>outcome. PamOk outcome \<in> set evs \<longrightarrow> (fresh \<longleftrightarrow> po_session outcome \<noteq> None))"
| "pc_claim (PcPamPrompt u fresh style msg evs) held \<longleftrightarrow> held = fresh
     \<and> (\<forall>outcome. PamOk outcome \<in> set evs \<longrightarrow> (fresh \<longleftrightarrow> po_session outcome \<noteq> None))"
| "pc_claim (PcPamReply u fresh evs) held \<longleftrightarrow> held = fresh
     \<and> (\<forall>outcome. PamOk outcome \<in> set evs \<longrightarrow> (fresh \<longleftrightarrow> po_session outcome \<noteq> None))"
| "pc_claim (PcRecordSuccess u fresh outcome) held \<longleftrightarrow>
     held = fresh \<and> (fresh \<longrightarrow> po_session outcome \<noteq> None)"
| "pc_claim (PcLookupFresh u outcome) held \<longleftrightarrow> held \<and> po_session outcome \<noteq> None"
| "pc_claim (PcStartSession user outcome) held \<longleftrightarrow> held \<and> po_session outcome \<noteq> None"
| "pc_claim (PcOpenClear user outcome) held \<longleftrightarrow> held \<and> po_session outcome \<noteq> None"
| "pc_claim (PcOpenInstall user outcome) held \<longleftrightarrow> held \<and> po_session outcome \<noteq> None"
| "pc_claim (PcOpenStatus user) held \<longleftrightarrow> held"
| "pc_claim (PcStartFailed user e) held \<longleftrightarrow> held"
| "pc_claim (PcNoAccount u) held \<longleftrightarrow> held"
| "pc_claim (PcUnwind ToPanic) held \<longleftrightarrow> False"
| "pc_claim PcPanicked held \<longleftrightarrow> False"
| "pc_claim (PcUnwind x) held \<longleftrightarrow> True"
| "pc_claim (PcSendOk frame) held \<longleftrightarrow> True"
| "pc_claim PcConnect held \<longleftrightarrow> True"
| "pc_claim PcProxy held \<longleftrightarrow> True"
| "pc_claim (PcPamFailed u msg) held \<longleftrightarrow> True"
| "pc_claim PcRecordFailure held \<longleftrightarrow> True"
| "pc_claim _ held \<longleftrightarrow> \<not> held"

lemmas conn_defs = goto_def observe_def leave_def send_frame_def drive_pam_def

subsection \<open>Every connection follows the protocol\<close>

lemma auth_run_append:
  "auth_run a (xs @ ys) = (case auth_run a xs of None \<Rightarrow> None | Some a' \<Rightarrow> auth_run a' ys)"
  by (induction xs arbitrary: a) (auto split: option.splits)

lemma pam_worker_accepts:
  "PamOk outcome \<in> set (pam_worker username fresh p) \<Longrightarrow> pam_accepts username fresh p outcome"
  by (auto simp: pam_worker_def prompts_def pam_accepts_def Let_def
      split: sum.splits if_splits option.splits)

lemma auth_open_simps [simp]:
  "auth_open AuthIdle" "auth_open (AuthPam u f p)" "auth_open (AuthOk u f r)"
  "auth_open (AuthAccount w)" "\<not> auth_open AuthHello" "\<not> auth_open (AuthIn u)"
  by (simp_all add: auth_open_def)

lemma auth_open_sent:
  "auth_open a \<Longrightarrow> \<not> is_login_ok f \<Longrightarrow> \<exists>a'. auth_next a (EvSent f) = Some a' \<and> auth_open a'"
  by (cases a; cases f) (auto split: bool.splits)

lemma auth_open_pam: "auth_open a \<Longrightarrow> auth_next a (EvPamStart u fresh p) = Some (AuthPam u fresh p)"
  by (cases a) auto

lemma conn_authI:
  "auth_run start (events c) = Some a \<Longrightarrow> pc_auth start (pc c) a \<Longrightarrow> conn_auth start c"
  by (auto simp: conn_auth_def)

lemma conn_auth_observe:
  assumes "auth_run start (events c) = Some a" "auth_next a e = Some a'" "pc_auth start p a'"
  shows "conn_auth start (goto p (observe e c))"
  using assms by (intro conn_authI [of _ _ a']) (simp_all add: conn_defs auth_run_append)

lemma conn_auth_goto:
  assumes "auth_run start (events c) = Some a" "pc_auth start p a"
  shows "conn_auth start (goto p c)"
  using assms by (intro conn_authI [of _ _ a]) (simp_all add: conn_defs)

lemma conn_auth_send:
  assumes "send_frame ev f next c = Some c'" "auth_run start (events c) = Some a" "auth_open a"
    "\<not> is_login_ok f" "\<And>a'. auth_open a' \<Longrightarrow> pc_auth start next a'"
  shows "conn_auth start c'"
proof -
  obtain a' where "auth_next a (EvSent f) = Some a'" "auth_open a'"
    using auth_open_sent assms(3,4) by blast
  with assms show ?thesis
    by (auto simp: send_frame_def intro: conn_auth_observe conn_auth_goto split: env.splits)
qed

lemma rd_events [simp]: "events (c\<lparr>rd := s\<rparr>) = events c" "events (c\<lparr>holds_claim := b\<rparr>) = events c"
  by simp_all

lemma conn_auth_step:
  assumes step: "conn_step fs now ev c sh = Some (c', sh')"
    and start: "start = auth_start (relay_token sh)"
    and inv: "conn_auth start c"
  shows "conn_auth start c'"
proof -
  obtain a where a: "auth_run start (events c) = Some a" "pc_auth start (pc c) a"
    using inv by (auto simp: conn_auth_def)
  note st = step [unfolded conn_step_def]
  show ?thesis
  proof (cases "pc c")
    case PcCooldown
    with a st show ?thesis by (auto intro: conn_auth_goto conn_authI split: if_splits)
  next
    case PcHello
    with a st start show ?thesis
      by (auto simp: Let_def leave_def auth_start_def split: option.splits if_splits
          intro: conn_auth_goto conn_auth_observe)
  next
    case (PcPamWait u fresh evs)
    with a st show ?thesis
      by (auto simp: conn_defs conn_auth_def auth_run_append pam_worker_accepts
          split: if_splits list.splits pam_event.splits)
  next
    case (PcPamPrompt u fresh style msg evs)
    with a st show ?thesis
      by (auto simp: conn_defs conn_auth_def auth_run_append
          split: env.splits if_splits)
  next
    case (PcPamStart u fresh)
    with a st show ?thesis
      by (auto simp: conn_defs conn_auth_def auth_run_append auth_open_pam
          split: env.splits)
  next
    case (PcLookupFresh u outcome)
    with a st show ?thesis
      by (auto simp: conn_defs conn_auth_def auth_run_append
          split: env.splits sum.splits option.splits)
  next
    case (PcProxyEnd r)
    with a st show ?thesis
      by (auto simp: conn_defs conn_auth_def auth_run_append
          split: sum.splits)
  next
    case (PcSendOk frame)
    with a st show ?thesis
      by (auto simp: conn_defs conn_auth_def auth_run_append ok_frame_def
          split: env.splits)
  next
    case PcProxy
    with a st show ?thesis
      by (auto simp: conn_auth_def observe_def auth_run_append goto_def
          split: env.splits sum.splits option.splits if_splits)
  next
    case (PcUnwind x)
    with a st show ?thesis by (cases x) (auto intro!: conn_auth_goto)
  qed (use a st in \<open>auto simp: leave_def login_mode_def intro: conn_auth_send
      intro!: conn_auth_goto
      split: env.splits sum.splits option.splits prod.splits bool.splits session_state.splits
        proxy_end.splits\<close>)
qed

lemma conn_claim_step:
  assumes step: "conn_step fs now ev c sh = Some (c', sh')"
    and inv: "pc_claim (pc c) (holds_claim c)"
  shows "pc_claim (pc c') (holds_claim c')"
proof -
  note st = step [unfolded conn_step_def]
  show ?thesis
  proof (cases "pc c")
    case (PcPamStart u fresh)
    with inv st show ?thesis
      by (auto simp: conn_defs dest!: pam_worker_accepts simp: pam_accepts_def split: env.splits)
  next
    case (PcUnwind x)
    with inv st show ?thesis by (cases x) (auto simp: conn_defs)
  qed (use inv st in \<open>auto simp: conn_defs Let_def login_mode_def
      split: env.splits sum.splits option.splits prod.splits bool.splits session_state.splits
        proxy_end.splits list.splits pam_event.splits if_splits\<close>)
qed

lemma conn_step_token: "conn_step fs now ev c sh = Some (c', sh') \<Longrightarrow> relay_token sh' = relay_token sh"
  unfolding conn_step_def
  by (cases "pc c")
    (auto simp: Let_def split: env.splits sum.splits option.splits prod.splits bool.splits
      list.splits pam_event.splits if_splits)

definition system_inv :: "byte list option \<Rightarrow> host_system \<Rightarrow> bool" where
  "system_inv token sys \<longleftrightarrow> relay_token (global sys) = token
     \<and> (\<forall>i c. conns sys i = Some c \<longrightarrow>
          conn_auth (auth_start token) c \<and> pc_claim (pc c) (holds_claim c))"

lemma new_conn_ok: "conn_auth start (new_conn p s) \<and> pc_claim (pc (new_conn p s)) (holds_claim (new_conn p s))"
  by (auto simp: new_conn_def intro: conn_authI)

lemma task_step_token: "relay_token (fst (task_step t sh)) = relay_token sh"
  by (cases t) (auto split: prod.splits)

lemma system_inv_step:
  assumes "system_inv token sys" "system_step fs plain a sys = Some sys'"
  shows "system_inv token sys'"
proof (cases a)
  case (Accept i p s)
  with assms show ?thesis using new_conn_ok by (auto simp: system_inv_def split: if_splits)
next
  case (AcceptQuic i p s)
  with assms show ?thesis using new_conn_ok by (auto simp: system_inv_def split: if_splits)
next
  case (Step i now ev)
  with assms(2) obtain c c' sh where c: "conns sys i = Some c"
    "conn_step fs now ev c (global sys) = Some (c', sh)"
    "sys' = sys\<lparr>conns := (conns sys)(i := Some c'), global := sh\<rparr>"
    by (auto split: option.splits)
  with assms(1) have "conn_auth (auth_start token) c'" "pc_claim (pc c') (holds_claim c')"
    "relay_token sh = token"
    using conn_auth_step [OF c(2)] conn_claim_step [OF c(2)] conn_step_token [OF c(2)]
    by (auto simp: system_inv_def)
  with assms(1) c(3) show ?thesis by (auto simp: system_inv_def)
next
  case (TaskStep n)
  with assms task_step_token [of "tasks (global sys) ! n" "global sys"] show ?thesis
    by (auto simp: system_inv_def split: if_splits prod.splits)
qed (use assms in \<open>auto simp: system_inv_def split: if_splits\<close>)

lemma reachable_inv: "reachable fs plain token idle sys \<Longrightarrow> system_inv token sys"
proof (induction rule: reachable.induct)
  case reach_init
  show ?case by (simp add: system_inv_def system_init_def)
next
  case (reach_step sys a sys')
  then show ?case using system_inv_step by blast
qed

text \<open>C1: In every reachable state of the daemon, with any number of connections interleaved in any
  way, what a connection has done follows the authentication protocol: with a relay token configured
  nothing is sent before a valid hello; a success frame is sent only after PAM authenticated and
  validated the account in a conversation started for that login, naming the same user on
  re-attachment and the account found for PAM's user on a fresh login; commands reach the agent
  only between a success frame and the end of the proxy; and after a lock the user authenticates
  anew.  No connection panics.\<close>

theorem host_authentication:
  assumes "reachable fs plain token idle sys" "conns sys i = Some c"
  shows "auth_run (auth_start token) (events c) \<noteq> None \<and> pc c \<noteq> PcPanicked"
proof -
  have "conn_auth (auth_start token) c" "pc_claim (pc c) (holds_claim c)"
    using reachable_inv [OF assms(1)] assms(2) by (auto simp: system_inv_def)
  then show ?thesis by (cases "pc c") (auto simp: conn_auth_def)
qed

end
