(* ===== verification/Host_Schedules.thy ===== *)
theory Host_Schedules
  imports Host_System
begin

text \<open>
  Concrete schedules of the host daemon: a login that reaches the proxy, a session left active with
  nobody attached, and two users attached at once.
\<close>

subsection \<open>Schedules\<close>

definition plain_slice :: "byte list \<Rightarrow> string option" where
  "plain_slice bs = Some (map (\<lambda>b. char_of (unat b)) bs)"

definition name_reply :: "string \<Rightarrow> byte list" where
  "name_reply n = login_response (map (\<lambda>c. word_of_nat (of_char c)) n)"

definition valid_name :: "string \<Rightarrow> bool" where
  "valid_name n \<longleftrightarrow> n \<noteq> [] \<and> length n \<le> 64 \<and> list_all username_char n"

definition good_pam :: pam_script where
  "good_pam = \<lparr>pam_init = Ok (), auth_prompts = [], pam_auth = Ok (), acct_prompts = [],
     pam_acct = Ok (), pam_user = None, open_prompts = [], pam_open = Ok [], pam_id = 7\<rparr>"

definition good_outcome :: "string \<Rightarrow> pam_outcome" where
  "good_outcome n = \<lparr>po_user = n, po_env = [], po_session = Some 7\<rparr>"

definition account :: "string \<Rightarrow> os_user" where
  "account n = \<lparr>ou_name = n, ou_uid = 1000, ou_gid = 1000, ou_home = ''/home'', ou_shell = ''/bin/sh''\<rparr>"

definition account_ok :: "string \<Rightarrow> login_frame" where
  "account_ok n = LoginOk n 1000 1000 ''/home'' False"

text \<open>A fresh login of connection \<open>i\<close>: up to the check that no session exists, from there up
  to the cleared claim, on to the success frame, and to the proxy.\<close>

definition login_begins :: "nat \<Rightarrow> string \<Rightarrow> action list" where
  "login_begins i n = Accept i (V4 0x7F000001) \<lparr>pending = name_reply n, ending = None\<rparr>
     # map (Step i 0) [Proceed, Proceed, Proceed, Proceed, Proceed, Proceed, Proceed]"

definition login_claims :: "nat \<Rightarrow> string \<Rightarrow> action list" where
  "login_claims i n =
     map (Step i 0) [Proceed, PamRuns good_pam, Proceed, Proceed, LookupGives (Ok (Some (account n))),
       SessionStarts (Ok ()), Proceed]"

definition login_opens :: "nat \<Rightarrow> action list" where
  "login_opens i = map (Step i 0) [Proceed, Proceed]"

definition login_ends :: "nat \<Rightarrow> action list" where
  "login_ends i = map (Step i 0) [Proceed, Proceed]"

definition begun :: "string \<Rightarrow> conn" where
  "begun n = \<lparr>pc = PcClaimSlot n, peer = V4 0x7F000001, rd = \<lparr>pending = [], ending = None\<rparr>,
     holds_claim = False, events = [EvSent (LoginPrompt EchoOn USERNAME_PROMPT)]\<rparr>"

definition claimed :: "string \<Rightarrow> conn" where
  "claimed n = (begun n)\<lparr>pc := PcOpenInstall (account n) (good_outcome n), holds_claim := True,
     events := events (begun n) @ [EvPamStart n True good_pam, EvPamOk (good_outcome n),
       EvLookup n (Some (account n))]\<rparr>"

definition opened :: "string \<Rightarrow> conn" where
  "opened n = (claimed n)\<lparr>pc := PcSendOk (account_ok n)\<rparr>"

definition attached :: "string \<Rightarrow> conn" where
  "attached n = (opened n)\<lparr>pc := PcProxy, events := events (opened n) @ [EvSent (account_ok n)]\<rparr>"

lemma system_run_append:
  "system_run fs plain (xs @ ys) sys =
     (case system_run fs plain xs sys of None \<Rightarrow> None | Some sys' \<Rightarrow> system_run fs plain ys sys')"
  by (induction xs arbitrary: sys) (auto split: option.splits)

lemma read_name:
  assumes "valid_name n"
  shows "read_response plain_slice \<lparr>pending = name_reply n, ending = e\<rparr>
    = Ok (Some n, \<lparr>pending = [], ending = e\<rparr>)"
proof -
  have "map (\<lambda>b. char_of (unat b)) (map (\<lambda>c. word_of_nat (of_char c) :: byte) n) = n"
    by (induction n) (simp_all add: unat_of_nat)
  then show ?thesis
    using read_response_login [of plain_slice _ n "[]" e] assms
    by (simp add: plain_slice_def name_reply_def valid_name_def MAX_LOGIN_PAYLOAD_def)
qed

lemma login_begins_run:
  assumes "conns sys i = None" "relay_token (global sys) = None" "claim (manager (global sys)) = None"
    "inner (manager (global sys)) = None" "\<not> is_blocked 0 (V4 0x7F000001) (limits (global sys))"
    "valid_name n"
  shows "system_run plain_slice False (login_begins i n) sys
    = Some (sys\<lparr>conns := (conns sys)(i := Some (begun n))\<rparr>)"
proof -
  have "sanitize_username n = Some n"
    using assms(6) by (simp add: sanitize_username_id valid_name_def)
  with assms read_name [OF assms(6)] show ?thesis
    by (simp add: login_begins_def accepts_plaintext_def new_conn_def conn_step_def conn_defs begun_def
        state_claim_def state_inner_def login_mode_def claim_inner_def)
qed

lemma login_claims_run:
  assumes "conns sys i = Some (begun n)" "claim (manager (global sys)) = None"
  shows "system_run plain_slice False (login_claims i n) sys
    = Some (sys\<lparr>conns := (conns sys)(i := Some (claimed n)),
        global := (global sys)\<lparr>limits := record_success (V4 0x7F000001) (limits (global sys))\<rparr>\<rparr>)"
  using assms
  by (simp add: login_claims_def conn_step_def conn_defs begun_def claimed_def claim_slot_def
      pam_worker_def good_pam_def prompts_def good_outcome_def open_clear_def account_def)

lemma login_opens_run:
  assumes "conns sys i = Some (claimed n)"
  shows "system_run plain_slice False (login_opens i) sys
    = (let m = open_install (account n) 7 (manager (global sys))
       in Some (sys\<lparr>conns := (conns sys)(i := Some (opened n)),
            global := (global sys)\<lparr>manager := m, status := update_login_status m (status (global sys))\<rparr>\<rparr>))"
  using assms
  by (simp add: login_opens_def conn_step_def conn_defs claimed_def opened_def good_outcome_def
      account_def account_ok_def Let_def)

lemma login_ends_run:
  assumes "conns sys i = Some (opened n)"
  shows "system_run plain_slice False (login_ends i) sys
    = Some (sys\<lparr>conns := (conns sys)(i := Some (attached n))\<rparr>)"
  using assms
  by (simp add: login_ends_def conn_step_def conn_defs opened_def attached_def claimed_def begun_def)

text \<open>One undisturbed fresh login, and two logins of which the second passes its check of the session
  slot between the two critical sections of the first one's \<open>open\<close>.\<close>

definition after_open :: "string \<Rightarrow> host_system" where
  "after_open n = the (system_run plain_slice False
     (login_begins 2 n @ login_claims 2 n @ login_opens 2) (system_init None 60))"

lemma init_facts [simp]:
  "conns (system_init token idle) i = None" "relay_token (global (system_init token idle)) = token"
  "claim (manager (global (system_init token idle))) = None"
  "inner (manager (global (system_init token idle))) = None"
  "is_blocked now p (limits (global (system_init token idle))) = False"
  "tasks (global (system_init token idle)) = []"
  by (simp_all add: system_init_def manager_new_def limiter_new_def is_blocked_def)

lemma record_success_new: "record_success p (limits (global (system_init token idle)))
    = limits (global (system_init token idle))"
  by (simp add: system_init_def limiter_new_def record_success_def)

lemma after_open_run:
  assumes "valid_name n"
  shows "system_run plain_slice False (login_begins 2 n @ login_claims 2 n @ login_opens 2)
      (system_init None 60) = Some (after_open n)"
    and "conns (after_open n) = (\<lambda>_. None)(2 := Some (opened n))"
    and "claim (manager (global (after_open n))) = None"
    and "inner (manager (global (after_open n)))
      = Some \<lparr>as_user = account n, pam_guard = Some 7, locked_since = None\<rparr>"
    and "tasks (global (after_open n)) = []"
proof -
  note r = login_begins_run [of "system_init None 60" 2 n] login_claims_run login_opens_run
  show run: "system_run plain_slice False (login_begins 2 n @ login_claims 2 n @ login_opens 2)
      (system_init None 60) = Some (after_open n)"
    using assms by (simp add: after_open_def system_run_append r Let_def)
  then have eq: "after_open n = (let sys = system_init None 60; sh = global sys;
      m = open_install (account n) 7 (manager sh)
    in sys\<lparr>conns := (\<lambda>_. None)(2 := Some (opened n)),
        global := sh\<lparr>manager := m, status := update_login_status m (status sh)\<rparr>\<rparr>)"
    using assms
    by (simp add: system_run_append r Let_def record_success_new fun_eq_iff)
      (simp add: system_init_def fun_upd_def)
  show "conns (after_open n) = (\<lambda>_. None)(2 := Some (opened n))"
    "claim (manager (global (after_open n))) = None"
    "inner (manager (global (after_open n)))
      = Some \<lparr>as_user = account n, pam_guard = Some 7, locked_since = None\<rparr>"
    "tasks (global (after_open n)) = []"
    by (simp_all add: eq Let_def open_install_def)
qed

lemma after_open_reachable: "valid_name n \<Longrightarrow> reachable plain_slice False None 60 (after_open n)"
  using after_open_run(1) reach_init by (rule system_run_reachable [rotated])

text \<open>The authentication theorem at a login that reaches the proxy.\<close>

theorem host_authentication_witness:
  "let sys = the (system_run plain_slice False (login_ends 2) (after_open ''bryce''))
   in reachable plain_slice False None 60 sys \<and> conns sys 2 = Some (attached ''bryce'')
      \<and> auth_run (auth_start None) (events (attached ''bryce'')) \<noteq> None"
proof -
  have v: "valid_name ''bryce''"
    by (simp add: valid_name_def username_char_def is_ascii_alphanumeric_def)
  let ?sys = "(after_open ''bryce'')\<lparr>conns := (conns (after_open ''bryce''))(2 := Some (attached ''bryce''))\<rparr>"
  have run: "system_run plain_slice False (login_ends 2) (after_open ''bryce'') = Some ?sys"
    using login_ends_run [of "after_open ''bryce''" 2] after_open_run(2) [OF v] by simp
  then have r: "reachable plain_slice False None 60 ?sys"
    by (rule system_run_reachable [OF after_open_reachable [OF v]])
  have "conns ?sys 2 = Some (attached ''bryce'')" by simp
  from host_authentication [OF r this] run r show ?thesis by simp
qed

subsection \<open>A session nobody can use\<close>

text \<open>Points of the handler that hold no part of a session.\<close>

fun outside_pc :: "pc \<Rightarrow> bool" where
  "outside_pc PcCooldown = True"
| "outside_pc PcHello = True"
| "outside_pc PcPrompt = True"
| "outside_pc PcReadName = True"
| "outside_pc PcInvalid = True"
| "outside_pc (PcStateClaim u) = True"
| "outside_pc (PcStateInner u) = True"
| "outside_pc (PcSendBusy u) = True"
| "outside_pc (PcUnwind ToPrompt) = True"
| "outside_pc (PcUnwind (ToReturn r)) = True"
| "outside_pc (PcDone r) = True"
| "outside_pc _ = False"

definition stuck :: "string \<Rightarrow> host_system \<Rightarrow> bool" where
  "stuck n sys \<longleftrightarrow> claim (manager (global sys)) = None \<and> tasks (global sys) = []
     \<and> (\<exists>s. inner (manager (global sys)) = Some s \<and> locked_since s = None \<and> ou_name (as_user s) = n)
     \<and> (\<forall>i c. conns sys i = Some c \<longrightarrow> outside_pc (pc c) \<and> \<not> holds_claim c)"

lemma outside_step:
  assumes "conn_step fs now ev c sh = Some (c', sh')" "outside_pc (pc c)" "\<not> holds_claim c"
    "claim (manager sh) = None" "inner (manager sh) = Some s" "locked_since s = None"
  shows "outside_pc (pc c') \<and> \<not> holds_claim c' \<and> manager sh' = manager sh \<and> tasks sh' = tasks sh"
proof (cases "pc c")
  case (PcUnwind x)
  with assms show ?thesis by (cases x) (auto simp: conn_step_def conn_defs)
qed (use assms in \<open>auto simp: conn_step_def conn_defs Let_def login_mode_def state_claim_def
    state_inner_def split: env.splits sum.splits option.splits if_splits\<close>)

lemma stuck_step:
  assumes "stuck n sys" "system_step fs plain a sys = Some sys'" "a \<noteq> Shutdown"
  shows "stuck n sys'"
proof (cases a)
  case (Accept i p s)
  with assms show ?thesis by (auto simp: stuck_def new_conn_def split: if_splits)
next
  case (AcceptQuic i p s)
  with assms show ?thesis by (auto simp: stuck_def new_conn_def split: if_splits)
next
  case (Step i now ev)
  with assms(2) obtain c c' sh where c: "conns sys i = Some c"
    "conn_step fs now ev c (global sys) = Some (c', sh)"
    "sys' = sys\<lparr>conns := (conns sys)(i := Some c'), global := sh\<rparr>"
    by (auto split: option.splits)
  obtain s where s: "inner (manager (global sys)) = Some s" "locked_since s = None"
    "claim (manager (global sys)) = None" "outside_pc (pc c)" "\<not> holds_claim c"
    using assms(1) c(1) by (auto simp: stuck_def)
  have "outside_pc (pc c') \<and> \<not> holds_claim c' \<and> manager sh = manager (global sys)
    \<and> tasks sh = tasks (global sys)"
    by (rule outside_step [OF c(2) s(4,5,3,1,2)])
  with assms(1) c(3) show ?thesis by (auto simp: stuck_def)
next
  case (TaskStep k)
  with assms show ?thesis by (auto simp: stuck_def)
qed (use assms in \<open>auto simp: stuck_def split: if_splits\<close>)

lemma stuck_run:
  "stuck n sys \<Longrightarrow> system_run fs plain as sys = Some sys' \<Longrightarrow> Shutdown \<notin> set as \<Longrightarrow> stuck n sys'"
  by (induction "as" arbitrary: sys) (auto split: option.splits dest: stuck_step)

text \<open>C9: When writing the success frame of a fresh login fails, the handler returns without locking
  the session it just opened.  The session then stays active with no connection attached: until the
  daemon shuts down, no further login of anyone, its own user included, gets past the busy
  answer, and no idle timer is pending.\<close>

theorem failed_success_frame_wedges_host:
  "\<exists>sys. reachable plain_slice False None 60 sys
     \<and> map_option pc (conns sys 2) = Some (PcDone (Err WriteZero))
     \<and> (\<forall>as sys'. system_run plain_slice False as sys = Some sys' \<longrightarrow> Shutdown \<notin> set as \<longrightarrow>
          session_state_of (manager (global sys')) = Active ''bryce''
          \<and> tasks (global sys') = []
          \<and> (\<forall>i c. conns sys' i = Some c \<longrightarrow> outside_pc (pc c)))"
proof -
  have v: "valid_name ''bryce''"
    by (simp add: valid_name_def username_char_def is_ascii_alphanumeric_def)
  note o = after_open_run [OF v]
  define c where "c = (opened ''bryce'')\<lparr>pc := PcDone (Err WriteZero), holds_claim := False\<rparr>"
  define sys where "sys = (after_open ''bryce'')\<lparr>conns := (\<lambda>_. None)(2 := Some c)\<rparr>"
  have mgr: "claim_drop (manager (global (after_open ''bryce''))) = manager (global (after_open ''bryce''))"
    using o(3) by (simp add: claim_drop_def)
  have "system_run plain_slice False [Step 2 0 (WriteFails WriteZero), Step 2 0 Proceed]
      (after_open ''bryce'') = Some sys"
    using o(2) mgr by (simp add: conn_step_def conn_defs opened_def claimed_def begun_def sys_def c_def)
  then have r: "reachable plain_slice False None 60 sys"
    by (rule system_run_reachable [OF after_open_reachable [OF v]])
  have st: "stuck ''bryce'' sys"
    using o(3,4,5) by (simp add: stuck_def sys_def c_def account_def)
  have "session_state_of (manager (global sys')) = Active ''bryce'' \<and> tasks (global sys') = []
      \<and> (\<forall>i c. conns sys' i = Some c \<longrightarrow> outside_pc (pc c))"
    if "system_run plain_slice False as sys = Some sys'" "Shutdown \<notin> set as" for "as" sys'
    using stuck_run [OF st that] by (auto simp: stuck_def session_defs)
  with r show ?thesis
    by (intro exI [of _ sys]) (simp add: sys_def c_def)
qed

theorem failed_success_frame_wedges_host_witness:
  "\<exists>sys. reachable plain_slice False None 60 sys
     \<and> map_option pc (conns sys 2) = Some (PcDone (Err WriteZero))
     \<and> session_state_of (manager (global sys)) = Active ''bryce''"
proof -
  obtain sys where s: "reachable plain_slice False None 60 sys"
    "map_option pc (conns sys 2) = Some (PcDone (Err WriteZero))"
    "\<forall>as sys'. system_run plain_slice False as sys = Some sys' \<longrightarrow> Shutdown \<notin> set as \<longrightarrow>
       session_state_of (manager (global sys')) = Active ''bryce'' \<and> tasks (global sys') = []
       \<and> (\<forall>i c. conns sys' i = Some c \<longrightarrow> outside_pc (pc c))"
    using failed_success_frame_wedges_host by blast
  from s(3) [rule_format, of "[]" sys] have "session_state_of (manager (global sys)) = Active ''bryce''"
    by simp
  with s(1,2) show ?thesis by blast
qed

subsection \<open>Two users attached at once\<close>

definition after_clear :: "string \<Rightarrow> host_system" where
  "after_clear n = (system_init None 60)\<lparr>conns := (\<lambda>_. None)(2 := Some (claimed n))\<rparr>"

lemma after_clear_run:
  assumes "valid_name n"
  shows "system_run plain_slice False (login_begins 2 n @ login_claims 2 n) (system_init None 60)
    = Some (after_clear n)"
  using assms
  by (simp add: system_run_append login_begins_run login_claims_run record_success_new after_clear_def)
    (simp add: system_init_def)

text \<open>C10: \<open>open\<close> clears the claim before it installs the session.  A second login that runs its
  checks in between claims the slot too: there is a reachable state in which connections of two
  different users are both attached to the agent, each having been sent a success frame, while the
  registry holds the session of the second only.\<close>

theorem two_users_attached:
  "\<exists>sys. reachable plain_slice False None 60 sys
     \<and> conns sys 2 = Some (attached ''ann'') \<and> conns sys 3 = Some (attached ''bob'')
     \<and> EvSent (account_ok ''ann'') \<in> set (events (attached ''ann''))
     \<and> EvSent (account_ok ''bob'') \<in> set (events (attached ''bob''))
     \<and> session_state_of (manager (global sys)) = Active ''bob''"
proof -
  have v: "valid_name ''ann''" "valid_name ''bob''"
    by (simp_all add: valid_name_def username_char_def is_ascii_alphanumeric_def)
  have "\<exists>sys. system_run plain_slice False
      (login_begins 3 ''bob'' @ login_opens 2 @ login_ends 2 @ login_claims 3 ''bob''
        @ login_opens 3 @ login_ends 3) (after_clear ''ann'') = Some sys
      \<and> conns sys 2 = Some (attached ''ann'') \<and> conns sys 3 = Some (attached ''bob'')
      \<and> session_state_of (manager (global sys)) = Active ''bob''"
    using v
    by (simp add: system_run_append login_begins_run login_opens_run [where n = "''ann''"]
        login_opens_run [where n = "''bob''"] login_ends_run login_claims_run [where n = "''bob''"]
        after_clear_def open_install_def Let_def session_defs account_def)
  moreover have "reachable plain_slice False None 60 (after_clear ''ann'')"
    by (rule system_run_reachable [OF reach_init after_clear_run [OF v(1)]])
  ultimately show ?thesis
    using system_run_reachable by (fastforce simp: attached_def)
qed

end
