(* ===== verification/Host_Quic.thy ===== *)
theory Host_Quic
  imports Host_Proto
begin

text \<open>
  The QUIC side of the host daemon (\<open>flux-hostd/src/quic.rs\<close>): the hello of an outgoing link,
  the delays between dial attempts, and the pump that cuts the handler's byte stream into frames,
  one QUIC stream each.  Delays are in seconds.  JSON encoding and the QUIC library are outside;
  the hello payload and the outcome of each stream write are arguments.
\<close>

subsection \<open>Definitions\<close>

definition LINK_HELLO_MAX_SIZE :: nat where "LINK_HELLO_MAX_SIZE = 4 * 1024"

definition encode_link_hello :: "byte list \<Rightarrow> io_error + byte list" where
  "encode_link_hello payload =
     (if payload = [] \<or> length payload > LINK_HELLO_MAX_SIZE then Err InvalidData
      else Ok (u16_be (word_of_nat (length payload)) @ payload))"

text \<open>\<open>connect_link\<close>: the relay answers the hello with one byte, zero for acceptance.\<close>

definition link_accepted :: "stream \<Rightarrow> bool" where
  "link_accepted recv = (case read_exact 1 recv of Inr (ack, _) \<Rightarrow> hd ack = 0 | Inl _ \<Rightarrow> False)"

text \<open>One attempt of \<open>dial_out\<close>: how long it sleeps afterwards and the next failure delay.\<close>

datatype dial_attempt = ResolveFails | EndpointFails | LinkFails | LinkEnds

definition failure_backoff :: "nat \<Rightarrow> nat" where
  "failure_backoff d = min (d * 2) 30"

definition dial_step :: "dial_attempt \<Rightarrow> nat \<Rightarrow> nat \<times> nat" where
  "dial_step a d = (case a of LinkEnds \<Rightarrow> (1, 1) | _ \<Rightarrow> (d, failure_backoff d))"

text \<open>\<open>to_quic_frames\<close>: frames emitted so far, and the error that ends the pump.
  \<open>uni_write n\<close> is the failure, if any, of writing the stream of frame \<open>n\<close>.\<close>

definition MAX_QUIC_FRAME :: nat where "MAX_QUIC_FRAME = 16 * 1024 * 1024"

function to_quic_frames ::
  "(nat \<Rightarrow> io_error option) \<Rightarrow> byte list list \<Rightarrow> stream \<Rightarrow> byte list list \<times> io_error" where
  "to_quic_frames uni_write out s =
     (case read_exact 13 s of
        Inl e \<Rightarrow> (out, e)
      | Inr (hdr, s') \<Rightarrow>
          let len = unat (u32_of_be (take 4 (drop 9 hdr)))
          in if len > MAX_QUIC_FRAME then (out, InvalidData)
             else (case read_exact len s' of
                     Inl e \<Rightarrow> (out, e)
                   | Inr (payload, s'') \<Rightarrow>
                       (case uni_write (length out) of
                          Some e \<Rightarrow> (out, e)
                        | None \<Rightarrow> to_quic_frames uni_write (out @ [hdr @ payload]) s'')))"
  by pat_completeness auto
termination
  by (relation "measure (\<lambda>(w, out, s). length (pending s))") (auto dest!: read_exact_OkD)

declare to_quic_frames.simps [simp del]

text \<open>A frame of the wire format: type byte, timestamp, length and a payload of that length.\<close>

definition wire_frame :: "byte \<Rightarrow> u64 \<Rightarrow> byte list \<Rightarrow> byte list" where
  "wire_frame ty ts payload = [ty] @ u64_be ts @ u32_be (word_of_nat (length payload)) @ payload"

subsection \<open>Dialling\<close>

interpretation dial: doubling_backoff failure_backoff 30
  by unfold_locales (simp add: failure_backoff_def)

text \<open>Starting from one second, the delay after \<open>k\<close> failed dial attempts in a row is
  \<open>2 ^ k\<close> seconds but never more than 30, and a link that was up resets it to one second.\<close>

theorem dial_backoff:
  "snd (run dial_step (replicate k LinkFails) 1) = min (2 ^ k) 30
   \<and> fst (run dial_step (replicate k ResolveFails) 1) = map (\<lambda>i. min (2 ^ i) 30) [0..<k]
   \<and> snd (run dial_step (as @ [LinkEnds]) d) = 1"
proof -
  have n: "snd (run dial_step (replicate k a) d) = (failure_backoff ^^ k) d" if "a \<noteq> LinkEnds" for a k d
    using that
    by (induction k arbitrary: d) (auto simp: dial_step_def funpow_swap1 split: dial_attempt.splits)
  have f: "fst (run dial_step (replicate k ResolveFails) 1) = map (\<lambda>i. min (2 ^ i) 30) [0..<k]"
  proof (induction k)
    case (Suc k)
    have "fst (run dial_step (replicate k ResolveFails @ [ResolveFails]) 1)
      = map (\<lambda>i. min (2 ^ i) 30) [0..<k] @ [(failure_backoff ^^ k) 1]"
      by (simp add: run_append Suc n dial_step_def del: One_nat_def)
    then show ?case by (simp add: replicate_append_same dial.delay_after_failures del: One_nat_def)
  qed simp
  show ?thesis
    using n [of LinkFails k 1] f
    by (simp add: dial.delay_after_failures run_append dial_step_def del: One_nat_def)
qed

subsection \<open>The hello of a link\<close>

lemma encode_link_hello_read:
  assumes "encode_link_hello payload = Ok bytes"
  shows "\<exists>len. read_exact 2 \<lparr>pending = bytes @ rest, ending = e\<rparr>
      = Ok (u16_be len, \<lparr>pending = payload @ rest, ending = e\<rparr>)
    \<and> unat len = length payload"
proof -
  have len: "length payload \<le> 4096" and b: "bytes = u16_be (word_of_nat (length payload)) @ payload"
    using assms by (auto simp: encode_link_hello_def LINK_HELLO_MAX_SIZE_def split: if_splits)
  then show ?thesis
    by (intro exI [of _ "word_of_nat (length payload)"]) (simp add: read_exact_append unat_of_nat)
qed

subsection \<open>Cutting the stream into frames\<close>

lemma wire_frame_read:
  assumes "length payload \<le> MAX_QUIC_FRAME"
  shows "to_quic_frames (\<lambda>_. None) out \<lparr>pending = wire_frame ty ts payload @ rest, ending = e\<rparr>
    = to_quic_frames (\<lambda>_. None) (out @ [wire_frame ty ts payload]) \<lparr>pending = rest, ending = e\<rparr>"
proof -
  define hdr where "hdr = [ty] @ u64_be ts @ u32_be (word_of_nat (length payload))"
  have f: "wire_frame ty ts payload = hdr @ payload" and l: "length hdr = 13"
    and len: "take 4 (drop 9 hdr) = u32_be (word_of_nat (length payload))"
    by (simp_all add: wire_frame_def hdr_def)
  have "unat (word_of_nat (length payload) :: u32) = length payload"
    using assms by (simp add: unat_of_nat MAX_QUIC_FRAME_def)
  with assms f l len show ?thesis
    by (subst to_quic_frames.simps) (simp add: read_exact_append)
qed

text \<open>On the concatenation of frames of the wire format, none longer than 16 MiB, the pump emits
  exactly those frames in order, one QUIC stream each, and then stops at the end of the input.\<close>

theorem to_quic_frames_splits:
  assumes "list_all (\<lambda>(ty, ts, payload). length payload \<le> MAX_QUIC_FRAME) frames"
  shows "to_quic_frames (\<lambda>_. None) []
      \<lparr>pending = concat (map (\<lambda>(ty, ts, payload). wire_frame ty ts payload) frames), ending = None\<rparr>
    = (map (\<lambda>(ty, ts, payload). wire_frame ty ts payload) frames, UnexpectedEof)"
proof -
  have "to_quic_frames (\<lambda>_. None) out
      \<lparr>pending = concat (map (\<lambda>(ty, ts, payload). wire_frame ty ts payload) frames), ending = None\<rparr>
    = (out @ map (\<lambda>(ty, ts, payload). wire_frame ty ts payload) frames, UnexpectedEof)" for out
    using assms
  proof (induction frames arbitrary: out)
    case Nil
    show ?case by (simp add: to_quic_frames.simps [of _ out] read_exact_def)
  next
    case (Cons f frames)
    then show ?case by (cases f) (simp add: wire_frame_read)
  qed
  then show ?thesis by simp
qed

text \<open>A login prompt followed by an empty cursor message.\<close>

theorem to_quic_frames_splits_witness:
  "fst (to_quic_frames (\<lambda>_. None) []
     \<lparr>pending = encode_login_frame (\<lambda>_. Some [1, 2, 3]) 5 (LoginBusy ''x'') @ wire_frame 2 6 [],
      ending = None\<rparr>)
   = [encode_login_frame (\<lambda>_. Some [1, 2, 3]) 5 (LoginBusy ''x''), wire_frame 2 6 []]"
  using to_quic_frames_splits [of "[(6, 5, [1, 2, 3]), (2, 6, [])]"]
  by (simp add: encode_login_frame_def wire_frame_def MSG_LOGIN_def MAX_QUIC_FRAME_def)

end
