(* ===== verification/Core_Types.thy ===== *)
theory Core_Types
  imports Prelude
begin

text \<open>
  The shared types of \<open>flux-core\<close> (\<open>types.rs\<close>, \<open>error.rs\<close>, \<open>frame.rs\<close>,
  \<open>cursor.rs\<close>), platform detection (\<open>platform.rs\<close>) and the negotiation of a session
  plan from probed capabilities (\<open>capability.rs\<close>).
\<close>

subsection \<open>Types\<close>

datatype flux_error =
    CaptureError string
  | CaptureSessionLost string
  | NoCaptureBackend
  | EncoderInit string
  | EncodeError u64 string
  | NoEncoderBackend
  | AudioCapture string
  | AudioEncode string
  | NetworkError string
  | TimeoutError nat
  | Disconnected
  | ProtocolError string
  | NegotiationError string
  | CryptoError string
  | AuthError string
  | InputError string
  | ConfigError string
  | ConfigRead io_error
  | GpuError string
  | UnsupportedPlatform string
  | InternalError string

datatype video_codec = H264 | H265 | Av1
datatype dynamic_range = Sdr | Hdr10
datatype chroma_sampling = Yuv420 | Yuv444
datatype pixel_format = Bgra8 | Rgba8 | Nv12 | P010 | I420
datatype gpu_vendor = Nvidia | Amd | Intel | UnknownVendor
datatype encoder_backend = Nvenc | Amf | Vaapi | FfmpegVaapi | VulkanVideo | Software
datatype capture_backend = Dxgi | PipeWire | Drm
datatype os = Windows | Linux
datatype input_backend_kind = PortalInput | LibEi | Uinput | WindowsInput | NoInput

definition bytes_per_pixel :: "pixel_format \<Rightarrow> nat option" where
  "bytes_per_pixel f = (case f of Bgra8 \<Rightarrow> Some 4 | Rgba8 \<Rightarrow> Some 4 | _ \<Rightarrow> None)"

definition needs_csc :: "pixel_format \<Rightarrow> bool" where
  "needs_csc f \<longleftrightarrow> f = Bgra8 \<or> f = Rgba8"

record resolution =
  width :: nat
  height :: nat

definition show_resolution :: "resolution \<Rightarrow> string" where
  "show_resolution r = decimal (width r) @ ''x'' @ decimal (height r)"

definition pixel_count :: "resolution \<Rightarrow> nat" where
  "pixel_count r = width r * height r"

record desktop_rect =
  rect_left :: int
  rect_top :: int
  rect_width :: nat
  rect_height :: nat

record captured_frame =
  sequence :: u64
  timestamp :: nat
  format :: pixel_format
  frame_res :: resolution
  frame_stride :: nat
  frame_data :: "byte list"
  gpu_resident :: bool

record encoded_packet =
  frame_index :: u64
  pts :: u64
  is_keyframe :: bool
  packet_data :: "byte list"

record cursor_bitmap =
  cb_width :: u32
  cb_height :: u32
  cb_stride :: u32
  cb_format :: u32
  cb_pixels :: "byte list"

record cursor_metadata =
  cm_position :: "(int \<times> int) option"
  cm_hotspot :: "int \<times> int"
  cm_bitmap :: "cursor_bitmap option"

definition CURSOR_FORMAT_RGBA8888 :: u32 where "CURSOR_FORMAT_RGBA8888 = 1"

definition cursor_hidden :: cursor_metadata where
  "cursor_hidden = \<lparr>cm_position = None, cm_hotspot = (0, 0), cm_bitmap = None\<rparr>"

subsection \<open>Platform detection\<close>

record platform_info =
  pi_os :: os
  pi_vendor :: gpu_vendor
  available_capture_backends :: "capture_backend list"
  available_encoder_backends :: "encoder_backend list"

definition vendor_of_id :: "u32 \<Rightarrow> gpu_vendor" where
  "vendor_of_id v =
     (if v = 0x1002 then Amd else if v = 0x10DE then Nvidia else if v = 0x8086 then Intel
      else UnknownVendor)"

text \<open>An enumerated adapter: software flag, vendor id and dedicated video memory.  The loop keeps the
  vendor of the hardware adapter with the most memory.\<close>

record adapter =
  software :: bool
  vendor_id :: u32
  vram :: nat

fun best_vendor :: "adapter list \<Rightarrow> gpu_vendor \<times> nat \<Rightarrow> gpu_vendor \<times> nat" where
  "best_vendor [] best = best"
| "best_vendor (a # as) best =
     (if software a then best_vendor as best
      else if vram a > snd best then best_vendor as (vendor_of_id (vendor_id a), vram a)
      else best_vendor as best)"

definition detect_gpu_vendor_dxgi :: "adapter list \<Rightarrow> gpu_vendor" where
  "detect_gpu_vendor_dxgi as = fst (best_vendor as (UnknownVendor, 0))"

definition detect_capture_backends :: "os \<Rightarrow> capture_backend list" where
  "detect_capture_backends s = (case s of Windows \<Rightarrow> [Dxgi] | Linux \<Rightarrow> [PipeWire])"

definition detect_encoder_backends :: "os \<Rightarrow> gpu_vendor \<Rightarrow> encoder_backend list" where
  "detect_encoder_backends s v =
     (case (s, v) of
        (Windows, Nvidia) \<Rightarrow> [Nvenc, VulkanVideo]
      | (Windows, Amd) \<Rightarrow> [Amf, VulkanVideo]
      | (Windows, Intel) \<Rightarrow> [VulkanVideo]
      | (Linux, Nvidia) \<Rightarrow> [Nvenc, VulkanVideo]
      | (Linux, Amd) \<Rightarrow> [Vaapi, VulkanVideo]
      | (Linux, Intel) \<Rightarrow> [Vaapi, VulkanVideo]
      | _ \<Rightarrow> [VulkanVideo]) @ [Software]"

definition detect :: "os \<Rightarrow> gpu_vendor \<Rightarrow> platform_info" where
  "detect s v =
     \<lparr>pi_os = s, pi_vendor = v, available_capture_backends = detect_capture_backends s,
      available_encoder_backends = detect_encoder_backends s v\<rparr>"

subsection \<open>Capabilities\<close>

record portal_capabilities =
  screencast :: bool
  remote_desktop :: bool
  screencast_version :: "u32 option"
  remote_desktop_version :: "u32 option"

record encode_capabilities =
  ec_backend :: "encoder_backend option"
  ec_driver :: "string option"
  ec_h264 :: bool
  ec_h265 :: bool
  ec_av1 :: bool
  ec_hdr10 :: bool

definition supports_codec :: "encode_capabilities \<Rightarrow> video_codec \<Rightarrow> bool" where
  "supports_codec e c = (case c of H264 \<Rightarrow> ec_h264 e | H265 \<Rightarrow> ec_h265 e | Av1 \<Rightarrow> ec_av1 e)"

record platform_capabilities =
  pc_os :: os
  pc_vendor :: gpu_vendor
  capture_backends :: "capture_backend list"
  encoder_backends :: "encoder_backend list"
  portal :: portal_capabilities
  encode :: encode_capabilities
  dmabuf_modifiers :: "u64 list"
  input_backend :: input_backend_kind

record session_plan =
  plan_capture :: capture_backend
  plan_encoder :: encoder_backend
  plan_codec :: video_codec
  plan_input :: input_backend_kind
  plan_zero_copy :: bool

definition can_capture_wayland :: "platform_capabilities \<Rightarrow> bool" where
  "can_capture_wayland c \<longleftrightarrow> screencast (portal c) \<and> PipeWire \<in> set (capture_backends c)"

definition has_dmabuf :: "platform_capabilities \<Rightarrow> bool" where
  "has_dmabuf c \<longleftrightarrow> dmabuf_modifiers c \<noteq> []"

definition first_of :: "'a list \<Rightarrow> 'a option" where
  "first_of xs = (case xs of [] \<Rightarrow> None | x # _ \<Rightarrow> Some x)"

definition negotiate_capture :: "platform_capabilities \<Rightarrow> capture_backend option" where
  "negotiate_capture c =
     (if can_capture_wayland c then Some PipeWire else first_of (capture_backends c))"

definition negotiate_encoder :: "platform_capabilities \<Rightarrow> encoder_backend option" where
  "negotiate_encoder c =
     (case ec_backend (encode c) of Some b \<Rightarrow> Some b | None \<Rightarrow> first_of (encoder_backends c))"

definition negotiate_codec :: "platform_capabilities \<Rightarrow> video_codec \<Rightarrow> video_codec option" where
  "negotiate_codec c requested =
     (if ec_backend (encode c) = None then Some requested
      else if supports_codec (encode c) requested then Some requested
      else find (supports_codec (encode c)) [H264, H265, Av1])"

definition negotiate ::
  "platform_capabilities \<Rightarrow> video_codec \<Rightarrow> bool \<Rightarrow> flux_error + session_plan" where
  "negotiate c requested enable_input =
     (case negotiate_capture c of
        None \<Rightarrow> Err NoCaptureBackend
      | Some capture \<Rightarrow>
     (case negotiate_encoder c of
        None \<Rightarrow> Err NoEncoderBackend
      | Some encoder \<Rightarrow>
     (case negotiate_codec c requested of
        None \<Rightarrow> Err (UnsupportedPlatform ''no hardware-supported video codec'')
      | Some codec \<Rightarrow>
          Ok \<lparr>plan_capture = capture, plan_encoder = encoder, plan_codec = codec,
              plan_input = (if enable_input then input_backend c else NoInput),
              plan_zero_copy = (has_dmabuf c \<and> capture = PipeWire)\<rparr>)))"

definition default_input_backend :: "os \<Rightarrow> input_backend_kind" where
  "default_input_backend s = (case s of Windows \<Rightarrow> WindowsInput | Linux \<Rightarrow> PortalInput)"

definition from_platform_info :: "platform_info \<Rightarrow> platform_capabilities" where
  "from_platform_info i =
     \<lparr>pc_os = pi_os i, pc_vendor = pi_vendor i, capture_backends = available_capture_backends i,
      encoder_backends = available_encoder_backends i,
      portal = \<lparr>screencast = False, remote_desktop = False, screencast_version = None,
                remote_desktop_version = None\<rparr>,
      encode = \<lparr>ec_backend = None, ec_driver = None, ec_h264 = False, ec_h265 = False,
                ec_av1 = False, ec_hdr10 = False\<rparr>,
      dmabuf_modifiers = [], input_backend = default_input_backend (pi_os i)\<rparr>"

subsection \<open>Adapters\<close>

lemma best_vendor_spec:
  "\<exists>v m. best_vendor as best = (v, m) \<and> snd best \<le> m
     \<and> (\<forall>a \<in> set as. \<not> software a \<longrightarrow> vram a \<le> m)
     \<and> ((v, m) = best \<or> (\<exists>a \<in> set as. \<not> software a \<and> vram a = m \<and> v = vendor_of_id (vendor_id a)))"
proof (induction "as" arbitrary: best)
  case Nil
  show ?case by (cases best) simp
next
  case (Cons a "as")
  show ?case
  proof (cases "\<not> software a \<and> vram a > snd best")
    case True
    then show ?thesis using Cons.IH [of "(vendor_of_id (vendor_id a), vram a)"] by fastforce
  next
    case False
    then show ?thesis using Cons.IH [of best] by fastforce
  qed
qed

lemma detect_gpu_vendor_largest:
  "(\<exists>a \<in> set adapters. \<not> software a \<and> detect_gpu_vendor_dxgi adapters = vendor_of_id (vendor_id a)
      \<and> (\<forall>b \<in> set adapters. \<not> software b \<longrightarrow> vram b \<le> vram a))
   \<or> detect_gpu_vendor_dxgi adapters = UnknownVendor
      \<and> (\<forall>b \<in> set adapters. \<not> software b \<longrightarrow> vram b = 0)"
  using best_vendor_spec [of adapters "(UnknownVendor, 0)"]
  by (auto simp: detect_gpu_vendor_dxgi_def)

subsection \<open>Negotiation\<close>

lemmas negotiate_defs = negotiate_def negotiate_capture_def negotiate_encoder_def negotiate_codec_def
  can_capture_wayland_def first_of_def

text \<open>A negotiated plan uses an advertised capture backend; after an encode probe it uses the
  probed encoder and a codec that encoder supports, and the requested codec whenever it is
  supported (or no probe ran); zero copy is claimed only for PipeWire with importable modifiers.
  Negotiation fails exactly when there is no capture backend, no encoder, or a probed encoder without
  any codec.\<close>

theorem negotiate_sound:
  "case negotiate c requested enable_input of
     Inr p \<Rightarrow> plan_capture p \<in> set (capture_backends c)
       \<and> (case ec_backend (encode c) of
            Some b \<Rightarrow> plan_encoder p = b \<and> supports_codec (encode c) (plan_codec p)
              \<and> (if supports_codec (encode c) requested then plan_codec p = requested else True)
          | None \<Rightarrow> plan_encoder p \<in> set (encoder_backends c) \<and> plan_codec p = requested)
       \<and> (plan_zero_copy p \<longleftrightarrow> plan_capture p = PipeWire \<and> dmabuf_modifiers c \<noteq> [])
       \<and> plan_input p = (if enable_input then input_backend c else NoInput)
   | Inl e \<Rightarrow>
       (case e of
          NoCaptureBackend \<Rightarrow> capture_backends c = []
        | NoEncoderBackend \<Rightarrow> ec_backend (encode c) = None \<and> encoder_backends c = []
        | _ \<Rightarrow> ec_backend (encode c) \<noteq> None \<and> \<not> ec_h264 (encode c) \<and> \<not> ec_h265 (encode c)
               \<and> \<not> ec_av1 (encode c))"
  by (auto simp: negotiate_defs supports_codec_def has_dmabuf_def
      split: option.splits list.splits video_codec.splits if_splits)

lemma base_probe_negotiates:
  "negotiate (from_platform_info (detect s v)) requested enable_input =
     Ok \<lparr>plan_capture = (case s of Windows \<Rightarrow> Dxgi | Linux \<Rightarrow> PipeWire),
         plan_encoder = hd (detect_encoder_backends s v), plan_codec = requested,
         plan_input = (if enable_input then default_input_backend s else NoInput),
         plan_zero_copy = False\<rparr>"
  by (cases s; cases v)
    (simp_all add: negotiate_defs from_platform_info_def detect_def detect_capture_backends_def
      detect_encoder_backends_def has_dmabuf_def)

end
