(* ===== verification/Resolution.thy ===== *)
theory Resolution
  imports Core_Types
begin

text \<open>
  Resolution changes in the frame server (\<open>flux-server/src/resolution.rs\<close>): validation of
  requests, the tracker that decides which status is reported to clients, and mode changes that wait
  for a frame of the requested size.  Times are nanoseconds.
\<close>

subsection \<open>Definitions\<close>

record resolution_status =
  rs_state :: string
  rs_width :: nat
  rs_height :: nat
  previous_width :: "nat option"
  previous_height :: "nat option"
  rs_error :: "string option"
  rs_encode_width :: "nat option"
  rs_encode_height :: "nat option"

definition publish_resolution_status ::
  "(resolution_status \<Rightarrow> byte list option) \<Rightarrow> resolution_status \<Rightarrow> (u64 \<times> byte list) option" where
  "publish_resolution_status to_vec st = map_option (\<lambda>payload. (0, payload)) (to_vec st)"

record status_tracker =
  pending_success :: "((nat \<times> nat) \<times> resolution_status) option"
  latest_started :: "(nat \<times> nat) option"
  recovering :: "(nat \<times> nat) option"

definition tracker_default :: status_tracker where
  "tracker_default = \<lparr>pending_success = None, latest_started = None, recovering = None\<rparr>"

definition on_transition_started :: "nat \<Rightarrow> nat \<Rightarrow> status_tracker \<Rightarrow> status_tracker" where
  "on_transition_started w h t = t\<lparr>latest_started := Some (w, h), pending_success := None\<rparr>"

definition on_transition_applied :: "resolution_status \<Rightarrow> status_tracker \<Rightarrow> status_tracker" where
  "on_transition_applied st t =
     (let requested = (rs_width st, rs_height st)
      in if latest_started t = Some requested then t\<lparr>pending_success := Some (requested, st)\<rparr> else t)"

definition on_transition_failed :: "nat \<Rightarrow> nat \<Rightarrow> status_tracker \<Rightarrow> status_tracker" where
  "on_transition_failed w h t =
     (if latest_started t = Some (w, h) then t\<lparr>pending_success := None\<rparr> else t)"

definition on_encoder_failed ::
  "nat \<Rightarrow> nat \<Rightarrow> nat \<Rightarrow> status_tracker \<Rightarrow> resolution_status \<times> status_tracker" where
  "on_encoder_failed w h retry t =
     (\<lparr>rs_state = ''recovering'', rs_width = w, rs_height = h, previous_width = None,
       previous_height = None, 
       rs_error = Some (''encoder failed to start at '' @ decimal w @ ''x'' @ decimal h
         @ ''; retrying in '' @ decimal (retry div SECOND) @ ''s''), rs_encode_width = None,
       rs_encode_height = None\<rparr>,
      t\<lparr>recovering := Some (w, h)\<rparr>)"

definition on_packet_emitted ::
  "nat \<Rightarrow> nat \<Rightarrow> status_tracker \<Rightarrow> resolution_status option \<times> status_tracker" where
  "on_packet_emitted ew eh t =
     (let pend = (case pending_success t of
                    Some (requested, st) \<Rightarrow>
                      if latest_started t = Some requested then Some st else None
                  | None \<Rightarrow> None);
          t = t\<lparr>pending_success := None\<rparr>;
          finish = (\<lambda>st. st\<lparr>rs_state := ''succeeded'', rs_error := None,
                             rs_encode_width := Some ew, rs_encode_height := Some eh\<rparr>)
      in case pend of
           Some st \<Rightarrow> (Some (finish st), t\<lparr>recovering := None\<rparr>)
         | None \<Rightarrow>
             (case recovering t of
                None \<Rightarrow> (None, t)
              | Some (w, h) \<Rightarrow>
                  (Some (finish \<lparr>rs_state = ''succeeded'', rs_width = w, rs_height = h,
                     previous_width = None, previous_height = None, rs_error = None,
                     rs_encode_width = None, rs_encode_height = None\<rparr>),
                   t\<lparr>recovering := None\<rparr>)))"

record mode_request =
  req_width :: nat
  req_height :: nat

definition validate_mode_request :: "mode_request \<Rightarrow> string + mode_request" where
  "validate_mode_request r =
     (if req_width r < 640 \<or> req_height r < 480 then Err ''resolution is implausibly small''
      else if req_width r > 2560 \<or> req_height r > 1440 then Err ''resolution exceeds 2560x1440''
      else if req_width r mod 2 \<noteq> 0 \<or> req_height r mod 2 \<noteq> 0
        then Err ''resolution dimensions must be even''
      else Ok r)"

definition mode_change_needed :: "mode_request \<Rightarrow> mode_request \<Rightarrow> bool" where
  "mode_change_needed current requested \<longleftrightarrow>
     req_width current \<noteq> req_width requested \<or> req_height current \<noteq> req_height requested"

definition MODE_REQUEST_TIMEOUT :: nat where "MODE_REQUEST_TIMEOUT = 5 * SECOND"

record pending_mode =
  pm_requested :: resolution
  pm_previous :: resolution
  pm_deadline :: nat

datatype pending_mode_state = Waiting | Applied | TimedOut

definition pending_mode_new :: "resolution \<Rightarrow> resolution \<Rightarrow> nat \<Rightarrow> pending_mode" where
  "pending_mode_new requested previous now =
     \<lparr>pm_requested = requested, pm_previous = previous, pm_deadline = now + MODE_REQUEST_TIMEOUT\<rparr>"

definition pending_mode_state_at :: "pending_mode \<Rightarrow> resolution option \<Rightarrow> nat \<Rightarrow> pending_mode_state" where
  "pending_mode_state_at p frame now =
     (if frame = Some (pm_requested p) then Applied
      else if now \<ge> pm_deadline p then TimedOut
      else Waiting)"

text \<open>The calls the capture loop makes on the tracker, and their answers.\<close>

datatype tracker_call =
    Started nat nat
  | AppliedWith resolution_status
  | Failed nat nat
  | EncoderFailed nat nat nat
  | Packet nat nat

fun tracker_step ::
  "tracker_call \<Rightarrow> status_tracker \<Rightarrow> resolution_status option \<times> status_tracker" where
  "tracker_step (Started w h) t = (None, on_transition_started w h t)"
| "tracker_step (AppliedWith st) t = (None, on_transition_applied st t)"
| "tracker_step (Failed w h) t = (None, on_transition_failed w h t)"
| "tracker_step (EncoderFailed w h retry) t = map_prod Some id (on_encoder_failed w h retry t)"
| "tracker_step (Packet ew eh) t = on_packet_emitted ew eh t"

definition size_of_status :: "resolution_status \<Rightarrow> nat \<times> nat" where
  "size_of_status st = (rs_width st, rs_height st)"

text \<open>In the history \<open>hs\<close>, the transition applied with status \<open>st\<close> is the last one
  started, and since it was applied it has neither failed nor been reported.\<close>

definition applied_and_current :: "tracker_call list \<Rightarrow> resolution_status \<Rightarrow> bool" where
  "applied_and_current hs st \<longleftrightarrow>
     (\<exists>before mid after. hs = before @ [Started (rs_width st) (rs_height st)] @ mid
        @ [AppliedWith st] @ after
      \<and> (\<forall>w h. Started w h \<notin> set (mid @ after))
      \<and> Failed (rs_width st) (rs_height st) \<notin> set after
      \<and> (\<forall>w h. Packet w h \<notin> set after))"

text \<open>An encoder failed at this size and no packet was emitted since.\<close>

definition encoder_down :: "tracker_call list \<Rightarrow> nat \<times> nat \<Rightarrow> bool" where
  "encoder_down hs dims \<longleftrightarrow>
     (\<exists>before retry after. hs = before @ [EncoderFailed (fst dims) (snd dims) retry] @ after
      \<and> (\<forall>w h. Packet w h \<notin> set after))"

definition last_started :: "tracker_call list \<Rightarrow> nat \<times> nat \<Rightarrow> bool" where
  "last_started hs dims \<longleftrightarrow>
     (\<exists>before after. hs = before @ [Started (fst dims) (snd dims)] @ after
      \<and> (\<forall>w h. Started w h \<notin> set after))"

definition tracker_inv :: "tracker_call list \<Rightarrow> status_tracker \<Rightarrow> bool" where
  "tracker_inv hs t \<longleftrightarrow>
     (case latest_started t of None \<Rightarrow> True | Some dims \<Rightarrow> last_started hs dims)
     \<and> (case pending_success t of
          None \<Rightarrow> True
        | Some (dims, st) \<Rightarrow> dims = size_of_status st \<and> latest_started t = Some dims
            \<and> applied_and_current hs st)
     \<and> (case recovering t of None \<Rightarrow> True | Some dims \<Rightarrow> encoder_down hs dims)"

subsection \<open>The tracker never reports a stale success\<close>

lemma applied_snoc:
  assumes "applied_and_current hs st" "\<forall>w h. c \<noteq> Started w h" "c \<noteq> Failed (rs_width st) (rs_height st)"
    "\<forall>w h. c \<noteq> Packet w h"
  shows "applied_and_current (hs @ [c]) st"
proof -
  obtain before mid after where
    "hs = before @ [Started (rs_width st) (rs_height st)] @ mid @ [AppliedWith st] @ after"
    "\<forall>w h. Started w h \<notin> set (mid @ after)" "Failed (rs_width st) (rs_height st) \<notin> set after"
    "\<forall>w h. Packet w h \<notin> set after"
    using assms(1) by (auto simp: applied_and_current_def)
  with assms(2-4) show ?thesis
    unfolding applied_and_current_def
    by (intro exI [of _ before] exI [of _ mid] exI [of _ "after @ [c]"]) auto
qed

lemma encoder_down_snoc:
  assumes "encoder_down hs dims" "\<forall>w h. c \<noteq> Packet w h"
  shows "encoder_down (hs @ [c]) dims"
proof -
  obtain before retry after where "hs = before @ [EncoderFailed (fst dims) (snd dims) retry] @ after"
    "\<forall>w h. Packet w h \<notin> set after"
    using assms(1) by (auto simp: encoder_down_def)
  with assms(2) show ?thesis
    unfolding encoder_down_def
    by (intro exI [of _ before] exI [of _ retry] exI [of _ "after @ [c]"]) auto
qed

lemma last_started_snoc:
  assumes "last_started hs dims" "\<forall>w h. c \<noteq> Started w h"
  shows "last_started (hs @ [c]) dims"
proof -
  obtain before after where "hs = before @ [Started (fst dims) (snd dims)] @ after"
    "\<forall>w h. Started w h \<notin> set after"
    using assms(1) by (auto simp: last_started_def)
  with assms(2) show ?thesis
    unfolding last_started_def by (intro exI [of _ before] exI [of _ "after @ [c]"]) auto
qed

lemma last_started_now: "last_started (hs @ [Started w h]) (w, h)"
  unfolding last_started_def by (intro exI [of _ hs] exI [of _ "[]"]) simp

lemma encoder_down_now: "encoder_down (hs @ [EncoderFailed w h retry]) (w, h)"
  unfolding encoder_down_def by (intro exI [of _ hs] exI [of _ retry] exI [of _ "[]"]) simp

lemma applied_now:
  assumes "last_started hs (size_of_status st)"
  shows "applied_and_current (hs @ [AppliedWith st]) st"
proof -
  obtain before after where "hs = before @ [Started (rs_width st) (rs_height st)] @ after"
    "\<forall>w h. Started w h \<notin> set after"
    using assms by (auto simp: last_started_def size_of_status_def)
  then show ?thesis
    unfolding applied_and_current_def
    by (intro exI [of _ before] exI [of _ after] exI [of _ "[]"]) auto
qed

lemmas tracker_defs = on_transition_started_def on_transition_applied_def on_transition_failed_def
  on_encoder_failed_def on_packet_emitted_def

lemma tracker_inv_step:
  assumes "tracker_inv hs t"
  shows "tracker_inv (hs @ [c]) (snd (tracker_step c t))"
proof (cases c)
  case (Started w h)
  with assms show ?thesis
    by (auto simp: tracker_inv_def tracker_defs encoder_down_snoc last_started_now
        split: option.splits)
next
  case (AppliedWith st)
  with assms show ?thesis
    by (auto simp: tracker_inv_def tracker_defs encoder_down_snoc last_started_snoc applied_snoc
        Let_def applied_now size_of_status_def [symmetric] split: option.splits)
next
  case (Failed w h)
  with assms show ?thesis
    by (auto simp: tracker_inv_def tracker_defs size_of_status_def encoder_down_snoc applied_snoc
        last_started_snoc split: option.splits)
next
  case (EncoderFailed w h retry)
  with assms show ?thesis
    by (auto simp: tracker_inv_def tracker_defs encoder_down_now applied_snoc last_started_snoc
        split: option.splits)
next
  case (Packet w h)
  with assms show ?thesis
    by (auto simp: tracker_inv_def tracker_defs Let_def last_started_snoc split: option.splits)
qed

lemma tracker_inv_run: "tracker_inv hs (snd (run tracker_step hs tracker_default))"
proof (induction hs rule: rev_induct)
  case Nil
  show ?case by (simp add: tracker_inv_def tracker_default_def)
next
  case (snoc c hs)
  then show ?case by (simp add: run_snd_snoc tracker_inv_step)
qed


subsection \<open>Requests\<close>

lemma validate_mode_request_iff:
  "validate_mode_request r = Ok r' \<longleftrightarrow> r' = r \<and> 640 \<le> req_width r \<and> req_width r \<le> 2560
     \<and> 480 \<le> req_height r \<and> req_height r \<le> 1440 \<and> even (req_width r) \<and> even (req_height r)"
  by (auto simp: validate_mode_request_def)

lemma validate_mode_request_case:
  "(case validate_mode_request r of Inl _ \<Rightarrow> a | Inr _ \<Rightarrow> b) =
     (if 640 \<le> req_width r \<and> req_width r \<le> 2560 \<and> 480 \<le> req_height r \<and> req_height r \<le> 1440
         \<and> even (req_width r) \<and> even (req_height r) then b else a)"
  using validate_mode_request_iff [of r r]
  by (cases "validate_mode_request r") (auto simp: validate_mode_request_def split: if_splits)

lemma pending_mode_settles:
  "now \<ge> t + MODE_REQUEST_TIMEOUT \<Longrightarrow>
   pending_mode_state_at (pending_mode_new req prev t) frame now \<noteq> Waiting"
  by (simp add: pending_mode_state_at_def pending_mode_new_def)

end
