(* ===== verification/Input.thy ===== *)
theory Input
  imports Core_Types
begin

text \<open>
  Input events and their injection (\<open>flux-input\<close>): event types, scancode translation,
  dispatch to a session backend or to the platform sinks, and the Windows \<open>SendInput\<close> records.
  A 32-bit float on the wire is carried as its bit pattern, since these functions only pass it on.
  Scroll distances handed to a backend are in units of 1/120 notch (\<open>WHEEL_DELTA\<close>).
\<close>

subsection \<open>Events\<close>

datatype mouse_button = LeftButton | RightButton | MiddleButton | BackButton | ForwardButton

datatype mouse_event =
    Move int int
  | MoveAbsolute u32 u32
  | ButtonDown mouse_button
  | ButtonUp mouse_button
  | Scroll int int

datatype keyboard_event =
    KeyDown (scan_code: u16) (key_code: "u16 option") (modifiers: u16)
  | KeyUp (scan_code: u16) (key_code: "u16 option") (modifiers: u16)

datatype gamepad_button = PadA | PadB | PadX | PadY | LeftBumper | RightBumper | PadBack | PadStart
  | Guide | LeftStick | RightStick | DPadUp | DPadDown | DPadLeft | DPadRight

datatype gamepad_axis = LeftStickX | LeftStickY | RightStickX | RightStickY | LeftTrigger | RightTrigger

datatype gamepad_event =
    PadButton byte gamepad_button bool
  | PadAxis byte gamepad_axis u32
  | PadConnected byte
  | PadDisconnected byte

datatype input_event = Keyboard keyboard_event | Mouse mouse_event | Gamepad gamepad_event

datatype event_priority = HighPriority | NormalPriority | LowPriority

fun event_priority_of :: "input_event \<Rightarrow> event_priority" where
  "event_priority_of (Mouse (Move dx dy)) = HighPriority"
| "event_priority_of (Keyboard e) = NormalPriority"
| "event_priority_of (Mouse e) = NormalPriority"
| "event_priority_of (Gamepad e) = NormalPriority"

definition evdev_code :: "mouse_button \<Rightarrow> u32" where
  "evdev_code b =
     (case b of LeftButton \<Rightarrow> 0x110 | RightButton \<Rightarrow> 0x111 | MiddleButton \<Rightarrow> 0x112
      | BackButton \<Rightarrow> 0x113 | ForwardButton \<Rightarrow> 0x114)"

definition MODIFIER_BITS :: u16 where "MODIFIER_BITS = 0x003F"

definition modifier_flags :: "keyboard_event \<Rightarrow> u16" where
  "modifier_flags e = modifiers e AND MODIFIER_BITS"

subsection \<open>Scancodes\<close>

definition MAX_DIRECT_SCANCODE :: u16 where "MAX_DIRECT_SCANCODE = 0x58"

definition extended_table :: "(u16 \<times> u32) list" where
  "extended_table = [(0x1C, 96), (0x1D, 97), (0x38, 100), (0x47, 102), (0x48, 103), (0x49, 104),
     (0x4B, 105), (0x4D, 106), (0x4F, 107), (0x50, 108), (0x51, 109), (0x52, 110), (0x53, 111),
     (0x5B, 125), (0x5C, 126)]"

definition extended_to_evdev :: "u16 \<Rightarrow> u32 option" where
  "extended_to_evdev base = map_of extended_table base"

definition scancode_to_evdev :: "u16 \<Rightarrow> u32 option" where
  "scancode_to_evdev sc =
     (if sc AND 0xFF00 = 0xE000 then extended_to_evdev (sc AND 0x00FF)
      else if 0x01 \<le> sc \<and> sc \<le> MAX_DIRECT_SCANCODE then Some (ucast sc)
      else None)"

subsection \<open>Dispatch\<close>

text \<open>Calls on an input backend (\<open>trait InputBackend\<close>), whose results are given by the
  parameter \<open>answer\<close>.\<close>

datatype backend_call =
    PointerMotion int int
  | PointerAbsolute u32 u32
  | PointerButton mouse_button bool
  | PointerAxis int int
  | Key u32 bool

text \<open>\<open>SendInput\<close> records: the flags are those of the Windows API.\<close>

datatype mouse_flag = FlagMove | FlagAbsolute | FlagVirtualDesk | FlagLeftDown | FlagLeftUp
  | FlagRightDown | FlagRightUp | FlagMiddleDown | FlagMiddleUp | FlagXDown | FlagXUp | FlagWheel
  | FlagHWheel

datatype key_flag = KeyFlagUp | KeyFlagScancode | KeyFlagExtended

datatype os_input =
    MouseInput "mouse_flag list" int int u32
  | KeyInput u16 u16 "key_flag list"

definition dispatch_keyboard :: "keyboard_event \<Rightarrow> backend_call list" where
  "dispatch_keyboard e =
     (case scancode_to_evdev (scan_code e) of
        Some evdev \<Rightarrow> [Key evdev (case e of KeyDown _ _ _ \<Rightarrow> True | KeyUp _ _ _ \<Rightarrow> False)]
      | None \<Rightarrow> [])"

fun dispatch_mouse :: "mouse_event \<Rightarrow> backend_call list" where
  "dispatch_mouse (Move dx dy) = [PointerMotion dx dy]"
| "dispatch_mouse (MoveAbsolute x y) = [PointerAbsolute x y]"
| "dispatch_mouse (ButtonDown b) = [PointerButton b True]"
| "dispatch_mouse (ButtonUp b) = [PointerButton b False]"
| "dispatch_mouse (Scroll dx dy) = [PointerAxis dx (- dy)]"

definition key_input :: "keyboard_event \<Rightarrow> os_input list" where
  "key_input e =
     (let up = (case e of KeyDown _ _ _ \<Rightarrow> [] | KeyUp _ _ _ \<Rightarrow> [KeyFlagUp]);
          sc = scan_code e;
          ext = sc AND 0xFF00 = 0xE000;
          scan = (if sc > 0 then (if ext then sc AND 0x00FF else sc) else 0);
          vk = (if sc > 0 then 0 else (case key_code e of Some v \<Rightarrow> v | None \<Rightarrow> 0));
          flags = up @ (if sc > 0 then KeyFlagScancode # (if ext then [KeyFlagExtended] else []) else [])
      in if scan = 0 \<and> vk = 0 then [] else [KeyInput vk scan flags])"

definition XBUTTON1 :: u32 where "XBUTTON1 = 1"
definition XBUTTON2 :: u32 where "XBUTTON2 = 2"

text \<open>\<open>absolute\<close> is the coordinate mapping of \<open>normalized_to_virtual_absolute\<close>.\<close>

fun mouse_input :: "(u32 \<Rightarrow> u32 \<Rightarrow> int \<times> int) \<Rightarrow> mouse_event \<Rightarrow> os_input list" where
  "mouse_input absolute (Move dx dy) = [MouseInput [FlagMove] dx dy 0]"
| "mouse_input absolute (MoveAbsolute x y) =
     (let (ax, ay) = absolute x y in [MouseInput [FlagMove, FlagAbsolute, FlagVirtualDesk] ax ay 0])"
| "mouse_input absolute (ButtonDown b) =
     (case b of LeftButton \<Rightarrow> [MouseInput [FlagLeftDown] 0 0 0]
      | RightButton \<Rightarrow> [MouseInput [FlagRightDown] 0 0 0]
      | MiddleButton \<Rightarrow> [MouseInput [FlagMiddleDown] 0 0 0]
      | BackButton \<Rightarrow> [MouseInput [FlagXDown] 0 0 XBUTTON1]
      | ForwardButton \<Rightarrow> [MouseInput [FlagXDown] 0 0 XBUTTON2])"
| "mouse_input absolute (ButtonUp b) =
     (case b of LeftButton \<Rightarrow> [MouseInput [FlagLeftUp] 0 0 0]
      | RightButton \<Rightarrow> [MouseInput [FlagRightUp] 0 0 0]
      | MiddleButton \<Rightarrow> [MouseInput [FlagMiddleUp] 0 0 0]
      | BackButton \<Rightarrow> [MouseInput [FlagXUp] 0 0 XBUTTON1]
      | ForwardButton \<Rightarrow> [MouseInput [FlagXUp] 0 0 XBUTTON2])"
| "mouse_input absolute (Scroll dx dy) =
     (if dx \<noteq> 0 then [MouseInput [FlagHWheel] 0 0 (word_of_int dx)] else [])
     @ (if dy = 0 then [] else [MouseInput [FlagWheel] 0 0 (word_of_int dy)])"

text \<open>\<open>send_input\<close>: each record is submitted alone; the OS reports how many it inserted.\<close>

definition check_inserted :: "string \<Rightarrow> nat \<Rightarrow> nat \<Rightarrow> flux_error + unit" where
  "check_inserted cause inserted submitted =
     (if inserted = submitted then Ok () else Err (InputError cause))"

datatype injection = ToBackend backend_call | ToOs os_input

text \<open>\<open>InputSink::handle_event\<close>: what reaches a backend or the OS, and the result.  The first
  call that fails ends the event.\<close>

fun perform :: "('c \<Rightarrow> flux_error + unit) \<Rightarrow> 'c list \<Rightarrow> 'c list \<times> (flux_error + unit)" where
  "perform answer [] = ([], Ok ())"
| "perform answer (c # cs) =
     (case answer c of
        Inl e \<Rightarrow> ([c], Err e)
      | Inr _ \<Rightarrow> (let (done, r) = perform answer cs in (c # done, r)))"

definition GAMEPAD_UNIMPLEMENTED :: string where
  "GAMEPAD_UNIMPLEMENTED = ''gamepad injection not implemented on this platform''"

definition event_injections ::
  "os \<Rightarrow> bool \<Rightarrow> (u32 \<Rightarrow> u32 \<Rightarrow> int \<times> int) \<Rightarrow> input_event \<Rightarrow> flux_error + injection list" where
  "event_injections platform has_backend absolute e =
     (case e of
        Keyboard k \<Rightarrow>
          if has_backend then Ok (map ToBackend (dispatch_keyboard k))
          else (case platform of
                  Windows \<Rightarrow> Ok (map ToOs (key_input k))
                | Linux \<Rightarrow> Err (UnsupportedPlatform ''keyboard''))
      | Mouse m \<Rightarrow>
          if has_backend then Ok (map ToBackend (dispatch_mouse m))
          else (case platform of
                  Windows \<Rightarrow> Ok (map ToOs (mouse_input absolute m))
                | Linux \<Rightarrow> Err (UnsupportedPlatform ''mouse''))
      | Gamepad g \<Rightarrow> Err (InputError GAMEPAD_UNIMPLEMENTED))"

definition handle_event ::
  "os \<Rightarrow> bool \<Rightarrow> (u32 \<Rightarrow> u32 \<Rightarrow> int \<times> int) \<Rightarrow> (injection \<Rightarrow> flux_error + unit) \<Rightarrow> input_event
     \<Rightarrow> injection list \<times> (flux_error + unit)" where
  "handle_event platform has_backend absolute answer e =
     (case event_injections platform has_backend absolute e of
        Inl err \<Rightarrow> ([], Err err)
      | Inr cs \<Rightarrow> perform answer cs)"

fun handle_events ::
  "os \<Rightarrow> bool \<Rightarrow> (u32 \<Rightarrow> u32 \<Rightarrow> int \<times> int) \<Rightarrow> (injection \<Rightarrow> flux_error + unit) \<Rightarrow> input_event list
     \<Rightarrow> injection list \<times> (flux_error + unit)" where
  "handle_events platform has_backend absolute answer [] = ([], Ok ())"
| "handle_events platform has_backend absolute answer (e # es) =
     (case handle_event platform has_backend absolute answer e of
        (cs, Inl err) \<Rightarrow> (cs, Err err)
      | (cs, Inr _) \<Rightarrow>
          (let (cs', r) = handle_events platform has_backend absolute answer es in (cs @ cs', r)))"

subsection \<open>Keys are not confused\<close>

lemma u16_split: "(sc :: u16) = (sc AND 0xFF00) OR (sc AND 0x00FF)"
proof -
  have "(sc AND 0xFF00) OR (sc AND 0x00FF) = sc AND (0xFF00 OR 0x00FF)"
    by (simp only: bit.conj_disj_distrib)
  also have "(0xFF00 OR 0x00FF :: u16) = mask 16" by (simp add: mask_eq_exp_minus_1)
  also have "sc AND mask 16 = sc" by (simp flip: take_bit_eq_mask add: take_bit_word_eq_self)
  finally show ?thesis by simp
qed

lemma extended_to_evdev_inj:
  "extended_to_evdev a = Some k \<Longrightarrow> extended_to_evdev b = Some k \<Longrightarrow> a = b"
  by (auto simp: extended_to_evdev_def extended_table_def split: if_splits)

lemma extended_to_evdev_range: "extended_to_evdev a = Some k \<Longrightarrow> 96 \<le> k \<and> k \<le> 126"
  by (auto simp: extended_to_evdev_def extended_table_def split: if_splits)

lemma unat_ucast_u16: "unat (ucast (sc :: u16) :: u32) = unat sc"
  using unat_bound [of sc] by (simp add: unsigned_ucast_eq take_bit_nat_eq_self)

lemma direct_range:
  assumes "scancode_to_evdev sc = Some k" "sc AND 0xFF00 \<noteq> 0xE000"
  shows "unat k = unat sc \<and> unat k \<le> 88"
  using assms
  by (auto simp: scancode_to_evdev_def MAX_DIRECT_SCANCODE_def unat_ucast_u16 word_le_nat_alt
      split: if_splits)

lemma scancode_to_evdev_inj:
  assumes "scancode_to_evdev a = Some k" "scancode_to_evdev b = Some k"
  shows "a = b"
proof (cases "a AND 0xFF00 = 0xE000"; cases "b AND 0xFF00 = 0xE000")
  assume ab: "a AND 0xFF00 = 0xE000" "b AND 0xFF00 = 0xE000"
  with assms have "a AND 0x00FF = b AND 0x00FF"
    using extended_to_evdev_inj by (simp add: scancode_to_evdev_def)
  with ab show ?thesis using u16_split [of a] u16_split [of b] by simp
next
  assume "a AND 0xFF00 = 0xE000" "b AND 0xFF00 \<noteq> 0xE000"
  with assms direct_range [of b k] extended_to_evdev_range [of "a AND 0x00FF" k] show ?thesis
    by (auto simp: scancode_to_evdev_def word_le_nat_alt)
next
  assume "a AND 0xFF00 \<noteq> 0xE000" "b AND 0xFF00 = 0xE000"
  with assms direct_range [of a k] extended_to_evdev_range [of "b AND 0x00FF" k] show ?thesis
    by (auto simp: scancode_to_evdev_def word_le_nat_alt)
next
  assume "a AND 0xFF00 \<noteq> 0xE000" "b AND 0xFF00 \<noteq> 0xE000"
  with assms direct_range [of a k] direct_range [of b k] show ?thesis
    by (simp add: word_unat_eq_iff)
qed



end
