(* ===== verification/Frame_Protocol.thy ===== *)
theory Frame_Protocol
  imports Input Resolution
begin

text \<open>
  The wire format of the frame servers (\<open>flux-server/src/frame_protocol.rs\<close>) and the clipboard
  commands (\<open>flux-server/src/clipboard.rs\<close>): the header of outgoing messages, and the reader
  that dispatches the relay's commands to the channels of the capture loop.  JSON parsing enters as
  the parameters \<open>parse_input\<close> and \<open>parse_clip\<close>.
\<close>

subsection \<open>Definitions\<close>

definition FRAME_HEADER_LEN :: nat where "FRAME_HEADER_LEN = 13"
definition MSG_VIDEO :: byte where "MSG_VIDEO = 0x01"
definition MSG_CURSOR :: byte where "MSG_CURSOR = 0x02"
definition MSG_RESOLUTION_STATUS :: byte where "MSG_RESOLUTION_STATUS = 0x03"
definition MSG_AUDIO :: byte where "MSG_AUDIO = 0x04"
definition MSG_CLIPBOARD :: byte where "MSG_CLIPBOARD = 0x05"
definition CMD_IDR :: byte where "CMD_IDR = 0x01"
definition CMD_INPUT :: byte where "CMD_INPUT = 0x02"
definition CMD_BITRATE :: byte where "CMD_BITRATE = 0x03"
definition CMD_VIEWERS :: byte where "CMD_VIEWERS = 0x04"
definition CMD_QUALITY :: byte where "CMD_QUALITY = 0x05"
definition CMD_RESOLUTION :: byte where "CMD_RESOLUTION = 0x06"
definition CMD_CLIPBOARD :: byte where "CMD_CLIPBOARD = 0x07"
definition MAX_INPUT_BYTES :: nat where "MAX_INPUT_BYTES = 1024 * 1024"

definition frame_header :: "byte \<Rightarrow> u64 \<Rightarrow> nat \<Rightarrow> byte list" where
  "frame_header message_type ts payload_len =
     [message_type] @ u64_be ts @ u32_be (word_of_nat payload_len)"

record clipboard_message =
  clip_mime :: string
  clip_data :: string

definition CLIPBOARD_MIMES :: "string list" where
  "CLIPBOARD_MIMES =
     [''text/plain;charset=utf-8'', ''text/plain'', ''UTF8_STRING'', ''STRING'', ''TEXT'']"

definition clipboard_mime_ok :: "string \<Rightarrow> bool" where
  "clipboard_mime_ok mime \<longleftrightarrow> mime \<in> set CLIPBOARD_MIMES"

text \<open>\<open>max_bytes.saturating_add(4096)\<close> on 64-bit sizes.\<close>

definition clip_cap :: "nat \<Rightarrow> nat" where
  "clip_cap max_bytes = min (max_bytes + 4096) (2 ^ 64 - 1)"

definition parse_clipboard_set ::
  "(byte list \<Rightarrow> clipboard_message option) \<Rightarrow> byte list \<Rightarrow> nat \<Rightarrow> string + clipboard_message" where
  "parse_clipboard_set parse_clip payload max_bytes =
     (if length payload > clip_cap max_bytes then Err ''clipboard command exceeds size cap''
      else case parse_clip payload of
        None \<Rightarrow> Err ''invalid clipboard JSON''
      | Some msg \<Rightarrow>
          if \<not> clipboard_mime_ok (clip_mime msg) then Err ''unsupported clipboard MIME type''
          else if length (clip_data msg) > max_bytes then Err ''clipboard payload exceeds size cap''
          else Ok msg)"

record clipboard_ctx =
  clip_enabled :: bool
  clip_max_bytes :: nat

text \<open>What a command delivers: a message on one of the channels, the viewer count handed to the
  metrics and the privacy controller, or a text for the clipboard.\<close>

datatype delivery =
    ToIdr
  | ToInput input_event
  | ToBitrate u32
  | ToViewers u32
  | ToQuality byte byte
  | ToResolution mode_request
  | ToClipboard string

definition read_array :: "nat \<Rightarrow> stream \<Rightarrow> (byte list \<times> stream) option" where
  "read_array n s = (case read_exact n s of Inr r \<Rightarrow> Some r | Inl _ \<Rightarrow> None)"

definition read_len :: "stream \<Rightarrow> (nat \<times> stream) option" where
  "read_len s = map_option (\<lambda>(bs, s'). (unat (u32_of_be bs), s')) (read_array 4 s)"

definition read_payload :: "nat \<Rightarrow> stream \<Rightarrow> (byte list \<times> stream) option" where
  "read_payload len s = (case read_exact len s of Inr r \<Rightarrow> Some r | Inl _ \<Rightarrow> None)"

text \<open>One branch of \<open>read_command\<close> per command byte; \<open>None\<close> stops the reader.\<close>

definition read_input ::
  "(byte list \<Rightarrow> input_event option) \<Rightarrow> stream \<Rightarrow> (delivery list \<times> stream) option" where
  "read_input parse_input s =
     Option.bind (read_len s) (\<lambda>(len, s).
       if len > MAX_INPUT_BYTES then None
       else map_option (\<lambda>(payload, s).
              (case parse_input payload of Some e \<Rightarrow> [ToInput e] | None \<Rightarrow> [], s))
              (read_payload len s))"

definition read_resolution :: "stream \<Rightarrow> (delivery list \<times> stream) option" where
  "read_resolution s =
     map_option (\<lambda>(bs, s).
       let request = \<lparr>req_width = unat (u16_of_be (take 2 bs)), req_height = unat (u16_of_be (drop 2 bs))\<rparr>
       in (case validate_mode_request request of Inl _ \<Rightarrow> [] | Inr _ \<Rightarrow> [ToResolution request], s))
       (read_array 4 s)"

definition read_clipboard ::
  "(byte list \<Rightarrow> clipboard_message option) \<Rightarrow> clipboard_ctx \<Rightarrow> stream
     \<Rightarrow> (delivery list \<times> stream) option" where
  "read_clipboard parse_clip ctx s =
     Option.bind (read_len s) (\<lambda>(len, s).
       if len > clip_cap (clip_max_bytes ctx) then None
       else map_option (\<lambda>(payload, s).
              (if clip_enabled ctx
               then (case parse_clipboard_set parse_clip payload (clip_max_bytes ctx) of
                       Inr msg \<Rightarrow> [ToClipboard (clip_data msg)]
                     | Inl _ \<Rightarrow> [])
               else [], s))
              (read_payload len s))"

definition read_command ::
  "(byte list \<Rightarrow> input_event option) \<Rightarrow> (byte list \<Rightarrow> clipboard_message option) \<Rightarrow> clipboard_ctx
     \<Rightarrow> stream \<Rightarrow> (delivery list \<times> stream) option" where
  "read_command parse_input parse_clip ctx s =
     Option.bind (read_array 1 s) (\<lambda>(cmd, s).
       let cmd = hd cmd
       in if cmd = CMD_IDR then Some ([ToIdr], s)
          else if cmd = CMD_INPUT then read_input parse_input s
          else if cmd = CMD_BITRATE
            then map_option (\<lambda>(bs, s). ([ToBitrate (u32_of_be bs)], s)) (read_array 4 s)
          else if cmd = CMD_VIEWERS
            then map_option (\<lambda>(bs, s). ([ToViewers (u32_of_be bs)], s)) (read_array 4 s)
          else if cmd = CMD_QUALITY
            then map_option (\<lambda>(bs, s). ([ToQuality (bs ! 0) (bs ! 1)], s)) (read_array 2 s)
          else if cmd = CMD_RESOLUTION then read_resolution s
          else if cmd = CMD_CLIPBOARD then read_clipboard parse_clip ctx s
          else Some ([], s))"

lemma read_array_SomeD:
  "read_array n s = Some (bs, s') \<Longrightarrow> length bs = n \<and> pending s = bs @ pending s' \<and> ending s' = ending s"
  by (auto simp: read_array_def read_exact_OkD split: sum.splits dest: read_exact_OkD)

lemma read_payload_SomeD:
  "read_payload n s = Some (bs, s') \<Longrightarrow> length bs = n \<and> pending s = bs @ pending s' \<and> ending s' = ending s"
  by (auto simp: read_payload_def split: sum.splits dest: read_exact_OkD)

lemma read_len_SomeD:
  "read_len s = Some (n, s') \<Longrightarrow> \<exists>len. unat len = n \<and> pending s = u32_be len @ pending s'"
proof -
  assume "read_len s = Some (n, s')"
  then obtain bs where "read_array 4 s = Some (bs, s')" "n = unat (u32_of_be bs)"
    by (auto simp: read_len_def)
  then have "length bs = 4" "pending s = bs @ pending s'" "n = unat (u32_of_be bs)"
    using read_array_SomeD by auto
  then show ?thesis by (metis u32_be.enc_dec)
qed

lemma bind_read_suffix:
  assumes "\<And>n s1 d s'. read_len s = Some (n, s1) \<Longrightarrow> f (n, s1) = Some (d, s')
    \<Longrightarrow> length (pending s') \<le> length (pending s1)"
    "Option.bind (read_len s) f = Some (d, s')"
  shows "length (pending s') \<le> length (pending s)"
proof -
  obtain n s1 where "read_len s = Some (n, s1)" "f (n, s1) = Some (d, s')"
    using assms(2) by (cases "read_len s") auto
  with assms(1) read_len_SomeD show ?thesis by fastforce
qed

lemma read_command_shorter:
  assumes "read_command pi pcl ctx s = Some (d, s')"
  shows "length (pending s') < length (pending s)"
proof -
  obtain cmd s1 where c: "read_array 1 s = Some (cmd, s1)"
    using assms by (cases "read_array 1 s") (auto simp: read_command_def)
  then have "length (pending s1) < length (pending s)" using read_array_SomeD by fastforce
  moreover have "length (pending s') \<le> length (pending s1)"
    using assms c
    by (auto simp: read_command_def Let_def read_input_def read_clipboard_def read_resolution_def
        dest!: read_array_SomeD read_payload_SomeD split: if_splits
        elim!: bind_read_suffix [rotated])
  ultimately show ?thesis by simp
qed

text \<open>\<open>read_commands\<close>: everything delivered until the reader stops.\<close>

function read_commands ::
  "(byte list \<Rightarrow> input_event option) \<Rightarrow> (byte list \<Rightarrow> clipboard_message option) \<Rightarrow> clipboard_ctx
     \<Rightarrow> stream \<Rightarrow> delivery list" where
  "read_commands parse_input parse_clip ctx s =
     (case read_command parse_input parse_clip ctx s of
        None \<Rightarrow> []
      | Some (ds, s') \<Rightarrow> ds @ read_commands parse_input parse_clip ctx s')"
  by pat_completeness auto
termination
  by (relation "measure (\<lambda>(f, g, c, s). length (pending s))") (auto dest: read_command_shorter)

declare read_commands.simps [simp del]

text \<open>The commands as the relay means them, their encoding and what each is to deliver.\<close>

datatype relay_command =
    RelayIdr
  | RelayInput "byte list"
  | RelayBitrate u32
  | RelayViewers u32
  | RelayQuality byte byte
  | RelayResolution u16 u16
  | RelayClipboard "byte list"

fun encode_relay :: "relay_command \<Rightarrow> byte list" where
  "encode_relay RelayIdr = [0x01]"
| "encode_relay (RelayInput p) = 0x02 # u32_be (word_of_nat (length p)) @ p"
| "encode_relay (RelayBitrate k) = 0x03 # u32_be k"
| "encode_relay (RelayViewers n) = 0x04 # u32_be n"
| "encode_relay (RelayQuality l f) = [0x05, l, f]"
| "encode_relay (RelayResolution w h) = 0x06 # u16_be w @ u16_be h"
| "encode_relay (RelayClipboard p) = 0x07 # u32_be (word_of_nat (length p)) @ p"

fun relay_fits :: "clipboard_ctx \<Rightarrow> relay_command \<Rightarrow> bool" where
  "relay_fits ctx (RelayInput p) \<longleftrightarrow> length p \<le> MAX_INPUT_BYTES"
| "relay_fits ctx (RelayClipboard p) \<longleftrightarrow> length p < 2 ^ 32 \<and> length p \<le> clip_cap (clip_max_bytes ctx)"
| "relay_fits ctx _ \<longleftrightarrow> True"

fun relay_delivers ::
  "(byte list \<Rightarrow> input_event option) \<Rightarrow> (byte list \<Rightarrow> clipboard_message option) \<Rightarrow> clipboard_ctx
     \<Rightarrow> relay_command \<Rightarrow> delivery list" where
  "relay_delivers pi pcl ctx RelayIdr = [ToIdr]"
| "relay_delivers pi pcl ctx (RelayInput p) = (case pi p of Some e \<Rightarrow> [ToInput e] | None \<Rightarrow> [])"
| "relay_delivers pi pcl ctx (RelayBitrate k) = [ToBitrate k]"
| "relay_delivers pi pcl ctx (RelayViewers n) = [ToViewers n]"
| "relay_delivers pi pcl ctx (RelayQuality l f) = [ToQuality l f]"
| "relay_delivers pi pcl ctx (RelayResolution w h) =
     (let w = unat w; h = unat h
      in if 640 \<le> w \<and> w \<le> 2560 \<and> 480 \<le> h \<and> h \<le> 1440 \<and> even w \<and> even h
         then [ToResolution \<lparr>req_width = w, req_height = h\<rparr>] else [])"
| "relay_delivers pi pcl ctx (RelayClipboard p) =
     (case pcl p of
        Some m \<Rightarrow> if clip_enabled ctx \<and> clip_mime m \<in> set CLIPBOARD_MIMES
                     \<and> length (clip_data m) \<le> clip_max_bytes ctx
                  then [ToClipboard (clip_data m)] else []
      | None \<Rightarrow> [])"

subsection \<open>Commands arrive as sent\<close>

lemmas cmd_bytes = CMD_IDR_def CMD_INPUT_def CMD_BITRATE_def CMD_VIEWERS_def CMD_QUALITY_def
  CMD_RESOLUTION_def CMD_CLIPBOARD_def

lemma read_array_append:
  "length bs = n \<Longrightarrow>
   read_array n \<lparr>pending = bs @ rest, ending = e\<rparr> = Some (bs, \<lparr>pending = rest, ending = e\<rparr>)"
  by (simp add: read_array_def read_exact_append)

lemma read_payload_append:
  "read_payload (length bs) \<lparr>pending = bs @ rest, ending = e\<rparr> = Some (bs, \<lparr>pending = rest, ending = e\<rparr>)"
  by (simp add: read_payload_def read_exact_append)

lemma read_array_Cons:
  "read_array (Suc 0) \<lparr>pending = b # rest, ending = e\<rparr> = Some ([b], \<lparr>pending = rest, ending = e\<rparr>)"
  using read_array_append [of "[b]" "Suc 0" rest e] by simp

lemma read_len_append:
  "read_len \<lparr>pending = u32_be w @ rest, ending = e\<rparr> = Some (unat w, \<lparr>pending = rest, ending = e\<rparr>)"
  by (simp add: read_len_def read_array_append)

lemma read_command_Cons:
  "read_command pi pcl ctx \<lparr>pending = b # rest, ending = e\<rparr> =
     (let s = \<lparr>pending = rest, ending = e\<rparr>
      in if b = 0x01 then Some ([ToIdr], s)
         else if b = 0x02 then read_input pi s
         else if b = 0x03 then map_option (\<lambda>(bs, s). ([ToBitrate (u32_of_be bs)], s)) (read_array 4 s)
         else if b = 0x04 then map_option (\<lambda>(bs, s). ([ToViewers (u32_of_be bs)], s)) (read_array 4 s)
         else if b = 0x05 then map_option (\<lambda>(bs, s). ([ToQuality (bs ! 0) (bs ! 1)], s)) (read_array 2 s)
         else if b = 0x06 then read_resolution s
         else if b = 0x07 then read_clipboard pcl ctx s
         else Some ([], s))"
  by (simp add: read_command_def read_array_Cons cmd_bytes Let_def)

lemma read_resolution_append:
  "read_resolution \<lparr>pending = u16_be w @ u16_be h @ rest, ending = e\<rparr>
     = Some (relay_delivers pi pcl ctx (RelayResolution w h), \<lparr>pending = rest, ending = e\<rparr>)"
proof -
  have "read_array 4 \<lparr>pending = (u16_be w @ u16_be h) @ rest, ending = e\<rparr>
      = Some (u16_be w @ u16_be h, \<lparr>pending = rest, ending = e\<rparr>)"
    by (rule read_array_append) simp
  then show ?thesis
    by (simp add: read_resolution_def validate_mode_request_case Let_def)
qed

lemma unat_small_length: "length p < 2 ^ 32 \<Longrightarrow> unat (word_of_nat (length p) :: u32) = length p"
  by (simp add: unat_of_nat)

lemma read_command_encoded:
  assumes "relay_fits ctx c"
  shows "read_command pi pcl ctx \<lparr>pending = encode_relay c @ rest, ending = e\<rparr>
    = Some (relay_delivers pi pcl ctx c, \<lparr>pending = rest, ending = e\<rparr>)"
proof (cases c)
  case (RelayInput p)
  with assms have "unat (word_of_nat (length p) :: u32) = length p"
    by (intro unat_small_length) (simp add: MAX_INPUT_BYTES_def)
  with RelayInput assms show ?thesis
    by (simp add: read_command_Cons read_input_def read_len_append read_payload_append)
next
  case (RelayResolution w h)
  then show ?thesis by (simp add: read_command_Cons read_resolution_append del: relay_delivers.simps)
next
  case (RelayClipboard p)
  with assms have "unat (word_of_nat (length p) :: u32) = length p"
    by (intro unat_small_length) simp
  with RelayClipboard assms show ?thesis
    by (simp add: read_command_Cons read_clipboard_def read_len_append read_payload_append
        parse_clipboard_set_def clipboard_mime_ok_def split: option.splits)
next
  case (RelayQuality l f)
  then show ?thesis
    using read_array_append [of "[l, f]" 2 rest e] by (simp add: read_command_Cons)
qed (simp_all add: read_command_Cons read_array_append)

lemma read_commands_encoded:
  "list_all (relay_fits ctx) cs \<Longrightarrow>
   read_commands pi pcl ctx \<lparr>pending = concat (map encode_relay cs) @ rest, ending = e\<rparr>
     = concat (map (relay_delivers pi pcl ctx) cs)
       @ read_commands pi pcl ctx \<lparr>pending = rest, ending = e\<rparr>"
proof (induction cs)
  case (Cons c cs)
  let ?s = "\<lparr>pending = encode_relay c @ concat (map encode_relay cs) @ rest, ending = e\<rparr>"
  have "read_commands pi pcl ctx ?s = relay_delivers pi pcl ctx c
      @ read_commands pi pcl ctx \<lparr>pending = concat (map encode_relay cs) @ rest, ending = e\<rparr>"
    using Cons.prems by (simp add: read_commands.simps [of _ _ _ ?s] read_command_encoded)
  with Cons show ?case by simp
qed simp

text \<open>C5: Whatever sequence of commands the relay sends, each within its size limit, the reader
  delivers for each exactly what it stands for and in order: bitrates, viewer counts and quality
  settings as sent, inputs that parse, resolutions within the supported range only, and clipboard
  texts of an accepted type and size when the clipboard is enabled.  It stays aligned with the
  stream throughout, whatever the payloads contain.\<close>

theorem read_commands_round_trip:
  assumes "list_all (relay_fits ctx) cs"
  shows "read_commands pi pcl ctx \<lparr>pending = concat (map encode_relay cs), ending = e\<rparr>
    = concat (map (relay_delivers pi pcl ctx) cs)"
proof -
  have "read_commands pi pcl ctx \<lparr>pending = [], ending = e\<rparr> = []"
    by (subst read_commands.simps) (simp add: read_command_def read_array_def read_exact_def)
  then show ?thesis using read_commands_encoded [OF assms, of pi pcl "[]" e] by simp
qed

text \<open>An input payload that looks like commands, an odd resolution, and a valid one.\<close>

theorem read_commands_round_trip_witness:
  "read_commands (\<lambda>_. None) (\<lambda>_. None) \<lparr>clip_enabled = True, clip_max_bytes = 100\<rparr>
     \<lparr>pending = [2, 0, 0, 0, 2, 1, 1, 6, 5, 1, 3, 1, 6, 5, 0, 2, 208, 1], ending = None\<rparr>
   = [ToResolution \<lparr>req_width = 1280, req_height = 720\<rparr>, ToIdr]"
  using read_commands_round_trip [of "\<lparr>clip_enabled = True, clip_max_bytes = 100\<rparr>"
    "[RelayInput [1, 1], RelayResolution 1281 769, RelayResolution 1280 720, RelayIdr]"
    "\<lambda>_. None" "\<lambda>_. None" None]
  by (simp add: MAX_INPUT_BYTES_def u32_be_def u16_be_def be_bytes_2 be_bytes_4)

end
