(* ===== verification/Frame_Server.thy ===== *)
theory Frame_Server
  imports Frame_Protocol "HOL-Library.Sublist"
begin

text \<open>
  The TCP frame server of the agent, \<open>flux-server/src/frame_server.rs\<close>: the task that serves one
  client (\<open>serve\<close>) and the framed write it uses (\<open>write_frame_message\<close>).

  A socket is the list of answers its write calls will give: how many of the offered bytes it takes,
  or an error.  A write that has no answer yet is waiting.  \<open>write_all\<close> is the contiguous write of the
  standard library, used as reference here and by the QUIC sender.
\<close>

section \<open>Writers\<close>

datatype write_answer = Took nat | WriteBroken io_error

fun write_all ::
  "byte list \<Rightarrow> write_answer list \<Rightarrow> byte list \<times> (io_error + unit) option \<times> write_answer list" where
  "write_all [] as = ([], Some (Ok ()), as)"
| "write_all (b # bs) [] = ([], None, [])"
| "write_all (b # bs) (WriteBroken e # as) = ([], Some (Err e), as)"
| "write_all (b # bs) (Took k # as) =
     (if k = 0 then ([], Some (Err WriteZero), as)
      else case write_all (drop k (b # bs)) as of
        (sent, r, as') \<Rightarrow> (take k (b # bs) @ sent, r, as'))"

text \<open>The loop of \<open>write_frame_message\<close>: a vectored write of the rest of the header and the payload, or
  a plain write of the rest of the payload.\<close>

fun write_loop ::
  "byte list \<Rightarrow> byte list \<Rightarrow> nat \<Rightarrow> write_answer list
     \<Rightarrow> byte list \<times> (io_error + unit) option \<times> write_answer list" where
  "write_loop header payload written as =
     (if written < length header + length payload
      then case as of
        [] \<Rightarrow> ([], None, [])
      | WriteBroken e # as' \<Rightarrow> ([], Some (Err e), as')
      | Took k # as' \<Rightarrow>
          let bufs = (if written < length header then drop written header @ payload
                      else drop (written - length header) payload);
              n = min k (length bufs)
          in if n = 0 then ([], Some (Err WriteZero), as')
             else case write_loop header payload (written + n) as' of
               (sent, r, as'') \<Rightarrow> (take n bufs @ sent, r, as'')
      else ([], Some (Ok ()), as))"

declare write_loop.simps [simp del]

definition write_frame_message ::
  "byte \<Rightarrow> u64 \<Rightarrow> byte list \<Rightarrow> write_answer list
     \<Rightarrow> byte list \<times> (io_error + unit) option \<times> write_answer list" where
  "write_frame_message message_type ts payload as =
     write_loop (frame_header message_type ts (length payload)) payload 0 as"

section \<open>Serving one client\<close>

text \<open>What wakes the \<open>select!\<close> of a client task.  A cursor event carries the encoded metadata, if
  encoding succeeds.\<close>

datatype source = VideoSource | AudioSource | ClipboardSource | StatusSource

datatype source_event =
  ReaderEnded
| CursorChanged u64 "byte list option"
| CursorClosed
| Received source u64 "byte list"
| Lagged source
| SourceClosed source

definition message_type_of :: "source \<Rightarrow> byte" where
  "message_type_of src =
     (case src of VideoSource \<Rightarrow> MSG_VIDEO | AudioSource \<Rightarrow> MSG_AUDIO
      | ClipboardSource \<Rightarrow> MSG_CLIPBOARD | StatusSource \<Rightarrow> MSG_RESOLUTION_STATUS)"

record frame_client =
  fc_sent :: "byte list"
  fc_answers :: "write_answer list"
  fc_frames_sent :: u64

datatype client_phase = Serving | Ended | Stalled

definition client_write :: "byte \<Rightarrow> u64 \<Rightarrow> byte list \<Rightarrow> frame_client \<Rightarrow> client_phase \<times> frame_client" where
  "client_write ty ts payload c =
     (case write_frame_message ty ts payload (fc_answers c) of
        (sent, r, as) \<Rightarrow>
          (case r of None \<Rightarrow> Stalled | Some (Inl e) \<Rightarrow> Ended | Some (Inr _) \<Rightarrow> Serving,
           c\<lparr>fc_sent := fc_sent c @ sent, fc_answers := as\<rparr>))"

fun serve_event :: "source_event \<Rightarrow> frame_client \<Rightarrow> client_phase \<times> frame_client" where
  "serve_event ReaderEnded c = (Ended, c)"
| "serve_event (CursorChanged ts None) c = (Serving, c)"
| "serve_event (CursorChanged ts (Some payload)) c = client_write MSG_CURSOR ts payload c"
| "serve_event CursorClosed c = (Ended, c)"
| "serve_event (Received src ts payload) c =
     (case client_write (message_type_of src) ts payload c of
        (Serving, c') \<Rightarrow> (Serving, c'\<lparr>fc_frames_sent := fc_frames_sent c' + 1\<rparr>)
      | (p, c') \<Rightarrow> (p, c'))"
| "serve_event (Lagged src) c = (Serving, c)"
| "serve_event (SourceClosed src) c = (Ended, c)"

fun serve_loop :: "source_event list \<Rightarrow> frame_client \<Rightarrow> client_phase \<times> frame_client" where
  "serve_loop [] c = (Serving, c)"
| "serve_loop (ev # evs) c =
     (case serve_event ev c of
        (Serving, c') \<Rightarrow> serve_loop evs c'
      | (p, c') \<Rightarrow> (p, c'))"

text \<open>The whole task: the current cursor first (an encoding failure leaves an empty payload, which is
  not sent), then the loop.\<close>

definition serve_client ::
  "u64 \<Rightarrow> byte list option \<Rightarrow> source_event list \<Rightarrow> write_answer list \<Rightarrow> client_phase \<times> frame_client" where
  "serve_client cursor_ts cursor evs as =
     (let c = \<lparr>fc_sent = [], fc_answers = as, fc_frames_sent = 0\<rparr>;
          initial_payload = (case cursor of Some payload \<Rightarrow> payload | None \<Rightarrow> [])
      in if initial_payload = [] then serve_loop evs c
         else case client_write MSG_CURSOR cursor_ts initial_payload c of
           (Serving, c') \<Rightarrow> serve_loop evs c'
         | (p, c') \<Rightarrow> (p, c'))"

section \<open>Specification of the served stream\<close>

fun stops :: "source_event \<Rightarrow> bool" where
  "stops ReaderEnded = True"
| "stops CursorClosed = True"
| "stops (SourceClosed src) = True"
| "stops _ = False"

fun event_messages :: "source_event \<Rightarrow> (byte \<times> u64 \<times> byte list) list" where
  "event_messages (CursorChanged ts (Some payload)) = [(MSG_CURSOR, ts, payload)]"
| "event_messages (Received src ts payload) = [(message_type_of src, ts, payload)]"
| "event_messages _ = []"

fun counted :: "source_event \<Rightarrow> bool" where
  "counted (Received src ts payload) = True"
| "counted _ = False"

definition framed :: "byte \<times> u64 \<times> byte list \<Rightarrow> byte list" where
  "framed m = (case m of (ty, ts, payload) \<Rightarrow> frame_header ty ts (length payload) @ payload)"

definition initial_messages :: "u64 \<Rightarrow> byte list option \<Rightarrow> (byte \<times> u64 \<times> byte list) list" where
  "initial_messages ts cursor =
     (case cursor of None \<Rightarrow> [] | Some payload \<Rightarrow> if payload = [] then [] else [(MSG_CURSOR, ts, payload)])"

definition served_messages :: "source_event list \<Rightarrow> (byte \<times> u64 \<times> byte list) list" where
  "served_messages evs = concat (map event_messages (takeWhile (\<lambda>ev. \<not> stops ev) evs))"

section \<open>Writes\<close>

lemma write_all_prefix: "write_all bs as = (sent, r, as') \<Longrightarrow> prefix sent bs"
proof (induction bs as arbitrary: sent r as' rule: write_all.induct)
  case (4 b bs k as)
  show ?case
  proof (cases "k = 0")
    case True
    with 4 show ?thesis by auto
  next
    case False
    obtain s2 r2 a2 where w: "write_all (drop k (b # bs)) as = (s2, r2, a2)"
      by (metis prod_cases3)
    with False 4(1) have "prefix s2 (drop k (b # bs))" by blast
    moreover from 4(2) w False have "sent = take k (b # bs) @ s2" by simp
    ultimately show ?thesis by (metis append_take_drop_id same_prefix_prefix)
  qed
qed auto

lemma write_all_Ok_iff: "write_all bs as = (sent, r, as') \<Longrightarrow> r = Some (Ok ()) \<longleftrightarrow> sent = bs"
proof (induction bs as arbitrary: sent r as' rule: write_all.induct)
  case (4 b bs k as)
  show ?case
  proof (cases "k = 0")
    case True
    with 4 show ?thesis by auto
  next
    case False
    obtain s2 r2 a2 where w: "write_all (drop k (b # bs)) as = (s2, r2, a2)"
      by (metis prod_cases3)
    with False 4(1) have "r2 = Some (Ok ()) \<longleftrightarrow> s2 = drop k (b # bs)" by blast
    moreover from 4(2) w False have "sent = take k (b # bs) @ s2" "r = r2" by simp_all
    ultimately show ?thesis by (metis append_take_drop_id same_append_eq)
  qed
qed auto

text \<open>A writer that keeps taking bytes lets the write finish: every answer takes at least one.\<close>

lemma write_all_finishes:
  "list_all (\<lambda>a. \<exists>k. a = Took (Suc k)) as \<Longrightarrow> length bs \<le> length as
     \<Longrightarrow> fst (snd (write_all bs as)) = Some (Ok ())"
  by (induction bs as rule: write_all.induct) (auto split: prod.splits)

lemma write_loop_write_all:
  "written \<le> length header + length payload
     \<Longrightarrow> write_loop header payload written as = write_all (drop written (header @ payload)) as"
proof (induction header payload written as rule: write_loop.induct)
  case (1 header payload written as)
  have buf: "(if written < length header then drop written header @ payload
              else drop (written - length header) payload) = drop written (header @ payload)"
    by simp
  show ?case
  proof (cases "written < length header + length payload")
    case False
    with 1(2) show ?thesis by (simp add: write_loop.simps [of _ _ _ as])
  next
    case True
    then obtain b bs where d: "drop written (header @ payload) = b # bs"
      by (metis drop_eq_Nil length_append list.exhaust not_le)
    show ?thesis
    proof (cases as)
      case Nil
      with True d show ?thesis unfolding write_loop.simps [of _ _ _ as] by (simp del: drop_append)
    next
      case (Cons a as')
      show ?thesis
      proof (cases a)
        case (WriteBroken e)
        with True d Cons show ?thesis unfolding write_loop.simps [of _ _ _ as] by (simp del: drop_append)
      next
        case (Took k)
        define n where "n = min k (length (b # bs))"
        have nS: "min k (Suc (length bs)) = n" by (simp add: n_def)
        have t: "take n (b # bs) = take k (b # bs)" "drop n (b # bs) = drop k (b # bs)"
          by (simp_all add: n_def min_def)
        have l: "length (b # bs) = length header + length payload - written"
          using d by (metis length_append length_drop)
        have dn: "drop (written + n) (header @ payload) = drop n (b # bs)"
          by (metis add.commute d drop_drop)
        have "written + n \<le> length header + length payload"
          using True l by (simp add: n_def)
        then have ih: "k \<noteq> 0 \<Longrightarrow> write_loop header payload (written + n) as'
            = write_all (drop n (b # bs)) as'"
          using 1(1) [OF True Cons Took refl, unfolded buf d, OF n_def] dn by (simp add: n_def)
        have z: "n = 0 \<longleftrightarrow> k = 0" by (auto simp: n_def min_def)
        show ?thesis
          unfolding write_loop.simps [of _ _ _ as] buf d
          using True Cons Took ih t z by (simp add: nS Let_def del: take_Suc_Cons drop_Suc_Cons)
      qed
    qed
  qed
qed


text \<open>Whatever the socket answers, writing a message behaves as one contiguous write of header and
  payload: the bytes sent are a prefix of them, the call succeeds exactly when all of them were sent,
  and it succeeds on every socket that keeps taking at least one byte per call.\<close>

theorem write_frame_message_contiguous:
  assumes "write_frame_message ty ts payload as = (sent, r, as')"
  shows "write_all (frame_header ty ts (length payload) @ payload) as = (sent, r, as')
    \<and> prefix sent (frame_header ty ts (length payload) @ payload)
    \<and> (r = Some (Ok ()) \<longleftrightarrow> sent = frame_header ty ts (length payload) @ payload)
    \<and> (list_all (\<lambda>a. \<exists>k. a = Took (Suc k)) as \<and> 13 + length payload \<le> length as
        \<longrightarrow> r = Some (Ok ()))"
proof -
  have w: "write_all (frame_header ty ts (length payload) @ payload) as = (sent, r, as')"
    using assms by (simp add: write_frame_message_def write_loop_write_all)
  moreover have "r = Some (Ok ())"
    if "list_all (\<lambda>a. \<exists>k. a = Took (Suc k)) as" "13 + length payload \<le> length as"
    using write_all_finishes [OF that(1), of "frame_header ty ts (length payload) @ payload"] that(2) w
    by (simp add: frame_header_def)
  ultimately show ?thesis using write_all_prefix [OF w] write_all_Ok_iff [OF w] by blast
qed

text \<open>A socket that takes seven bytes, then eight, then whatever is left.\<close>

theorem write_frame_message_contiguous_witness:
  "write_frame_message 1 2 [3, 4, 5] [Took 7, Took 8, Took 9]
     = ([1, 0, 0, 0, 0, 0, 0, 0, 2, 0, 0, 0, 3, 3, 4, 5], Some (Ok ()), [])"
proof -
  obtain sent r as' where
    w: "write_frame_message 1 2 [3, 4, 5] [Took 7, Took 8, Took 9] = (sent, r, as')"
    by (metis prod_cases3)
  have "write_all [1, 0, 0, 0, 0, 0, 0, 0, 2, 0, 0, 0, 3, 3, 4, 5] [Took 7, Took 8, Took 9]
      = ([1, 0, 0, 0, 0, 0, 0, 0, 2, 0, 0, 0, 3, 3, 4, 5], Some (Ok ()), [])"
    by simp
  moreover have "frame_header 1 2 (length [3, 4, 5 :: byte]) = [1, 0, 0, 0, 0, 0, 0, 0, 2, 0, 0, 0, 3]"
    by code_simp
  ultimately show ?thesis
    using write_frame_message_contiguous [OF w] w by (simp del: list.size)
qed

section \<open>The served stream\<close>

lemma client_write_cases:
  assumes "client_write ty ts payload c = (p, c')"
  obtains sent where "fc_sent c' = fc_sent c @ sent" "fc_frames_sent c' = fc_frames_sent c"
    "prefix sent (framed (ty, ts, payload))" "p = Serving \<longleftrightarrow> sent = framed (ty, ts, payload)"
proof -
  obtain sent r as where
    w: "write_all (frame_header ty ts (length payload) @ payload) (fc_answers c) = (sent, r, as)"
    by (metis prod_cases3)
  have "p = Serving \<longleftrightarrow> r = Some (Ok ())" "c' = c\<lparr>fc_sent := fc_sent c @ sent, fc_answers := as\<rparr>"
    using assms w
    by (auto simp: client_write_def write_frame_message_def write_loop_write_all
        split: option.splits sum.splits)
  then show thesis
    using that [of sent] write_all_prefix [OF w] write_all_Ok_iff [OF w] by (simp add: framed_def)
qed

lemma serve_event_cases:
  assumes "serve_event ev c = (p, c')"
  obtains sent where "fc_sent c' = fc_sent c @ sent" "prefix sent (concat (map framed (event_messages ev)))"
    "p = Serving \<longleftrightarrow> \<not> stops ev \<and> sent = concat (map framed (event_messages ev))"
    "p = Serving \<longrightarrow> fc_frames_sent c' = fc_frames_sent c + (if counted ev then 1 else 0)"
    "stops ev \<longrightarrow> sent = []"
proof (cases ev)
  case (CursorChanged ts q)
  show thesis
  proof (cases q)
    case None
    with assms CursorChanged show thesis using that [of "[]"] by simp
  next
    case (Some payload)
    with assms CursorChanged have "client_write MSG_CURSOR ts payload c = (p, c')" by simp
    then show thesis
      by (rule client_write_cases) (use CursorChanged Some that in simp)
  qed
next
  case (Received src ts payload)
  obtain p1 c1 where w: "client_write (message_type_of src) ts payload c = (p1, c1)"
    by (metis prod.exhaust)
  then show thesis
    by (rule client_write_cases)
      (use w Received assms that in \<open>auto split: client_phase.splits\<close>)
qed (use assms that [of "[]"] in auto)

lemma serve_loop_stream:
  assumes "serve_loop evs c = (p, c')"
  shows "\<exists>sent. fc_sent c' = fc_sent c @ sent
      \<and> prefix sent (concat (map framed (served_messages evs)))
      \<and> (p = Serving \<longleftrightarrow> list_all (\<lambda>ev. \<not> stops ev) evs
           \<and> sent = concat (map framed (served_messages evs)))
      \<and> (p = Serving \<longrightarrow>
           fc_frames_sent c' = fc_frames_sent c + of_nat (length (filter counted evs)))"
  using assms
proof (induction evs arbitrary: c)
  case Nil
  then show ?case by (simp add: served_messages_def)
next
  case (Cons ev evs)
  obtain p1 c1 where e: "serve_event ev c = (p1, c1)" by (metis prod.exhaust)
  obtain s1 where s1: "fc_sent c1 = fc_sent c @ s1"
    "prefix s1 (concat (map framed (event_messages ev)))"
    "p1 = Serving \<longleftrightarrow> \<not> stops ev \<and> s1 = concat (map framed (event_messages ev))"
    "p1 = Serving \<longrightarrow> fc_frames_sent c1 = fc_frames_sent c + (if counted ev then 1 else 0)"
    "stops ev \<longrightarrow> s1 = []"
    by (rule serve_event_cases [OF e])
  show ?case
  proof (cases "p1 = Serving")
    case True
    with Cons.prems e have "serve_loop evs c1 = (p, c')" by simp
    from Cons.IH [OF this] True s1 show ?thesis
      by (auto simp: served_messages_def intro!: exI [of _ "s1 @ s" for s])
  next
    case False
    with Cons.prems e have "p = p1" "c' = c1" by (simp_all split: client_phase.splits)
    with False s1 show ?thesis
      by (auto simp: served_messages_def intro!: exI [of _ s1] intro: prefix_prefix)
  qed
qed

text \<open>C12: The bytes a client of the frame server receives are always a prefix of the framed messages: the
  cursor at connect time, then one message per cursor change and per packet of the four channels,
  in the order they were delivered, up to the first event that ends the task.  While the task
  keeps serving, none of those bytes is missing and the counter holds the number of packets.\<close>

theorem serve_client_stream:
  "case serve_client cursor_ts cursor evs as of (p, c) \<Rightarrow>
     prefix (fc_sent c) (concat (map framed (initial_messages cursor_ts cursor @ served_messages evs)))
     \<and> (if p = Serving
        then fc_sent c = concat (map framed (initial_messages cursor_ts cursor @ served_messages evs))
             \<and> list_all (\<lambda>ev. \<not> stops ev) evs
             \<and> fc_frames_sent c = of_nat (length (filter counted evs))
        else True)"
proof -
  obtain p c where pc: "serve_client cursor_ts cursor evs as = (p, c)" by (metis prod.exhaust)
  define c0 where "c0 = \<lparr>fc_sent = [], fc_answers = as, fc_frames_sent = 0\<rparr>"
  show ?thesis
  proof (cases "cursor = None \<or> cursor = Some []")
    case True
    with pc have "serve_loop evs c0 = (p, c)" by (auto simp: serve_client_def c0_def)
    from serve_loop_stream [OF this] True pc show ?thesis
      by (auto simp: c0_def initial_messages_def)
  next
    case False
    then obtain payload where cur: "cursor = Some payload" "payload \<noteq> []" by auto
    obtain p1 c1 where w: "client_write MSG_CURSOR cursor_ts payload c0 = (p1, c1)"
      by (metis prod.exhaust)
    obtain s1 where s1: "fc_sent c1 = fc_sent c0 @ s1" "fc_frames_sent c1 = fc_frames_sent c0"
      "prefix s1 (framed (MSG_CURSOR, cursor_ts, payload))"
      "p1 = Serving \<longleftrightarrow> s1 = framed (MSG_CURSOR, cursor_ts, payload)"
      by (rule client_write_cases [OF w])
    show ?thesis
    proof (cases "p1 = Serving")
      case True
      with pc w cur have "serve_loop evs c1 = (p, c)" by (simp add: serve_client_def c0_def)
      from serve_loop_stream [OF this] True s1 cur pc show ?thesis
        by (auto simp: c0_def initial_messages_def)
    next
      case False
      with pc w cur have "p = p1" "c = c1"
        by (simp_all add: serve_client_def c0_def split: client_phase.splits)
      with False s1 cur pc show ?thesis
        by (simp add: c0_def initial_messages_def prefix_prefix)
    qed
  qed
qed

end
