(* ===== verification/Quic_Frames.thy ===== *)
theory Quic_Frames
  imports Frame_Server
begin

text \<open>
  The QUIC frame server of the agent, \<open>flux-server/src/quic_frames.rs\<close>: one unidirectional stream per
  message, stale video frames reset when newer ones queue up, and rate-limited keyframe requests.

  Times are milliseconds.  The task of one client (\<open>handle_connection\<close> with \<open>send_frame_message\<close>
  inlined at its \<open>await\<close> points) is a step function on the record \<open>quic_conn\<close>; the environment chooses
  which branch of a \<open>select!\<close> is ready and what the transport answers.  The encoder's broadcast
  channel is the queue of items this receiver has not yet taken, where \<open>RxLagged n\<close> stands for \<open>n\<close>
  items that were overwritten.  Counters of frames and of durations are natural numbers, and the
  text rendering of the timing summary and the metrics are left out.
\<close>

section \<open>Send timings\<close>

definition FRAME_RESET_BACKLOG_THRESHOLD :: nat where "FRAME_RESET_BACKLOG_THRESHOLD = 3"
definition FRAME_RESET_IDR_COOLDOWN :: nat where "FRAME_RESET_IDR_COOLDOWN = 500"
definition SEND_TIMING_INTERVAL :: nat where "SEND_TIMING_INTERVAL = 5 * 1000"

record send_timings =
  tm_frames :: nat
  tm_lagged :: nat
  tm_sum :: nat
  tm_max :: nat
  tm_keyframes :: nat
  tm_keyframe_max :: nat
  tm_keyframe_bytes_max :: nat
  tm_window_started :: "nat option"

definition send_timings_default :: send_timings where
  "send_timings_default =
     \<lparr>tm_frames = 0, tm_lagged = 0, tm_sum = 0, tm_max = 0, tm_keyframes = 0, tm_keyframe_max = 0,
      tm_keyframe_bytes_max = 0, tm_window_started = None\<rparr>"

definition observe_send :: "nat \<Rightarrow> nat \<Rightarrow> bool \<Rightarrow> send_timings \<Rightarrow> send_timings" where
  "observe_send elapsed bytes is_idr t =
     (let t = t\<lparr>tm_frames := tm_frames t + 1, tm_sum := tm_sum t + elapsed,
                tm_max := max (tm_max t) elapsed\<rparr>
      in if is_idr
         then t\<lparr>tm_keyframes := tm_keyframes t + 1,
                tm_keyframe_max := max (tm_keyframe_max t) elapsed,
                tm_keyframe_bytes_max := max (tm_keyframe_bytes_max t) bytes\<rparr>
         else t)"

definition record_lag :: "nat \<Rightarrow> send_timings \<Rightarrow> send_timings" where
  "record_lag n t = t\<lparr>tm_lagged := tm_lagged t + n\<rparr>"

text \<open>The summary is the accumulator it is rendered from.\<close>

definition take_due :: "nat \<Rightarrow> send_timings \<Rightarrow> send_timings option \<times> send_timings" where
  "take_due now t =
     (let started = (case tm_window_started t of Some s \<Rightarrow> s | None \<Rightarrow> now);
          t = t\<lparr>tm_window_started := Some started\<rparr>
      in if now - started < SEND_TIMING_INTERVAL \<or> tm_frames t = 0 then (None, t)
         else (Some t, send_timings_default\<lparr>tm_window_started := Some now\<rparr>))"

section \<open>Reset policy\<close>

record frame_reset_policy =
  last_recovery :: "nat option"

definition cooling_down :: "nat \<Rightarrow> frame_reset_policy \<Rightarrow> bool" where
  "cooling_down now p =
     (case last_recovery p of None \<Rightarrow> False | Some t \<Rightarrow> now - t < FRAME_RESET_IDR_COOLDOWN)"

definition should_reset ::
  "nat \<Rightarrow> bool \<Rightarrow> nat \<Rightarrow> frame_reset_policy \<Rightarrow> bool \<times> frame_reset_policy" where
  "should_reset backlog is_idr now p =
     (if is_idr \<or> backlog < FRAME_RESET_BACKLOG_THRESHOLD then (False, p)
      else if cooling_down now p then (False, p)
      else (True, p\<lparr>last_recovery := Some now\<rparr>))"

definition should_request_idr :: "nat \<Rightarrow> frame_reset_policy \<Rightarrow> bool \<times> frame_reset_policy" where
  "should_request_idr now p =
     (if cooling_down now p then (False, p) else (True, p\<lparr>last_recovery := Some now\<rparr>))"

section \<open>Keyframe detection\<close>

definition starts_with :: "byte list \<Rightarrow> byte list \<Rightarrow> bool" where
  "starts_with pat xs \<longleftrightarrow> take (length pat) xs = pat"

function idr_from :: "byte list \<Rightarrow> nat \<Rightarrow> bool" where
  "idr_from bytes index =
     (if index + 3 < length bytes
      then if starts_with [0, 0, 0, 1] (drop index bytes)
           then (if index + 4 < length bytes \<and> and (bytes ! (index + 4)) 0x1f = 5 then True
                 else idr_from bytes (index + 4))
           else if starts_with [0, 0, 1] (drop index bytes)
           then (if index + 3 < length bytes \<and> and (bytes ! (index + 3)) 0x1f = 5 then True
                 else idr_from bytes (index + 3))
           else idr_from bytes (index + 1)
      else False)"
  by pat_completeness auto
termination
  by (relation "measure (\<lambda>(bytes, index). length bytes - index)") auto

declare idr_from.simps [simp del]

definition is_idr_frame :: "byte list \<Rightarrow> bool" where
  "is_idr_frame bytes = idr_from bytes 0"

section \<open>Streams\<close>

datatype stream_end = Finished | WasReset | Abandoned

text \<open>A stream that is no longer written: the message it was opened for, the bytes handed to the
  transport and how it ended.\<close>

record uni_stream =
  us_msg :: "byte \<times> u64 \<times> byte list"
  us_bytes :: "byte list"
  us_end :: stream_end

text \<open>\<open>send_message\<close>: None while the transport has not answered.\<close>

definition send_message ::
  "bool \<Rightarrow> byte \<times> u64 \<times> byte list \<Rightarrow> write_answer list \<Rightarrow> (bool \<times> uni_stream list) option" where
  "send_message opens msg as =
     (case msg of (ty, ts, payload) \<Rightarrow>
      if \<not> opens then Some (False, [])
      else case write_all (frame_header ty ts (length payload)) as of
        (sent, None, as') \<Rightarrow> None
      | (sent, Some (Inl e), as') \<Rightarrow>
          Some (False, [\<lparr>us_msg = msg, us_bytes = sent, us_end = Abandoned\<rparr>])
      | (sent, Some (Inr _), as') \<Rightarrow>
          (case write_all payload as' of
             (sent', None, as'') \<Rightarrow> None
           | (sent', Some (Inl e), as'') \<Rightarrow>
               Some (False, [\<lparr>us_msg = msg, us_bytes = sent @ sent', us_end = Abandoned\<rparr>])
           | (sent', Some (Inr _), as'') \<Rightarrow>
               Some (True, [\<lparr>us_msg = msg, us_bytes = sent @ sent', us_end = Finished\<rparr>])))"

section \<open>The connection task\<close>

type_synonym frame = "u64 \<times> byte list"

datatype rx_item = RxFrame frame | RxLagged nat

datatype frame_send_result = Complete | Superseded frame bool bool | Disconnected

record frame_send =
  fs_frame :: frame
  fs_bytes :: "byte list"
  fs_offset :: nat
  fs_pending :: "frame option"
  fs_backlog :: nat
  fs_dropped :: bool
  fs_started :: nat

datatype quic_pc = QLoop | QStart frame nat | QSending frame_send | QEnded

record quic_conn =
  qc_pc :: quic_pc
  qc_rx :: "rx_item list"
  qc_rx_closed :: bool
  qc_policy :: frame_reset_policy
  qc_timings :: send_timings
  qc_pending :: "frame option"
  qc_streams :: "uni_stream list"
  qc_idr :: "nat list"

text \<open>\<open>Publish\<close> and \<open>CloseRx\<close> are the encoder's side of the channel; the others let the task advance:
  the receive branch is ready, the other branches deliver an event, a stream opens, or a write is
  answered.\<close>

datatype quic_env =
  Publish rx_item
| CloseRx
| PollRx
| SideEvent source_event bool "write_answer list"
| OpenStream bool "write_answer list"
| WriteAnswered write_answer

definition video_msg :: "frame \<Rightarrow> byte \<times> u64 \<times> byte list" where
  "video_msg f = (MSG_VIDEO, fst f, snd f)"

definition request_idr :: "nat \<Rightarrow> quic_conn \<Rightarrow> quic_conn" where
  "request_idr now c =
     (case should_request_idr now (qc_policy c) of
        (ask, p) \<Rightarrow> c\<lparr>qc_policy := p, qc_idr := qc_idr c @ (if ask then [now] else [])\<rparr>)"

text \<open>Return of \<open>send_frame_message\<close>: the stream ends, the caller records the timing and reacts to the
  result.\<close>

definition send_done :: "nat \<Rightarrow> frame_send \<Rightarrow> stream_end \<Rightarrow> frame_send_result \<Rightarrow> quic_conn \<Rightarrow> quic_conn" where
  "send_done now fs how result c =
     (let c = c\<lparr>qc_streams := qc_streams c
                  @ [\<lparr>us_msg = video_msg (fs_frame fs), us_bytes = fs_bytes fs, us_end = how\<rparr>],
                qc_timings := observe_send (now - fs_started fs) (length (snd (fs_frame fs)))
                                (is_idr_frame (snd (fs_frame fs))) (qc_timings c)\<rparr>
      in case result of
           Complete \<Rightarrow> c\<lparr>qc_pc := QLoop\<rparr>
         | Superseded f needs_recovery recovery_requested \<Rightarrow>
             (if needs_recovery \<and> \<not> recovery_requested then request_idr now c else c)
               \<lparr>qc_pending := Some f, qc_pc := QLoop\<rparr>
         | Disconnected \<Rightarrow> c\<lparr>qc_pc := QEnded\<rparr>)"

fun drain :: "rx_item list \<Rightarrow> frame_send \<Rightarrow> frame_send" where
  "drain [] fs = fs"
| "drain (RxFrame f # q) fs =
     drain q (fs\<lparr>fs_pending := Some f, fs_backlog := fs_backlog fs + 1, fs_dropped := True\<rparr>)"
| "drain (RxLagged n # q) fs =
     drain q (fs\<lparr>fs_backlog := fs_backlog fs + n, fs_dropped := True\<rparr>)"

definition poll_while_sending :: "nat \<Rightarrow> frame_send \<Rightarrow> quic_conn \<Rightarrow> quic_conn option" where
  "poll_while_sending now fs c =
     (case qc_rx c of
        [] \<Rightarrow> if qc_rx_closed c then Some (send_done now fs Abandoned Disconnected c) else None
      | RxFrame f # q \<Rightarrow>
          let fs = drain q (fs\<lparr>fs_pending := Some f, fs_backlog := fs_backlog fs + 1\<rparr>);
              c = c\<lparr>qc_rx := []\<rparr>
          in if qc_rx_closed c then Some (send_done now fs Abandoned Disconnected c)
             else (case should_reset (fs_backlog fs) False now (qc_policy c) of
                 (True, p) \<Rightarrow>
                   Some (send_done now fs WasReset (Superseded (the (fs_pending fs)) True True)
                           (c\<lparr>qc_policy := p, qc_idr := qc_idr c @ [now]\<rparr>))
               | (False, p) \<Rightarrow> Some (c\<lparr>qc_policy := p, qc_pc := QSending fs\<rparr>))
      | RxLagged n # q \<Rightarrow>
          Some (request_idr now (c\<lparr>qc_rx := q,
                  qc_pc := QSending (fs\<lparr>fs_backlog := fs_backlog fs + n, fs_dropped := True\<rparr>)\<rparr>)))"

definition write_answered :: "nat \<Rightarrow> write_answer \<Rightarrow> frame_send \<Rightarrow> quic_conn \<Rightarrow> quic_conn" where
  "write_answered now a fs c =
     (let rest = drop (fs_offset fs) (snd (fs_frame fs)) in
      case a of
        WriteBroken e \<Rightarrow> send_done now fs Abandoned Disconnected c
      | Took k \<Rightarrow>
          let written = min k (length rest) in
          if written = 0 then send_done now fs Abandoned Disconnected c
          else c\<lparr>qc_pc := QSending (fs\<lparr>fs_bytes := fs_bytes fs @ take written rest,
                                       fs_offset := fs_offset fs + written\<rparr>)\<rparr>)"

text \<open>The end of the write loop.\<close>

definition finish_frame :: "nat \<Rightarrow> frame_send \<Rightarrow> quic_conn \<Rightarrow> quic_conn" where
  "finish_frame now fs c =
     send_done now fs Finished
       (case fs_pending fs of None \<Rightarrow> Complete | Some f \<Rightarrow> Superseded f (fs_dropped fs) False) c"

definition loop_top :: "nat \<Rightarrow> quic_conn \<Rightarrow> quic_conn" where
  "loop_top now c = c\<lparr>qc_timings := snd (take_due now (qc_timings c))\<rparr>"

definition after_send :: "quic_conn \<Rightarrow> bool \<times> uni_stream list \<Rightarrow> quic_conn" where
  "after_send c sent =
     c\<lparr>qc_streams := qc_streams c @ snd sent, qc_pc := if fst sent then QLoop else QEnded\<rparr>"

definition side_event ::
  "source_event \<Rightarrow> bool \<Rightarrow> write_answer list \<Rightarrow> quic_conn \<Rightarrow> quic_conn option" where
  "side_event ev opens as c =
     (case ev of
        CursorChanged ts None \<Rightarrow> Some c
      | CursorClosed \<Rightarrow> Some (c\<lparr>qc_pc := QEnded\<rparr>)
      | CursorChanged ts (Some payload) \<Rightarrow>
          map_option (after_send c) (send_message opens (MSG_CURSOR, ts, payload) as)
      | Received src ts payload \<Rightarrow>
          if src = VideoSource then None
          else map_option (after_send c) (send_message opens (message_type_of src, ts, payload) as)
      | Lagged src \<Rightarrow> if src = VideoSource then None else Some c
      | SourceClosed src \<Rightarrow> if src = VideoSource then None else Some (c\<lparr>qc_pc := QEnded\<rparr>)
      | ReaderEnded \<Rightarrow> None)"

definition quic_loop :: "nat \<Rightarrow> quic_env \<Rightarrow> quic_conn \<Rightarrow> quic_conn option" where
  "quic_loop now ev c0 =
     (let c = loop_top now c0 in
      case qc_pending c of
        Some f \<Rightarrow> Some (c\<lparr>qc_pending := None, qc_pc := QStart f now\<rparr>)
      | None \<Rightarrow>
          (case ev of
             PollRx \<Rightarrow>
               (case qc_rx c of
                  [] \<Rightarrow> if qc_rx_closed c then Some (c\<lparr>qc_pc := QEnded\<rparr>) else None
                | RxFrame f # q \<Rightarrow> Some (c\<lparr>qc_rx := q, qc_pc := QStart f now\<rparr>)
                | RxLagged n # q \<Rightarrow> Some (c\<lparr>qc_rx := q, qc_timings := record_lag n (qc_timings c)\<rparr>))
           | SideEvent e opens as \<Rightarrow> side_event e opens as c
           | _ \<Rightarrow> None))"

definition open_frame :: "frame \<Rightarrow> nat \<Rightarrow> nat \<Rightarrow> bool \<Rightarrow> write_answer list \<Rightarrow> quic_conn \<Rightarrow> quic_conn option" where
  "open_frame f started now opens as c =
     (let fs = \<lparr>fs_frame = f, fs_bytes = [], fs_offset = 0, fs_pending = None, fs_backlog = 0,
                fs_dropped = False, fs_started = started\<rparr>
      in if \<not> opens
         then Some (c\<lparr>qc_pc := QEnded,
                     qc_timings := observe_send (now - started) (length (snd f)) (is_idr_frame (snd f)) (qc_timings c)\<rparr>)
         else case write_all (frame_header MSG_VIDEO (fst f) (length (snd f))) as of
             (sent, None, as') \<Rightarrow> None
           | (sent, Some (Inl e), as') \<Rightarrow> Some (send_done now (fs\<lparr>fs_bytes := sent\<rparr>) Abandoned Disconnected c)
           | (sent, Some (Inr _), as') \<Rightarrow> Some (c\<lparr>qc_pc := QSending (fs\<lparr>fs_bytes := sent\<rparr>)\<rparr>))"

definition quic_task :: "nat \<Rightarrow> quic_env \<Rightarrow> quic_conn \<Rightarrow> quic_conn option" where
  "quic_task now ev c =
     (case qc_pc c of
        QEnded \<Rightarrow> None
      | QLoop \<Rightarrow> quic_loop now ev c
      | QStart f started \<Rightarrow>
          (case ev of OpenStream opens as \<Rightarrow> open_frame f started now opens as c | _ \<Rightarrow> None)
      | QSending fs \<Rightarrow>
          if fs_offset fs < length (snd (fs_frame fs))
          then (case ev of
                  WriteAnswered a \<Rightarrow> Some (write_answered now a fs c)
                | PollRx \<Rightarrow> if is_idr_frame (snd (fs_frame fs)) then None
                             else poll_while_sending now fs c
                | _ \<Rightarrow> None)
          else Some (finish_frame now fs c))"

fun quic_step :: "nat \<Rightarrow> quic_env \<Rightarrow> quic_conn \<Rightarrow> quic_conn option" where
  "quic_step now (Publish item) c =
     (if qc_rx_closed c then None else Some (c\<lparr>qc_rx := qc_rx c @ [item]\<rparr>))"
| "quic_step now CloseRx c = Some (c\<lparr>qc_rx_closed := True\<rparr>)"
| "quic_step now ev c = quic_task now ev c"

definition quic_init :: "rx_item list \<Rightarrow> quic_conn" where
  "quic_init queued =
     \<lparr>qc_pc = QLoop, qc_rx = queued, qc_rx_closed = False, qc_policy = \<lparr>last_recovery = None\<rparr>,
      qc_timings = send_timings_default, qc_pending = None, qc_streams = [], qc_idr = []\<rparr>"

definition quic_start ::
  "rx_item list \<Rightarrow> u64 \<Rightarrow> byte list option \<Rightarrow> bool \<Rightarrow> write_answer list \<Rightarrow> quic_conn option" where
  "quic_start queued cursor_ts cursor opens as =
     (case cursor of
        None \<Rightarrow> Some (quic_init queued)
      | Some payload \<Rightarrow>
          map_option (after_send (quic_init queued))
            (send_message opens (MSG_CURSOR, cursor_ts, payload) as))"

fun quic_run :: "(nat \<times> quic_env) list \<Rightarrow> quic_conn \<Rightarrow> quic_conn option" where
  "quic_run [] c = Some c"
| "quic_run ((now, ev) # evs) c =
     (case quic_step now ev c of None \<Rightarrow> None | Some c' \<Rightarrow> quic_run evs c')"

section \<open>Keyframes are found\<close>

text \<open>An IDR slice in an Annex B byte stream: a start code followed by a NAL unit of type 5.\<close>

definition idr_at :: "byte list \<Rightarrow> nat \<Rightarrow> bool" where
  "idr_at bytes j \<longleftrightarrow>
     j + 3 < length bytes \<and> bytes ! j = 0 \<and> bytes ! (j + 1) = 0 \<and> bytes ! (j + 2) = 1
     \<and> and (bytes ! (j + 3)) 0x1f = 5"

lemma drop_four:
  "i + 3 < length xs
     \<Longrightarrow> drop i xs = xs ! i # xs ! (i + 1) # xs ! (i + 2) # xs ! (i + 3) # drop (i + 4) xs"
  using Cons_nth_drop_Suc [of i xs] Cons_nth_drop_Suc [of "i + 1" xs] Cons_nth_drop_Suc [of "i + 2" xs]
    Cons_nth_drop_Suc [of "i + 3" xs]
  by (simp add: numeral_3_eq_3 numeral_Bit0 [of "num.Bit0 num.One"])

lemma ex_from_step: "(\<exists>j\<ge>i. P j) \<longleftrightarrow> P i \<or> (\<exists>j\<ge>i + (1::nat). P j)"
proof
  assume "\<exists>j\<ge>i. P j"
  then obtain j where "i \<le> j" "P j" by blast
  then show "P i \<or> (\<exists>j\<ge>i + 1. P j)" by (cases "j = i") (auto intro!: exI [of _ j])
next
  assume "P i \<or> (\<exists>j\<ge>i + 1. P j)"
  then show "\<exists>j\<ge>i. P j" by (auto dest: Suc_leD)
qed

lemma idr_from_iff: "idr_from bytes i \<longleftrightarrow> (\<exists>j\<ge>i. idr_at bytes j)"
proof (induction bytes i rule: idr_from.induct)
  case (1 bytes i)
  show ?case
  proof (cases "i + 3 < length bytes")
    case False
    then show ?thesis by (auto simp: idr_from.simps [of _ i] idr_at_def)
  next
    case True
    note d = drop_four [OF True]
    have s: "(\<exists>j\<ge>i. idr_at bytes j) \<longleftrightarrow> idr_at bytes i \<or> idr_at bytes (i + 1) \<or> idr_at bytes (i + 2)
        \<or> (\<exists>j\<ge>i + 3. idr_at bytes j)"
      using ex_from_step [of i "idr_at bytes"] ex_from_step [of "i + 1" "idr_at bytes"]
        ex_from_step [of "i + 2" "idr_at bytes"]
      by (simp add: add.assoc del: One_nat_def add_2_eq_Suc' add_2_eq_Suc)
    have s4: "(\<exists>j\<ge>i + 3. idr_at bytes j) \<longleftrightarrow> idr_at bytes (i + 3) \<or> (\<exists>j\<ge>i + 4. idr_at bytes j)"
      using ex_from_step [of "i + 3" "idr_at bytes"] by (simp add: add.assoc del: One_nat_def)
    show ?thesis
    proof (cases "starts_with [0, 0, 0, 1] (drop i bytes)")
      case four: True
      then have b: "bytes ! i = 0" "bytes ! (i + 1) = 0" "bytes ! (i + 2) = 0" "bytes ! (i + 3) = 1"
        by (simp_all add: starts_with_def d)
      then have none: "\<not> idr_at bytes i" "\<not> idr_at bytes (i + 2)" "\<not> idr_at bytes (i + 3)"
        and one: "idr_at bytes (i + 1) \<longleftrightarrow> i + 4 < length bytes \<and> and (bytes ! (i + 4)) 0x1f = 5"
        by (simp_all add: idr_at_def add.assoc del: One_nat_def add_2_eq_Suc add_2_eq_Suc')
      have "idr_from bytes i \<longleftrightarrow> idr_at bytes (i + 1) \<or> (\<exists>j\<ge>i + 4. idr_at bytes j)"
        unfolding one idr_from.simps [of _ i] using 1(1) [OF True four] True four by simp blast
      with s s4 none show ?thesis by blast
    next
      case nfour: False
      show ?thesis
      proof (cases "starts_with [0, 0, 1] (drop i bytes)")
        case three: True
        then have b: "bytes ! i = 0" "bytes ! (i + 1) = 0" "bytes ! (i + 2) = 1"
          by (simp_all add: starts_with_def d)
        then have none: "\<not> idr_at bytes (i + 1)" "\<not> idr_at bytes (i + 2)"
          and one: "idr_at bytes i \<longleftrightarrow> i + 3 < length bytes \<and> and (bytes ! (i + 3)) 0x1f = 5"
          by (simp_all add: idr_at_def add.assoc del: One_nat_def add_2_eq_Suc add_2_eq_Suc')
        have "idr_from bytes i \<longleftrightarrow> idr_at bytes i \<or> (\<exists>j\<ge>i + 3. idr_at bytes j)"
          unfolding one idr_from.simps [of _ i] using 1(2) [OF True nfour three] True nfour three by simp
        with s none show ?thesis by blast
      next
        case False
        then have "\<not> idr_at bytes i" by (auto simp: starts_with_def d idr_at_def)
        with 1(3) [OF True nfour False] True nfour False show ?thesis
          using ex_from_step [of i "idr_at bytes"] by (simp add: idr_from.simps [of _ i])
      qed
    qed
  qed
qed

text \<open>The scan for a keyframe, which skips over start codes, finds one exactly when some start code
  in the access unit is followed by a NAL unit of type 5.\<close>

theorem is_idr_frame_iff:
  "is_idr_frame bytes \<longleftrightarrow>
     (\<exists>j. j + 3 < length bytes \<and> bytes ! j = 0 \<and> bytes ! (j + 1) = 0 \<and> bytes ! (j + 2) = 1
        \<and> and (bytes ! (j + 3)) 0x1f = 5)"
  by (simp add: is_idr_frame_def idr_from_iff idr_at_def)

section \<open>What reaches the client\<close>

definition stream_ok :: "uni_stream \<Rightarrow> bool" where
  "stream_ok us =
     (case us_end us of
        Finished \<Rightarrow> us_bytes us = framed (us_msg us)
      | WasReset \<Rightarrow> prefix (us_bytes us) (framed (us_msg us)) \<and> fst (us_msg us) = MSG_VIDEO
          \<and> \<not> is_idr_frame (snd (snd (us_msg us)))
      | Abandoned \<Rightarrow> prefix (us_bytes us) (framed (us_msg us)))"

definition video_frames :: "uni_stream list \<Rightarrow> frame list" where
  "video_frames us = map (\<lambda>u. snd (us_msg u)) (filter (\<lambda>u. fst (us_msg u) = MSG_VIDEO) us)"

fun rx_frames :: "rx_item list \<Rightarrow> frame list" where
  "rx_frames [] = []"
| "rx_frames (RxFrame f # q) = f # rx_frames q"
| "rx_frames (RxLagged n # q) = rx_frames q"

fun env_frames :: "quic_env \<Rightarrow> frame list" where
  "env_frames (Publish item) = rx_frames [item]"
| "env_frames ev = []"

definition published :: "(nat \<times> quic_env) list \<Rightarrow> frame list" where
  "published evs = concat (map (\<lambda>e. env_frames (snd e)) evs)"

definition opt_list :: "'a option \<Rightarrow> 'a list" where
  "opt_list x = (case x of None \<Rightarrow> [] | Some a \<Rightarrow> [a])"

fun pc_frames :: "quic_pc \<Rightarrow> frame list" where
  "pc_frames (QStart f started) = [f]"
| "pc_frames (QSending fs) = fs_frame fs # opt_list (fs_pending fs)"
| "pc_frames _ = []"

definition send_ok :: "frame_send \<Rightarrow> bool" where
  "send_ok fs \<longleftrightarrow> fs_offset fs \<le> length (snd (fs_frame fs))
     \<and> fs_bytes fs = frame_header MSG_VIDEO (fst (fs_frame fs)) (length (snd (fs_frame fs)))
                      @ take (fs_offset fs) (snd (fs_frame fs))"

fun pc_ok :: "quic_pc \<Rightarrow> frame option \<Rightarrow> bool" where
  "pc_ok (QSending fs) waiting \<longleftrightarrow> send_ok fs \<and> waiting = None"
| "pc_ok QLoop waiting \<longleftrightarrow> True"
| "pc_ok _ waiting \<longleftrightarrow> waiting = None"

definition stream_inv :: "frame list \<Rightarrow> quic_conn \<Rightarrow> bool" where
  "stream_inv h c \<longleftrightarrow> list_all stream_ok (qc_streams c) \<and> pc_ok (qc_pc c) (qc_pending c)
     \<and> subseq (video_frames (qc_streams c) @ pc_frames (qc_pc c) @ opt_list (qc_pending c)
               @ rx_frames (qc_rx c)) h"

lemma opt_list_simps [simp]: "opt_list None = []" "opt_list (Some a) = [a]"
  by (simp_all add: opt_list_def)

lemma video_frames_append [simp]: "video_frames (us @ vs) = video_frames us @ video_frames vs"
  by (simp add: video_frames_def)

lemma rx_frames_append [simp]: "rx_frames (p @ q) = rx_frames p @ rx_frames q"
  by (induction p rule: rx_frames.induct) auto

lemma send_message_streams:
  assumes "send_message opens msg as = Some (ok, us)"
  shows "list_all (\<lambda>u. stream_ok u \<and> us_end u \<noteq> WasReset \<and> us_msg u = msg) us"
proof -
  obtain ty ts payload where m: "msg = (ty, ts, payload)" by (metis prod_cases3)
  obtain s r a where w: "write_all (frame_header ty ts (length payload)) as = (s, r, a)"
    by (metis prod_cases3)
  obtain s' r' a' where w': "write_all payload a = (s', r', a')" by (metis prod_cases3)
  show ?thesis
    using assms m w w' write_all_prefix [OF w] write_all_Ok_iff [OF w]
      write_all_prefix [OF w'] write_all_Ok_iff [OF w']
    by (auto simp: send_message_def stream_ok_def framed_def prefix_prefix
        split: if_splits option.splits sum.splits)
qed

lemma drain_fields [simp]:
  "fs_frame (drain q fs) = fs_frame fs" "fs_bytes (drain q fs) = fs_bytes fs"
  "fs_offset (drain q fs) = fs_offset fs"
  by (induction q fs rule: drain.induct) simp_all

lemma drain_pending: "subseq (opt_list (fs_pending (drain q fs))) (opt_list (fs_pending fs) @ rx_frames q)"
proof (induction q fs rule: drain.induct)
  case (2 f q fs)
  then have "subseq (opt_list (fs_pending (drain (RxFrame f # q) fs))) (f # rx_frames q)" by simp
  then show ?case by (simp add: list_emb_append2)
qed simp_all

lemma drain_pending_Some: "fs_pending fs \<noteq> None \<Longrightarrow> fs_pending (drain q fs) \<noteq> None"
  by (induction q fs rule: drain.induct) simp_all

subsection \<open>Streams\<close>

lemma request_idr_fields [simp]:
  "qc_pc (request_idr now c) = qc_pc c" "qc_rx (request_idr now c) = qc_rx c"
  "qc_pending (request_idr now c) = qc_pending c" "qc_streams (request_idr now c) = qc_streams c"
  "qc_rx_closed (request_idr now c) = qc_rx_closed c"
  by (simp_all add: request_idr_def split: prod.splits)

lemma video_frames_video [simp]:
  "video_frames [\<lparr>us_msg = video_msg f, us_bytes = b, us_end = e\<rparr>] = [f]"
  by (simp add: video_frames_def video_msg_def)

lemma video_frames_other [simp]:
  "list_all (\<lambda>u. us_msg u = msg) us \<Longrightarrow> fst msg \<noteq> MSG_VIDEO \<Longrightarrow> video_frames us = []"
  by (induction us) (auto simp: video_frames_def)

lemma subseq_drop_mid: "subseq (xs @ ys @ zs) h \<Longrightarrow> subseq (xs @ zs) h"
  by (meson list_emb_append_mono subseq_order.trans subseq_order.refl list_emb_append2)

lemma subseq_replace_mid: "subseq (xs @ ys @ zs) h \<Longrightarrow> subseq ys' ys \<Longrightarrow> subseq (xs @ ys' @ zs) h"
  by (meson list_emb_append_mono subseq_order.trans subseq_order.refl)

text \<open>What \<open>send_done\<close> leaves in flight: nothing for a finished or broken send, the newer frame for a
  superseded one.\<close>

definition result_frames :: "frame_send_result \<Rightarrow> frame list" where
  "result_frames r = (case r of Superseded f needs requested \<Rightarrow> [f] | _ \<Rightarrow> [])"

lemma stream_inv_send_done:
  assumes "list_all stream_ok (qc_streams c)" and "qc_pending c = None"
    and "stream_ok \<lparr>us_msg = video_msg (fs_frame fs), us_bytes = fs_bytes fs, us_end = how\<rparr>"
    and "subseq (video_frames (qc_streams c) @ [fs_frame fs] @ result_frames r @ rx_frames (qc_rx c)) h"
  shows "stream_inv h (send_done now fs how r c)"
  using assms
  by (auto simp: stream_inv_def send_done_def result_frames_def Let_def split: frame_send_result.splits)

lemma video_msg_fields: "fst (video_msg f) = MSG_VIDEO" "snd (video_msg f) = f"
  by (simp_all add: video_msg_def)

lemma framed_video [simp]:
  "framed (video_msg f) = frame_header MSG_VIDEO (fst f) (length (snd f)) @ snd f"
  by (simp add: framed_def video_msg_def split_def)

lemma send_ok_abandon:
  "send_ok fs \<Longrightarrow> stream_ok \<lparr>us_msg = video_msg (fs_frame fs), us_bytes = fs_bytes fs, us_end = Abandoned\<rparr>"
  by (auto simp: send_ok_def stream_ok_def take_is_prefix video_msg_fields)

lemma send_ok_reset:
  "send_ok fs \<Longrightarrow> \<not> is_idr_frame (snd (fs_frame fs))
     \<Longrightarrow> stream_ok \<lparr>us_msg = video_msg (fs_frame fs), us_bytes = fs_bytes fs, us_end = WasReset\<rparr>"
  by (auto simp: send_ok_def stream_ok_def take_is_prefix video_msg_fields)

lemma send_ok_finish:
  "send_ok fs \<Longrightarrow> \<not> fs_offset fs < length (snd (fs_frame fs))
     \<Longrightarrow> stream_ok \<lparr>us_msg = video_msg (fs_frame fs), us_bytes = fs_bytes fs, us_end = Finished\<rparr>"
  by (auto simp: send_ok_def stream_ok_def)

lemma stream_inv_side:
  assumes "stream_inv h c" and "qc_pc c = QLoop" and "qc_pending c = None"
    and "send_message opens msg as = Some sent" and "fst msg \<noteq> MSG_VIDEO"
  shows "stream_inv h (after_send c sent)"
proof -
  obtain ok us where s: "sent = (ok, us)" by fastforce
  have "list_all stream_ok us" "list_all (\<lambda>u. us_msg u = msg) us"
    using send_message_streams [OF assms(4) [unfolded s]] by (simp_all add: list_all_iff)
  with assms s show ?thesis by (simp add: stream_inv_def after_send_def)
qed

lemma message_type_not_video: "src \<noteq> VideoSource \<Longrightarrow> message_type_of src \<noteq> MSG_VIDEO"
  by (cases src)
    (simp_all add: message_type_of_def MSG_VIDEO_def MSG_AUDIO_def MSG_CLIPBOARD_def MSG_RESOLUTION_STATUS_def)

lemma cursor_not_video: "MSG_CURSOR \<noteq> MSG_VIDEO"
  by (simp add: MSG_VIDEO_def MSG_CURSOR_def)

lemma stream_inv_side_event:
  assumes "stream_inv h c" and "qc_pc c = QLoop" and "qc_pending c = None"
    and "side_event ev opens as c = Some c'"
  shows "stream_inv h c'"
proof (cases ev)
  case (CursorChanged ts q)
  show ?thesis
  proof (cases q)
    case None
    with assms CursorChanged show ?thesis by (simp add: side_event_def)
  next
    case (Some payload)
    with assms CursorChanged show ?thesis
      by (auto simp: side_event_def cursor_not_video
          intro: stream_inv_side [where msg = "(MSG_CURSOR, ts, payload)"])
  qed
next
  case (Received src ts payload)
  with assms show ?thesis
    by (auto simp: side_event_def message_type_not_video split: if_splits
        intro: stream_inv_side [where msg = "(message_type_of src, ts, payload)"])
qed (use assms in \<open>auto simp: side_event_def stream_inv_def split: if_splits\<close>)

lemma loop_top_fields [simp]:
  "qc_pc (loop_top now c) = qc_pc c" "qc_rx (loop_top now c) = qc_rx c"
  "qc_pending (loop_top now c) = qc_pending c" "qc_streams (loop_top now c) = qc_streams c"
  "qc_rx_closed (loop_top now c) = qc_rx_closed c" "qc_idr (loop_top now c) = qc_idr c"
  "qc_policy (loop_top now c) = qc_policy c"
  by (simp_all add: loop_top_def)

lemma stream_inv_loop:
  assumes "stream_inv h c" and "qc_pc c = QLoop" and "quic_loop now ev c = Some c'"
  shows "stream_inv h c'"
proof (cases "qc_pending c")
  case (Some f)
  with assms show ?thesis by (auto simp: quic_loop_def stream_inv_def)
next
  case None
  have top: "stream_inv h (loop_top now c)" using assms(1) by (simp add: stream_inv_def)
  show ?thesis
  proof (cases ev)
    case (SideEvent e opens as)
    with None assms top show ?thesis
      by (auto simp: quic_loop_def intro: stream_inv_side_event [of h "loop_top now c"])
  next
    case PollRx
    with None assms show ?thesis
      by (auto simp: quic_loop_def stream_inv_def Let_def split: list.splits rx_item.splits if_splits)
  qed (use None assms in \<open>simp_all add: quic_loop_def\<close>)
qed

lemma stream_inv_poll:
  assumes inv: "stream_inv h c" and pc: "qc_pc c = QSending fs"
    and idr: "\<not> is_idr_frame (snd (fs_frame fs))" and s: "poll_while_sending now fs c = Some c'"
  shows "stream_inv h c'"
proof -
  have ok: "list_all stream_ok (qc_streams c)" "send_ok fs" "qc_pending c = None"
    and sub: "subseq (video_frames (qc_streams c) @ (fs_frame fs # opt_list (fs_pending fs))
                @ rx_frames (qc_rx c)) h"
    using inv pc by (auto simp: stream_inv_def)
  show ?thesis
  proof (cases "qc_rx c")
    case Nil
    with s have c': "c' = send_done now fs Abandoned Disconnected c"
      by (simp add: poll_while_sending_def split: if_splits)
    show ?thesis
      unfolding c' by (rule stream_inv_send_done [OF ok(1,3) send_ok_abandon [OF ok(2)]])
        (use sub Nil subseq_drop_mid [of "video_frames (qc_streams c) @ [fs_frame fs]" "opt_list (fs_pending fs)" "[]" h]
          in \<open>simp add: result_frames_def\<close>)
  next
    case (Cons x q)
    show ?thesis
    proof (cases x)
      case (RxLagged n)
      with s Cons ok sub show ?thesis
        by (auto simp: poll_while_sending_def stream_inv_def send_ok_def)
    next
      case (RxFrame f)
      define fs' where "fs' = drain q (fs\<lparr>fs_pending := Some f, fs_backlog := fs_backlog fs + 1\<rparr>)"
      have fs': "fs_frame fs' = fs_frame fs" "fs_bytes fs' = fs_bytes fs" "fs_offset fs' = fs_offset fs"
        "fs_pending fs' \<noteq> None" "subseq (opt_list (fs_pending fs')) (rx_frames (qc_rx c))"
        using drain_pending_Some [of "fs\<lparr>fs_pending := Some f, fs_backlog := fs_backlog fs + 1\<rparr>" q]
          drain_pending [of q "fs\<lparr>fs_pending := Some f, fs_backlog := fs_backlog fs + 1\<rparr>"]
        by (simp_all add: fs'_def Cons RxFrame)
      have ok': "send_ok fs'" using ok(2) fs' by (simp add: send_ok_def)
      have "subseq (fs_frame fs # opt_list (fs_pending fs'))
              (fs_frame fs # opt_list (fs_pending fs) @ rx_frames (qc_rx c))"
        using fs'(5) by (simp add: list_emb_append2)
      then have sub': "subseq (video_frames (qc_streams c) @ fs_frame fs' # opt_list (fs_pending fs')) h"
        using sub fs'(1) subseq_replace_mid [of "video_frames (qc_streams c)"
          "fs_frame fs # opt_list (fs_pending fs) @ rx_frames (qc_rx c)" "[]" h
          "fs_frame fs # opt_list (fs_pending fs')"] by simp
      have idr': "\<not> is_idr_frame (snd (fs_frame fs'))" using idr fs' by simp
      have sub0: "subseq (video_frames (qc_streams c) @ [fs_frame fs']) h"
        using subseq_drop_mid [of "video_frames (qc_streams c) @ [fs_frame fs']" "opt_list (fs_pending fs')" "[]" h]
          sub' by simp
      note cs = s [unfolded poll_while_sending_def Cons RxFrame, simplified, folded fs'_def [simplified]]
      show ?thesis
      proof (cases "qc_rx_closed c")
        case True
        with cs have c': "c' = send_done now fs' Abandoned Disconnected (c\<lparr>qc_rx := []\<rparr>)"
          by (simp add: Let_def)
        show ?thesis unfolding c'
          by (rule stream_inv_send_done) (use ok sub0 send_ok_abandon [OF ok'] in \<open>simp_all add: result_frames_def\<close>)
      next
        case False
        obtain b p where r: "should_reset (fs_backlog fs') False now (qc_policy c) = (b, p)"
          by (metis prod.exhaust)
        show ?thesis
        proof (cases b)
          case True
          with cs False r have c': "c' = send_done now fs' WasReset (Superseded (the (fs_pending fs')) True True)
              (c\<lparr>qc_rx := [], qc_policy := p, qc_idr := qc_idr c @ [now]\<rparr>)"
            by (simp add: Let_def)
          have "opt_list (fs_pending fs') = [the (fs_pending fs')]" using fs'(4) by (auto simp: opt_list_def)
          with sub' show ?thesis unfolding c'
            by (intro stream_inv_send_done)
              (use ok send_ok_reset [OF ok' idr'] in \<open>simp_all add: result_frames_def\<close>)
        next
          case b: False
          with cs False r have c': "c' = c\<lparr>qc_rx := [], qc_policy := p, qc_pc := QSending fs'\<rparr>"
            by (simp add: Let_def)
          show ?thesis unfolding c' using ok ok' sub' by (simp add: stream_inv_def)
        qed
      qed
    qed
  qed
qed

lemma stream_inv_write:
  assumes "stream_inv h c" and "qc_pc c = QSending fs"
  shows "stream_inv h (write_answered now a fs c)"
proof -
  have ok: "list_all stream_ok (qc_streams c)" "send_ok fs" "qc_pending c = None"
    and sub: "subseq (video_frames (qc_streams c) @ (fs_frame fs # opt_list (fs_pending fs))
                @ rx_frames (qc_rx c)) h"
    using assms by (auto simp: stream_inv_def)
  have broken: "stream_inv h (send_done now fs Abandoned Disconnected c)"
    by (rule stream_inv_send_done [OF ok(1,3) send_ok_abandon [OF ok(2)]])
      (use sub subseq_drop_mid [of "video_frames (qc_streams c) @ [fs_frame fs]" "opt_list (fs_pending fs)"
             "rx_frames (qc_rx c)" h] in \<open>simp add: result_frames_def\<close>)
  show ?thesis
  proof (cases a)
    case (WriteBroken e)
    with broken show ?thesis by (simp add: write_answered_def)
  next
    case (Took k)
    define n where "n = min k (length (drop (fs_offset fs) (snd (fs_frame fs))))"
    have "send_ok (fs\<lparr>fs_bytes := fs_bytes fs @ take n (drop (fs_offset fs) (snd (fs_frame fs))),
                      fs_offset := fs_offset fs + n\<rparr>)"
      using ok(2) by (auto simp: send_ok_def n_def take_add)
    with Took ok sub broken show ?thesis
      by (simp add: write_answered_def Let_def stream_inv_def n_def)
  qed
qed

lemma stream_inv_finish:
  assumes "stream_inv h c" and "qc_pc c = QSending fs"
    and "\<not> fs_offset fs < length (snd (fs_frame fs))"
  shows "stream_inv h (finish_frame now fs c)"
  unfolding finish_frame_def using assms
  by (intro stream_inv_send_done)
    (auto simp: stream_inv_def send_ok_finish result_frames_def opt_list_def split: option.splits)

lemma stream_inv_open:
  assumes inv: "stream_inv h c" and pc: "qc_pc c = QStart f started"
    and s: "open_frame f started now opens as c = Some c'"
  shows "stream_inv h c'"
proof -
  have ok: "list_all stream_ok (qc_streams c)" "qc_pending c = None"
    and sub: "subseq (video_frames (qc_streams c) @ [f] @ rx_frames (qc_rx c)) h"
    using inv pc by (auto simp: stream_inv_def)
  obtain sent r as' where w: "write_all (frame_header MSG_VIDEO (fst f) (length (snd f))) as = (sent, r, as')"
    by (metis prod_cases3)
  have sub0: "subseq (video_frames (qc_streams c) @ rx_frames (qc_rx c)) h"
    by (rule subseq_drop_mid [OF sub])
  show ?thesis
    using s ok sub sub0 w write_all_prefix [OF w] write_all_Ok_iff [OF w]
    by (auto simp: open_frame_def Let_def stream_inv_def send_done_def stream_ok_def send_ok_def
        prefix_prefix split: if_splits option.splits sum.splits)
qed

lemma stream_inv_publish:
  "stream_inv h c \<Longrightarrow> stream_inv (h @ rx_frames [item]) (c\<lparr>qc_rx := qc_rx c @ [item]\<rparr>)"
  unfolding stream_inv_def by (simp add: list_emb_append_mono flip: append_assoc)

lemma stream_inv_task:
  assumes "stream_inv h c" and "quic_task now ev c = Some c'"
  shows "stream_inv h c'"
proof (cases "qc_pc c")
  case (QSending fs)
  with assms show ?thesis
    by (cases "fs_offset fs < length (snd (fs_frame fs))"; cases ev)
      (auto simp: quic_task_def split: if_splits
        intro: stream_inv_write stream_inv_poll stream_inv_finish)
qed (use assms in \<open>auto simp: quic_task_def split: quic_env.splits
       intro: stream_inv_loop stream_inv_open\<close>)

lemma stream_inv_step:
  assumes "stream_inv h c" and "quic_step now ev c = Some c'"
  shows "stream_inv (h @ env_frames ev) c'"
proof (cases ev)
  case (Publish item)
  with assms stream_inv_publish [OF assms(1), of item] show ?thesis by (simp split: if_splits)
next
  case CloseRx
  with assms show ?thesis by (auto simp: stream_inv_def)
qed (use assms in \<open>auto intro: stream_inv_task\<close>)

lemma stream_inv_run:
  "stream_inv h c \<Longrightarrow> quic_run evs c = Some c' \<Longrightarrow> stream_inv (h @ published evs) c'"
proof (induction evs c arbitrary: h rule: quic_run.induct)
  case (2 now ev evs c)
  then obtain c1 where s: "quic_step now ev c = Some c1" and r: "quic_run evs c1 = Some c'"
    by (auto split: option.splits)
  from 2(1) [OF s stream_inv_step [OF 2(2) s] r] show ?case by (simp add: published_def)
qed (simp add: published_def)

lemma stream_inv_start:
  assumes "quic_start queued cursor_ts cursor opens as = Some c"
  shows "stream_inv (rx_frames queued) c"
proof -
  have c0: "stream_inv (rx_frames queued) (quic_init queued)"
    by (simp add: stream_inv_def quic_init_def video_frames_def)
  show ?thesis
  proof (cases cursor)
    case None
    with assms c0 show ?thesis by (simp add: quic_start_def)
  next
    case (Some payload)
    with assms obtain sent where "send_message opens (MSG_CURSOR, cursor_ts, payload) as = Some sent"
      "c = after_send (quic_init queued) sent"
      by (auto simp: quic_start_def)
    with stream_inv_side [OF c0, of opens "(MSG_CURSOR, cursor_ts, payload)" as sent] cursor_not_video
    show ?thesis by (simp add: quic_init_def)
  qed
qed

text \<open>C11: Whatever the transport, the encoder and the other channels do: a stream that was finished
  carries exactly one framed message; a stream that was reset carries a video frame that is not a
  keyframe, and bytes of a reset or abandoned stream are a prefix of its message; and the video
  frames for which streams were opened are, in order, among those the encoder published.\<close>

theorem quic_streams_faithful:
  assumes "quic_start queued cursor_ts cursor opens as = Some c0" and "quic_run evs c0 = Some c"
  shows "list_all stream_ok (qc_streams c)
    \<and> subseq (video_frames (qc_streams c)) (rx_frames queued @ published evs)"
proof -
  have "stream_inv (rx_frames queued @ published evs) c"
    by (rule stream_inv_run [OF stream_inv_start [OF assms(1)] assms(2)])
  then show ?thesis by (auto simp: stream_inv_def dest: subseq_drop_mid [of _ _ "[]", simplified])
qed

text \<open>A frame of one slice, sent in two writes on a connection without a cursor.\<close>

theorem quic_streams_faithful_witness:
  "\<exists>c0 c. quic_start [] 0 None True [] = Some c0
     \<and> quic_run [(1, Publish (RxFrame (7, [9]))), (2, PollRx), (3, OpenStream True [Took 6, Took 7]),
                  (4, WriteAnswered (Took 5)), (5, PollRx)] c0 = Some c
     \<and> video_frames (qc_streams c) = [(7, [9])]
     \<and> list_all stream_ok (qc_streams c)
     \<and> subseq (video_frames (qc_streams c)) (rx_frames [] @ [(7, [9])])"
proof -
  define c0 where "c0 = the (quic_start [] 0 None True [])"
  have s: "quic_start [] 0 None True [] = Some c0" by (simp add: c0_def quic_start_def)
  define evs where "evs = [(1, Publish (RxFrame (7, [9]))), (2, PollRx),
    (3, OpenStream True [Took 6, Took 7]), (4, WriteAnswered (Took 5)), (5 :: nat, PollRx)]"
  have w: "write_all (frame_header MSG_VIDEO 7 (Suc 0)) [Took 6, Took 7]
      = (frame_header MSG_VIDEO 7 (Suc 0), Some (Ok ()), [])"
    by code_simp
  obtain c where r: "quic_run evs c0 = Some c" and v: "video_frames (qc_streams c) = [(7, [9])]"
    using w by (simp add: evs_def c0_def quic_start_def quic_init_def quic_task_def quic_loop_def Let_def open_frame_def
        write_answered_def finish_frame_def send_done_def loop_top_def take_due_def video_frames_def video_msg_def)
  have "published evs = [(7, [9])]" by (simp add: evs_def published_def)
  then show ?thesis
    using quic_streams_faithful [OF s r] s r v unfolding evs_def by auto
qed

section \<open>Keyframe requests are rate limited\<close>

definition spaced :: "nat list \<Rightarrow> bool" where
  "spaced ts \<longleftrightarrow> sorted_wrt (\<lambda>a b. a + FRAME_RESET_IDR_COOLDOWN \<le> b) ts"

definition recovery_ok :: "frame_reset_policy \<Rightarrow> nat list \<Rightarrow> bool" where
  "recovery_ok p ts \<longleftrightarrow> spaced ts \<and> last_recovery p = (if ts = [] then None else Some (last ts))"

definition resets :: "uni_stream list \<Rightarrow> nat" where
  "resets us = length (filter (\<lambda>u. us_end u = WasReset) us)"

definition recovery_inv :: "quic_conn \<Rightarrow> bool" where
  "recovery_inv c \<longleftrightarrow> recovery_ok (qc_policy c) (qc_idr c) \<and> resets (qc_streams c) \<le> length (qc_idr c)"

lemma spaced_snoc: "spaced (ts @ [t]) \<longleftrightarrow> spaced ts \<and> (ts = [] \<or> last ts + FRAME_RESET_IDR_COOLDOWN \<le> t)"
proof (cases ts rule: rev_cases)
  case (snoc us u)
  then show ?thesis
    by (auto simp: spaced_def sorted_wrt_append)
qed (simp add: spaced_def)

lemma recovery_ok_next:
  "recovery_ok p ts \<Longrightarrow> \<not> cooling_down now p \<Longrightarrow> recovery_ok (p\<lparr>last_recovery := Some now\<rparr>) (ts @ [now])"
  by (auto simp: recovery_ok_def spaced_snoc cooling_down_def FRAME_RESET_IDR_COOLDOWN_def not_less
      split: if_splits)

lemma resets_append [simp]: "resets (us @ vs) = resets us + resets vs"
  by (simp add: resets_def)

lemma resets_none: "list_all (\<lambda>u. us_end u \<noteq> WasReset) us \<Longrightarrow> resets us = 0"
  by (induction us) (simp_all add: resets_def)

lemma resets_single [simp]: "resets [u] = (if us_end u = WasReset then 1 else 0)" "resets [] = 0"
  by (simp_all add: resets_def)

lemma recovery_inv_request: "recovery_inv c \<Longrightarrow> recovery_inv (request_idr now c)"
  by (auto simp: recovery_inv_def request_idr_def should_request_idr_def recovery_ok_next split: if_splits)

lemma recovery_inv_send_done:
  "recovery_inv c \<Longrightarrow> resets (qc_streams c) + (if how = WasReset then 1 else 0) \<le> length (qc_idr c)
     \<Longrightarrow> recovery_inv (send_done now fs how r c)"
  by (cases r)
    (auto simp: send_done_def Let_def recovery_inv_def request_idr_def should_request_idr_def
      recovery_ok_next split: if_splits)

lemma recovery_inv_send:
  assumes "recovery_inv c" and "send_message opens msg as = Some sent"
  shows "recovery_inv (after_send c sent)"
proof -
  have "resets (snd sent) = 0"
    using send_message_streams [of opens msg as "fst sent" "snd sent"] assms(2)
    by (auto intro!: resets_none simp: list_all_iff)
  with assms(1) show ?thesis by (simp add: recovery_inv_def after_send_def)
qed

lemma recovery_inv_loop:
  assumes "recovery_inv c" and "quic_loop now ev c = Some c'"
  shows "recovery_inv c'"
proof -
  have top: "recovery_inv (loop_top now c)" using assms(1) by (simp add: recovery_inv_def)
  have side: "recovery_inv c2" if "side_event e opens as (loop_top now c) = Some c2" for e opens as c2
    using that top recovery_inv_send [OF top]
    by (auto simp: side_event_def recovery_inv_def split: source_event.splits option.splits if_splits)
  show ?thesis
    using assms top side
    by (auto simp: quic_loop_def Let_def recovery_inv_def
        split: option.splits quic_env.splits list.splits rx_item.splits if_splits)
qed

lemma recovery_inv_poll:
  assumes inv: "recovery_inv c" and s: "poll_while_sending now fs c = Some c'"
  shows "recovery_inv c'"
proof -
  have le: "recovery_ok (qc_policy c) (qc_idr c)" "resets (qc_streams c) \<le> length (qc_idr c)"
    using inv by (simp_all add: recovery_inv_def)
  show ?thesis
    using s le
    by (auto simp: poll_while_sending_def Let_def should_reset_def recovery_ok_next
        intro!: recovery_inv_send_done recovery_inv_request
        split: list.splits rx_item.splits if_splits)
      (auto simp: recovery_inv_def recovery_ok_next)
qed

lemma recovery_inv_step:
  assumes inv: "recovery_inv c" and s: "quic_step now ev c = Some c'"
  shows "recovery_inv c'"
proof -
  have le: "resets (qc_streams c) \<le> length (qc_idr c)" using inv by (simp add: recovery_inv_def)
  have dn: "recovery_inv (send_done now fs how r c)" if "how \<noteq> WasReset" for fs how r
    by (rule recovery_inv_send_done) (use inv le that in simp_all)
  have w: "recovery_inv (write_answered now a fs c)" for a fs
    using inv dn by (cases a) (auto simp: write_answered_def Let_def recovery_inv_def)
  have f: "recovery_inv (finish_frame now fs c)" for fs
    by (auto simp: finish_frame_def intro: dn)
  have o: "recovery_inv c2" if "open_frame fr st now opens as c = Some c2" for fr st opens as c2
    using that inv dn
    by (auto simp: open_frame_def Let_def recovery_inv_def split: if_splits prod.splits option.splits sum.splits)
  have t: "recovery_inv c2" if "quic_task now ev c = Some c2" for c2
    using that inv w f o recovery_inv_loop [OF inv] recovery_inv_poll [OF inv]
    by (auto simp: quic_task_def split: quic_pc.splits quic_env.splits if_splits)
  show ?thesis
    using s inv t by (cases ev) (auto simp: recovery_inv_def split: if_splits)
qed

lemma recovery_inv_run: "recovery_inv c \<Longrightarrow> quic_run evs c = Some c' \<Longrightarrow> recovery_inv c'"
  by (induction evs c rule: quic_run.induct) (auto split: option.splits intro: recovery_inv_step)

text \<open>Keyframe requests of a connection are at least half a second apart, and there is one for every
  stream that was reset.\<close>

theorem idr_requests_spaced:
  assumes "quic_start queued cursor_ts cursor opens as = Some c0" and "quic_run evs c0 = Some c"
  shows "sorted_wrt (\<lambda>a b. a + 500 \<le> b) (qc_idr c) \<and> resets (qc_streams c) \<le> length (qc_idr c)"
proof -
  have "recovery_inv (quic_init queued)"
    by (simp add: quic_init_def recovery_inv_def recovery_ok_def spaced_def)
  then have "recovery_inv c0"
    using assms(1) by (auto simp: quic_start_def intro: recovery_inv_send split: option.splits)
  from recovery_inv_run [OF this assms(2)] show ?thesis
    by (simp add: recovery_inv_def recovery_ok_def spaced_def FRAME_RESET_IDR_COOLDOWN_def)
qed

lemma quic_run_Cons [simp]:
  "quic_step now ev c = Some c' \<Longrightarrow> quic_run ((now, ev) # evs) c = quic_run evs c'"
  by simp

text \<open>A frame of one slice is overtaken by three newer ones while it is being written: its stream is
  reset and a keyframe requested.\<close>

theorem idr_requests_spaced_witness:
  "\<exists>c0 c. quic_start [] 0 None True [] = Some c0
     \<and> quic_run [(1, Publish (RxFrame (7, [9]))), (2, PollRx), (3, OpenStream True [Took 13]),
                  (4, Publish (RxFrame (8, []))), (5, Publish (RxFrame (9, []))),
                  (6, Publish (RxFrame (10, []))), (700, PollRx)] c0 = Some c
     \<and> qc_idr c = [700] \<and> resets (qc_streams c) = 1
     \<and> sorted_wrt (\<lambda>a b. a + 500 \<le> b) (qc_idr c) \<and> resets (qc_streams c) \<le> length (qc_idr c)"
proof -
  have s: "quic_start [] 0 None True [] = Some (quic_init [])" by (simp add: quic_start_def)
  define evs where "evs = [(1, Publish (RxFrame (7, [9]))), (2, PollRx), (3, OpenStream True [Took 13]),
                  (4, Publish (RxFrame (8, []))), (5, Publish (RxFrame (9, []))),
                  (6, Publish (RxFrame (10, []))), (700 :: nat, PollRx)]"
  have w: "write_all (frame_header MSG_VIDEO 7 (Suc 0)) [Took 13]
      = (frame_header MSG_VIDEO 7 (Suc 0), Some (Ok ()), [])"
    by code_simp
  have n: "\<not> is_idr_frame [9]" by (simp add: is_idr_frame_def idr_from_iff idr_at_def)
  obtain c where r: "quic_run evs (quic_init []) = Some c" and v: "qc_idr c = [700]" "resets (qc_streams c) = 1"
    using w n by (simp add: evs_def quic_init_def quic_task_def quic_loop_def Let_def open_frame_def
        poll_while_sending_def should_reset_def cooling_down_def FRAME_RESET_BACKLOG_THRESHOLD_def
        send_done_def loop_top_def take_due_def)
  show ?thesis
    using idr_requests_spaced [OF s r] s r v unfolding evs_def by blast
qed

section \<open>Overtaken frames\<close>

text \<open>Two frames that arrive one by one while an earlier frame is still being written: the first of them
  replaces nothing and the second replaces the first, but \<open>dropped_frames\<close> is only set for frames
  taken by the draining loop.\<close>

lemma write_all_once: "bs \<noteq> [] \<Longrightarrow> write_all bs [Took (length bs)] = (bs, Some (Ok ()), [])"
  by (cases bs) simp_all

lemma write_header_once [simp]:
  "write_all (frame_header ty ts n) [Took 13] = (frame_header ty ts n, Some (Ok ()), [])"
  using write_all_once [of "frame_header ty ts n"] by (simp add: frame_header_def)

definition overtaking :: "frame \<Rightarrow> frame \<Rightarrow> frame \<Rightarrow> (nat \<times> quic_env) list" where
  "overtaking f0 f1 f2 =
     [(0, Publish (RxFrame f0)), (0, PollRx), (0, OpenStream True [Took 13]),
      (1, Publish (RxFrame f1)), (1, PollRx), (2, Publish (RxFrame f2)), (2, PollRx),
      (3, WriteAnswered (Took (length (snd f0)))), (3, PollRx),
      (4, PollRx), (4, OpenStream True [Took 13]),
      (5, WriteAnswered (Took (length (snd f2)))), (5, PollRx)]"

text \<open>C15: For any three frames of which the first is not a keyframe, there is a schedule in which the
  encoder publishes exactly these three, the first and the third are sent completely, the second is
  never sent, nothing is left to send, and no keyframe is requested.\<close>

theorem overtaken_frame_lost_silently:
  assumes "\<not> is_idr_frame (snd f0)" and "snd f0 \<noteq> []" and "snd f2 \<noteq> []"
  shows "published (overtaking f0 f1 f2) = [f0, f1, f2]
    \<and> (case quic_run (overtaking f0 f1 f2) (quic_init []) of
         None \<Rightarrow> False
       | Some c \<Rightarrow> qc_pc c = QLoop \<and> qc_rx c = [] \<and> qc_pending c = None
           \<and> video_frames (qc_streams c) = [f0, f2]
           \<and> map us_end (qc_streams c) = [Finished, Finished] \<and> qc_idr c = [])"
proof -
  have "\<not> snd f0 = []" "\<not> snd f2 = []" using assms by simp_all
  then show ?thesis
    using assms(1)
    by (simp add: overtaking_def published_def quic_init_def quic_task_def quic_loop_def Let_def
        open_frame_def poll_while_sending_def should_reset_def FRAME_RESET_BACKLOG_THRESHOLD_def
        write_answered_def finish_frame_def send_done_def loop_top_def take_due_def
        video_frames_def video_msg_def)
qed

text \<open>Three one-byte frames.\<close>

theorem overtaken_frame_lost_silently_witness:
  "\<not> is_idr_frame [9]
   \<and> published (overtaking (1, [9]) (2, [8]) (3, [7])) = [(1, [9]), (2, [8]), (3, [7])]
   \<and> map_option (\<lambda>c. video_frames (qc_streams c)) (quic_run (overtaking (1, [9]) (2, [8]) (3, [7])) (quic_init []))
       = Some [(1, [9]), (3, [7])]"
proof -
  have n: "\<not> is_idr_frame [9]" by (simp add: is_idr_frame_def idr_from_iff idr_at_def)
  with overtaken_frame_lost_silently [of "(1, [9])" "(3, [7])" "(2, [8])"] show ?thesis
    by (auto split: option.splits)
qed

end
