(* ===== verification/Buffers.thy ===== *)
theory Buffers
  imports Prelude
begin

text \<open>
  Buffers filled by index, shared by the pixel code: \<open>put\<close> is a run of assignments to a buffer, and
  \<open>filled f S b0 b\<close> says that \<open>b\<close> is \<open>b0\<close> with the positions in \<open>S\<close> set to the values of \<open>f\<close>.  A loop
  that writes a pixel buffer is verified by giving, for each pass, the positions it fills.
\<close>

definition put :: "(nat \<times> 'a) list \<Rightarrow> 'a list \<Rightarrow> 'a list" where
  "put ws buf = fold (\<lambda>(i, v) buf. buf[i := v]) ws buf"

definition filled :: "(nat \<Rightarrow> 'a) \<Rightarrow> nat set \<Rightarrow> 'a list \<Rightarrow> 'a list \<Rightarrow> bool" where
  "filled f S b0 b \<longleftrightarrow> length b = length b0 \<and> (\<forall>i<length b0. b ! i = (if i \<in> S then f i else b0 ! i))"

lemma put_simps [simp]: "put [] buf = buf" "put ((i, v) # ws) buf = put ws (buf[i := v])"
  by (simp_all add: put_def)

lemma length_put [simp]: "length (put ws buf) = length buf"
  by (induction ws arbitrary: buf) auto

lemma filled_refl: "filled f {} b b"
  by (simp add: filled_def)

lemma filled_set:
  assumes "filled f S b0 b" and "v = f i"
  shows "filled f (insert i S) b0 (b[i := v])"
  unfolding filled_def
proof (intro conjI allI impI)
  show "length (b[i := v]) = length b0" using assms by (simp add: filled_def)
  fix j assume "j < length b0"
  with assms show "b[i := v] ! j = (if j \<in> insert i S then f j else b0 ! j)"
    by (cases "j = i") (simp_all add: filled_def)
qed

lemma filled_put:
  "filled f S b0 b \<Longrightarrow> list_all (\<lambda>(i, v). v = f i) ws \<Longrightarrow> filled f (S \<union> fst ` set ws) b0 (put ws b)"
proof (induction ws arbitrary: S b)
  case (Cons w ws)
  obtain i v where w: "w = (i, v)" by fastforce
  with Cons have "filled f (insert i S \<union> fst ` set ws) b0 (put ws (b[i := v]))"
    by (intro Cons.IH filled_set) auto
  with w show ?case by simp
qed simp

lemma filled_fold:
  assumes "\<And>x b S. x \<in> set xs \<Longrightarrow> filled f S b0 b \<Longrightarrow> filled f (S \<union> T x) b0 (g x b)"
  shows "filled f S b0 b \<Longrightarrow> filled f (S \<union> (\<Union>x\<in>set xs. T x)) b0 (fold g xs b)"
  using assms
proof (induction xs arbitrary: S b)
  case (Cons x xs)
  have "filled f ((S \<union> T x) \<union> (\<Union>y\<in>set xs. T y)) b0 (fold g xs (g x b))"
    by (intro Cons.IH) (use Cons.prems in auto)
  then show ?case by (simp add: Un_ac)
qed simp

lemma filled_all:
  assumes "filled f S b0 b" and "\<And>i. i < length b0 \<Longrightarrow> i \<in> S \<or> f i = b0 ! i"
  shows "b = map f [0..<length b0]"
proof (rule nth_equalityI)
  show "length b = length (map f [0..<length b0])" using assms(1) by (simp add: filled_def)
  fix i assume "i < length b"
  with assms(1) assms(2) [of i] show "b ! i = map f [0..<length b0] ! i"
    by (cases "i \<in> S") (simp_all add: filled_def)
qed

lemma filled_weaken: "filled f S b0 b \<Longrightarrow> S = S' \<Longrightarrow> filled f S' b0 b"
  by simp

end
