(* ===== verification/Nv12.thy ===== *)
theory Nv12
  imports Buffers Core_Types
begin

text \<open>
  Conversion of captured frames to packed NV12 on the CPU, \<open>flux-encode/src/nv12.rs\<close>: the luma plane
  of \<open>w * h\<close> bytes followed by \<open>w * (h / 2)\<close> bytes of interleaved chroma.  The two planes that the code
  gets from \<open>split_at_mut\<close> are the two parts of one buffer here, so chroma positions are offset by
  \<open>w * h\<close>.  Samples are integers as in the code, where no intermediate value leaves 32 bits.
\<close>

section \<open>Colour conversion\<close>

type_synonym rgb = "int \<times> int \<times> int"

definition clamp_byte :: "int \<Rightarrow> byte" where
  "clamp_byte x = word_of_int (max 0 (min 255 x))"

definition bt601_luma :: "rgb \<Rightarrow> byte" where
  "bt601_luma p = (case p of (r, g, b) \<Rightarrow>
     clamp_byte (drop_bit 8 (66 * r + 129 * g + 25 * b + 128) + 16))"

definition bt601_u :: "rgb \<Rightarrow> byte" where
  "bt601_u p = (case p of (r, g, b) \<Rightarrow>
     clamp_byte (drop_bit 8 (- 38 * r - 74 * g + 112 * b + 128) + 128))"

definition bt601_v :: "rgb \<Rightarrow> byte" where
  "bt601_v p = (case p of (r, g, b) \<Rightarrow>
     clamp_byte (drop_bit 8 (112 * r - 94 * g - 18 * b + 128) + 128))"

datatype channel_order = BgraOrder | RgbaOrder

definition offsets :: "channel_order \<Rightarrow> nat \<times> nat \<times> nat" where
  "offsets order = (case order of BgraOrder \<Rightarrow> (2, 1, 0) | RgbaOrder \<Rightarrow> (0, 1, 2))"

definition px :: "channel_order \<Rightarrow> byte list \<Rightarrow> nat \<Rightarrow> rgb" where
  "px order bytes base =
     (case offsets order of (ro, go, bo) \<Rightarrow>
        (uint (bytes ! (base + ro)), uint (bytes ! (base + go)), uint (bytes ! (base + bo))))"

text \<open>Average of a block of four; the sums are not negative, so truncation is rounding down.\<close>

definition average :: "rgb \<Rightarrow> rgb \<Rightarrow> rgb \<Rightarrow> rgb \<Rightarrow> rgb" where
  "average p0 p1 p2 p3 =
     (case (p0, p1, p2, p3) of ((r0, g0, b0), (r1, g1, b1), (r2, g2, b2), (r3, g3, b3)) \<Rightarrow>
        ((r0 + r1 + r2 + r3) div 4, (g0 + g1 + g2 + g3) div 4, (b0 + b1 + b2 + b3) div 4))"

section \<open>The fused pass\<close>

definition convert_block ::
  "channel_order \<Rightarrow> byte list \<Rightarrow> nat \<Rightarrow> nat \<Rightarrow> nat \<Rightarrow> nat \<Rightarrow> nat \<Rightarrow> byte list \<Rightarrow> byte list" where
  "convert_block order bytes stride w h cy k nv12 =
     (let t = 2 * cy * stride + 8 * k; b = (2 * cy + 1) * stride + 8 * k;
          p0 = px order bytes t; p1 = px order bytes (t + 4);
          p2 = px order bytes b; p3 = px order bytes (b + 4);
          avg = average p0 p1 p2 p3
      in put [(2 * cy * w + 2 * k, bt601_luma p0), (2 * cy * w + (2 * k + 1), bt601_luma p1),
              ((2 * cy + 1) * w + 2 * k, bt601_luma p2), ((2 * cy + 1) * w + (2 * k + 1), bt601_luma p3),
              (w * h + (cy * w + 2 * k), bt601_u avg), (w * h + (cy * w + (2 * k + 1)), bt601_v avg)] nv12)"

definition convert_odd_column ::
  "channel_order \<Rightarrow> byte list \<Rightarrow> nat \<Rightarrow> nat \<Rightarrow> nat \<Rightarrow> byte list \<Rightarrow> byte list" where
  "convert_odd_column order bytes stride w cy nv12 =
     (if w mod 2 = 1
      then let x = w - 1
           in put [(2 * cy * w + x, bt601_luma (px order bytes (2 * cy * stride + x * 4))),
                   ((2 * cy + 1) * w + x, bt601_luma (px order bytes ((2 * cy + 1) * stride + x * 4)))] nv12
      else nv12)"

definition convert_rgb_rows ::
  "channel_order \<Rightarrow> byte list \<Rightarrow> nat \<Rightarrow> nat \<Rightarrow> nat \<Rightarrow> byte list \<Rightarrow> byte list" where
  "convert_rgb_rows order bytes stride w h nv12 =
     (let nv12 = fold (\<lambda>cy nv12. convert_odd_column order bytes stride w cy
                        (fold (convert_block order bytes stride w h cy) [0..<w div 2] nv12))
                   [0..<h div 2] nv12
      in if h mod 2 = 1
         then let y = h - 1
              in put (map (\<lambda>x. (y * w + x, bt601_luma (px order bytes (y * stride + x * 4)))) [0..<w]) nv12
         else nv12)"

definition packed_rgb_to_nv12 ::
  "byte list \<Rightarrow> nat \<Rightarrow> nat \<Rightarrow> nat \<Rightarrow> channel_order \<Rightarrow> string + byte list" where
  "packed_rgb_to_nv12 bytes stride w h order =
     (if stride < w * 4 \<or> length bytes < stride * h
      then Err (''RGB buffer too small: '' @ decimal (length bytes) @ '' bytes, need stride ''
                @ decimal stride @ '' * height '' @ decimal h)
      else Ok (convert_rgb_rows order bytes stride w h (replicate (w * h + w * (h div 2)) 0)))"

section \<open>Planar input\<close>

definition copy_row :: "byte list \<Rightarrow> nat \<Rightarrow> nat \<Rightarrow> nat \<Rightarrow> byte list \<Rightarrow> byte list" where
  "copy_row bytes src dst w out = put (map (\<lambda>c. (dst + c, bytes ! (src + c))) [0..<w]) out"

text \<open>The row loops: \<open>n\<close> rows of \<open>w\<close> bytes, and the interleaving of two quarter-size planes.\<close>

definition copy_rows :: "byte list \<Rightarrow> nat \<Rightarrow> nat \<Rightarrow> nat \<Rightarrow> nat \<Rightarrow> nat \<Rightarrow> byte list \<Rightarrow> byte list" where
  "copy_rows bytes src stride dst w n out =
     fold (\<lambda>row. copy_row bytes (src + row * stride) (dst + row * w) w) [0..<n] out"

definition interleave :: "byte list \<Rightarrow> nat \<Rightarrow> nat \<Rightarrow> nat \<Rightarrow> nat \<Rightarrow> nat \<Rightarrow> nat \<Rightarrow> byte list \<Rightarrow> byte list" where
  "interleave bytes u_base v_base c_stride uv_dst w ch out =
     fold (\<lambda>row out. fold (\<lambda>col.
       put [(uv_dst + (row * w + col * 2), bytes ! (u_base + row * c_stride + col)),
            (uv_dst + (row * w + (col * 2 + 1)), bytes ! (v_base + row * c_stride + col))])
       [0..<w div 2] out) [0..<ch] out"

definition passthrough_nv12 :: "byte list \<Rightarrow> nat \<Rightarrow> nat \<Rightarrow> nat \<Rightarrow> string + byte list" where
  "passthrough_nv12 bytes stride0 w h =
     (let stride = max stride0 w in
      if length bytes < stride * h + stride * (h div 2)
      then Err (''NV12 buffer too small: '' @ decimal (length bytes) @ '' bytes'')
      else let out = replicate (w * h + w * (h div 2)) 0;
               out = copy_rows bytes 0 stride 0 w h out;
               uv_src = stride * h; uv_dst = w * h
           in Ok (copy_rows bytes uv_src stride uv_dst w (h div 2) out))"

definition i420_to_nv12 :: "byte list \<Rightarrow> nat \<Rightarrow> nat \<Rightarrow> nat \<Rightarrow> string + byte list" where
  "i420_to_nv12 bytes stride0 w h =
     (let stride = max stride0 w; ch = h div 2; y_size = stride * h;
          c_stride = stride div 2; c_size = c_stride * ch
      in if length bytes < y_size + 2 * c_size
         then Err (''I420 buffer too small: '' @ decimal (length bytes) @ '' bytes'')
         else let out = replicate (w * h + w * (h div 2)) 0;
                  out = copy_rows bytes 0 stride 0 w h out;
                  u_base = y_size; v_base = y_size + c_size; uv_dst = w * h
              in Ok (interleave bytes u_base v_base c_stride uv_dst w ch out))"

definition frame_to_nv12 :: "captured_frame \<Rightarrow> nat \<Rightarrow> nat \<Rightarrow> flux_error + byte list" where
  "frame_to_nv12 frame w h =
     (let fail = (\<lambda>reason. Err (EncodeError (sequence frame) reason)) in
      if gpu_resident frame \<and> frame_data frame = []
      then fail ''CPU upload path needs CPU pixel data; DMA-BUF import not yet wired''
      else if frame_data frame = [] then fail ''frame has no CPU pixel data to upload''
      else if width (frame_res frame) \<noteq> w \<or> height (frame_res frame) \<noteq> h
      then fail (''frame resolution '' @ show_resolution (frame_res frame) @ '' does not match encoder ''
                 @ decimal w @ ''x'' @ decimal h)
      else case (case format frame of
                   Bgra8 \<Rightarrow> packed_rgb_to_nv12 (frame_data frame) (frame_stride frame) w h BgraOrder
                 | Rgba8 \<Rightarrow> packed_rgb_to_nv12 (frame_data frame) (frame_stride frame) w h RgbaOrder
                 | Nv12 \<Rightarrow> passthrough_nv12 (frame_data frame) (frame_stride frame) w h
                 | I420 \<Rightarrow> i420_to_nv12 (frame_data frame) (frame_stride frame) w h
                 | P010 \<Rightarrow> Err ''P010/10-bit input is not supported until the HDR phase'') of
             Inl reason \<Rightarrow> fail reason
           | Inr nv12 \<Rightarrow> Ok nv12)"

section \<open>References\<close>

text \<open>The value of each byte of the result, written as two separate passes over the picture: luma of
  each pixel, and chroma of each block of four.  The last column of an odd width has no chroma.\<close>

definition pixel :: "channel_order \<Rightarrow> byte list \<Rightarrow> nat \<Rightarrow> nat \<Rightarrow> nat \<Rightarrow> rgb" where
  "pixel order bytes stride x y = px order bytes (y * stride + x * 4)"

definition block_average :: "channel_order \<Rightarrow> byte list \<Rightarrow> nat \<Rightarrow> nat \<Rightarrow> nat \<Rightarrow> rgb" where
  "block_average order bytes stride cx cy =
     average (pixel order bytes stride (2 * cx) (2 * cy)) (pixel order bytes stride (2 * cx + 1) (2 * cy))
       (pixel order bytes stride (2 * cx) (2 * cy + 1)) (pixel order bytes stride (2 * cx + 1) (2 * cy + 1))"

text \<open>A picture of \<open>w * h\<close> luma bytes and \<open>h / 2\<close> rows of chroma, given per plane.\<close>

definition nv12_at :: "nat \<Rightarrow> nat \<Rightarrow> (nat \<Rightarrow> nat \<Rightarrow> byte) \<Rightarrow> (nat \<Rightarrow> nat \<Rightarrow> byte) \<Rightarrow> nat \<Rightarrow> byte" where
  "nv12_at w h luma chroma i =
     (if i < w * h then luma (i mod w) (i div w) else chroma ((i - w * h) mod w) ((i - w * h) div w))"

definition nv12_picture :: "nat \<Rightarrow> nat \<Rightarrow> (nat \<Rightarrow> nat \<Rightarrow> byte) \<Rightarrow> (nat \<Rightarrow> nat \<Rightarrow> byte) \<Rightarrow> byte list" where
  "nv12_picture w h luma chroma = map (nv12_at w h luma chroma) [0..<w * h + w * (h div 2)]"

definition rgb_chroma :: "channel_order \<Rightarrow> byte list \<Rightarrow> nat \<Rightarrow> nat \<Rightarrow> nat \<Rightarrow> nat \<Rightarrow> byte" where
  "rgb_chroma order bytes stride w x cy =
     (if x < 2 * (w div 2)
      then (if even x then bt601_u else bt601_v) (block_average order bytes stride (x div 2) cy)
      else 0)"

section \<open>Ranges\<close>

lemma clamp_byte_id: "0 \<le> x \<Longrightarrow> x \<le> 255 \<Longrightarrow> uint (clamp_byte x) = x"
  by (simp add: clamp_byte_def uint_word_of_int)

lemma uint_byte: "0 \<le> uint (x :: byte) \<and> uint x \<le> 255"
  using uint_lt2p [of x] by simp

lemma div256_range:
  fixes a n b lo hi off :: int
  assumes "a \<le> n" "n \<le> b" "lo \<le> a div 256 + off" "b div 256 + off \<le> hi"
  shows "n div 256 + off \<in> {lo..hi}"
  using zdiv_mono1 [OF assms(1), of 256] zdiv_mono1 [OF assms(2), of 256] assms(3,4) by simp

text \<open>For byte samples the clamp of the colour conversion never acts: the three components are
  the rounded linear combinations themselves, luma within 16 to 235 and chroma within 16 to 240,
  and every intermediate sum stays within 32 bits.\<close>

theorem bt601_ranges:
  fixes r g b :: byte
  shows "uint (bt601_luma (uint r, uint g, uint b)) = (66 * uint r + 129 * uint g + 25 * uint b + 128) div 256 + 16
    \<and> uint (bt601_u (uint r, uint g, uint b)) = (- 38 * uint r - 74 * uint g + 112 * uint b + 128) div 256 + 128
    \<and> uint (bt601_v (uint r, uint g, uint b)) = (112 * uint r - 94 * uint g - 18 * uint b + 128) div 256 + 128
    \<and> uint (bt601_luma (uint r, uint g, uint b)) \<in> {16..235}
    \<and> uint (bt601_u (uint r, uint g, uint b)) \<in> {16..240}
    \<and> uint (bt601_v (uint r, uint g, uint b)) \<in> {16..240}
    \<and> {66 * uint r + 129 * uint g + 25 * uint b + 128, - 38 * uint r - 74 * uint g + 112 * uint b + 128,
       112 * uint r - 94 * uint g - 18 * uint b + 128} \<subseteq> {- (2 ^ 31)..<2 ^ 31}"
proof -
  note bs = uint_byte [of r] uint_byte [of g] uint_byte [of b]
  have y: "(66 * uint r + 129 * uint g + 25 * uint b + 128) div 256 + 16 \<in> {16..235}"
    by (intro div256_range [of 128 _ 56228]) (use bs in \<open>linarith | simp\<close>)+
  have u: "(- 38 * uint r - 74 * uint g + 112 * uint b + 128) div 256 + 128 \<in> {16..240}"
    by (intro div256_range [of "- 28432" _ 28688]) (use bs in \<open>linarith | simp\<close>)+
  have v: "(112 * uint r - 94 * uint g - 18 * uint b + 128) div 256 + 128 \<in> {16..240}"
    by (intro div256_range [of "- 28432" _ 28688]) (use bs in \<open>linarith | simp\<close>)+
  have d: "drop_bit 8 x = x div 256" for x :: int by (simp add: drop_bit_eq_div)
  have p: "(2 :: int) ^ 31 = 2147483648" by simp
  have i32: "{66 * uint r + 129 * uint g + 25 * uint b + 128, - 38 * uint r - 74 * uint g + 112 * uint b + 128,
       112 * uint r - 94 * uint g - 18 * uint b + 128} \<subseteq> {- (2 ^ 31)..<2 ^ 31}"
    unfolding p insert_subset atLeastLessThan_iff using bs by (intro conjI empty_subsetI; linarith)
  show ?thesis
    by (intro conjI i32) (use y u v in \<open>simp_all add: bt601_luma_def bt601_u_def bt601_v_def clamp_byte_id d\<close>)
qed

section \<open>Pictures filled by index\<close>

lemma cell_index:
  assumes "x < w" "y < h"
  shows "y * w + x < w * (h :: nat)"
proof -
  have "y * w + x < Suc y * w" using assms by simp
  also have "\<dots> \<le> h * w" using assms by (intro mult_le_mono1) simp
  finally show ?thesis by (simp add: mult.commute)
qed

lemma nv12_at_luma: "x < w \<Longrightarrow> y < h \<Longrightarrow> nv12_at w h luma chroma (y * w + x) = luma x y"
  by (simp add: nv12_at_def cell_index)

lemma nv12_at_chroma: "x < w \<Longrightarrow> nv12_at w h luma chroma (w * h + (cy * w + x)) = chroma x cy"
  by (simp add: nv12_at_def)

text \<open>Every position of the buffer is a luma cell or a chroma cell.\<close>

lemma nv12_position:
  fixes i w h :: nat
  assumes "i < w * h + w * (h div 2)"
  obtains (Luma) x y where "x < w" "y < h" "i = y * w + x"
    | (Chroma) x cy where "x < w" "cy < h div 2" "i = w * h + (cy * w + x)"
proof (cases "i < w * h")
  case True
  then have "0 < w" by (cases w) auto
  moreover from True this have "i div w < h" by (simp add: div_less_iff_less_mult mult.commute)
  ultimately show thesis using Luma [of "i mod w" "i div w"] by simp
next
  case False
  define j where "j = i - w * h"
  have j: "i = w * h + j" "j < w * (h div 2)" using False assms by (auto simp: j_def)
  then have "0 < w" by (cases w) auto
  moreover from j this have "j div w < h div 2" by (simp add: div_less_iff_less_mult mult.commute)
  ultimately show thesis using Chroma [of "j mod w" "j div w"] j by simp
qed

lemma filled_picture:
  assumes "filled (nv12_at w h luma chroma) S (replicate (w * h + w * (h div 2)) 0) out"
    and "\<And>x y. x < w \<Longrightarrow> y < h \<Longrightarrow> y * w + x \<in> S"
    and "\<And>x cy. x < w \<Longrightarrow> cy < h div 2 \<Longrightarrow> w * h + (cy * w + x) \<in> S \<or> chroma x cy = 0"
  shows "out = nv12_picture w h luma chroma"
proof -
  have "out = map (nv12_at w h luma chroma) [0..<length (replicate (w * h + w * (h div 2)) (0 :: byte))]"
  proof (rule filled_all [OF assms(1)])
    fix i assume "i < length (replicate (w * h + w * (h div 2)) (0 :: byte))"
    then have i: "i < w * h + w * (h div 2)" by simp
    then have "replicate (w * h + w * (h div 2)) (0 :: byte) ! i = 0" by simp
    with i show "i \<in> S \<or> nv12_at w h luma chroma i = replicate (w * h + w * (h div 2)) 0 ! i"
      by (cases rule: nv12_position) (use assms(2,3) in \<open>auto simp: nv12_at_chroma\<close>)
  qed
  then show ?thesis by (simp add: nv12_picture_def)
qed

section \<open>The fused pass equals the reference\<close>

abbreviation rgb_luma :: "channel_order \<Rightarrow> byte list \<Rightarrow> nat \<Rightarrow> nat \<Rightarrow> nat \<Rightarrow> byte" where
  "rgb_luma order bytes stride x y \<equiv> bt601_luma (pixel order bytes stride x y)"

abbreviation rgb_at :: "channel_order \<Rightarrow> byte list \<Rightarrow> nat \<Rightarrow> nat \<Rightarrow> nat \<Rightarrow> nat \<Rightarrow> byte" where
  "rgb_at order bytes stride w h \<equiv>
     nv12_at w h (rgb_luma order bytes stride) (rgb_chroma order bytes stride w)"

definition block_cells :: "nat \<Rightarrow> nat \<Rightarrow> nat \<Rightarrow> nat \<Rightarrow> nat set" where
  "block_cells w h cy k =
     {2 * cy * w + 2 * k, 2 * cy * w + (2 * k + 1), (2 * cy + 1) * w + 2 * k, (2 * cy + 1) * w + (2 * k + 1),
      w * h + (cy * w + 2 * k), w * h + (cy * w + (2 * k + 1))}"

definition odd_column_cells :: "nat \<Rightarrow> nat \<Rightarrow> nat set" where
  "odd_column_cells w cy = (if w mod 2 = 1 then {2 * cy * w + (w - 1), (2 * cy + 1) * w + (w - 1)} else {})"

lemma px_pixel:
  "px order bytes (2 * cy * stride + 8 * k) = pixel order bytes stride (2 * k) (2 * cy)"
  "px order bytes (2 * cy * stride + 8 * k + 4) = pixel order bytes stride (2 * k + 1) (2 * cy)"
  "px order bytes ((2 * cy + 1) * stride + 8 * k) = pixel order bytes stride (2 * k) (2 * cy + 1)"
  "px order bytes ((2 * cy + 1) * stride + 8 * k + 4) = pixel order bytes stride (2 * k + 1) (2 * cy + 1)"
  by (simp_all add: pixel_def algebra_simps)

lemma filled_block:
  assumes "cy < h div 2" and "k < w div 2" and f: "filled (rgb_at order bytes stride w h) S b0 b"
  shows "filled (rgb_at order bytes stride w h) (S \<union> block_cells w h cy k) b0
    (convert_block order bytes stride w h cy k b)"
proof -
  have x: "2 * k < w" "2 * k + 1 < w" and y: "2 * cy < h" "2 * cy + 1 < h" using assms by linarith+
  have c: "rgb_chroma order bytes stride w (2 * k) cy = bt601_u (block_average order bytes stride k cy)"
    "rgb_chroma order bytes stride w (2 * k + 1) cy = bt601_v (block_average order bytes stride k cy)"
    using assms(2) by (simp_all add: rgb_chroma_def)
  show ?thesis
    unfolding convert_block_def Let_def px_pixel block_average_def [symmetric]
    by (rule filled_weaken [OF filled_put [OF f]])
      (use x y c in \<open>auto simp: nv12_at_luma nv12_at_chroma block_cells_def simp del: One_nat_def\<close>)
qed

lemma filled_odd_column:
  assumes "cy < h div 2" and f: "filled (rgb_at order bytes stride w h) S b0 b"
  shows "filled (rgb_at order bytes stride w h) (S \<union> odd_column_cells w cy) b0
    (convert_odd_column order bytes stride w cy b)"
proof (cases "w mod 2 = 1")
  case True
  define x where "x = w - 1"
  have "x < w" using True by (cases w) (auto simp: x_def)
  moreover have "2 * cy < h" "2 * cy + 1 < h" using assms by linarith+
  ultimately have "list_all (\<lambda>(i, v). v = rgb_at order bytes stride w h i)
      [(2 * cy * w + x, bt601_luma (px order bytes (2 * cy * stride + x * 4))),
       ((2 * cy + 1) * w + x, bt601_luma (px order bytes ((2 * cy + 1) * stride + x * 4)))]"
    by (simp only: list.pred_inject prod.case nv12_at_luma pixel_def simp_thms)
  from filled_put [OF f this] True show ?thesis
    by (simp add: convert_odd_column_def odd_column_cells_def x_def Let_def)
qed (use f in \<open>simp add: convert_odd_column_def odd_column_cells_def\<close>)

definition rows_cells :: "nat \<Rightarrow> nat \<Rightarrow> nat set" where
  "rows_cells w h = (\<Union>cy\<in>{0..<h div 2}. (\<Union>k\<in>{0..<w div 2}. block_cells w h cy k) \<union> odd_column_cells w cy)"

lemma filled_rows:
  assumes f: "filled (rgb_at order bytes stride w h) S b0 b"
  shows "filled (rgb_at order bytes stride w h) (S \<union> rows_cells w h) b0
    (fold (\<lambda>cy nv12. convert_odd_column order bytes stride w cy
       (fold (convert_block order bytes stride w h cy) [0..<w div 2] nv12)) [0..<h div 2] b)"
proof -
  have row: "filled (rgb_at order bytes stride w h)
      (S \<union> ((\<Union>k\<in>{0..<w div 2}. block_cells w h cy k) \<union> odd_column_cells w cy)) b0
      (convert_odd_column order bytes stride w cy
         (fold (convert_block order bytes stride w h cy) [0..<w div 2] b))"
    if "cy < h div 2" "filled (rgb_at order bytes stride w h) S b0 b" for cy S b
    unfolding Un_assoc [symmetric]
    by (rule filled_odd_column [OF that(1)], rule filled_weaken, rule filled_fold [OF _ that(2)])
      (use that in \<open>auto intro: filled_block\<close>)
  show ?thesis
    by (rule filled_weaken, rule filled_fold [OF _ f]) (use row in \<open>auto simp: rows_cells_def\<close>)
qed

text \<open>Each luma cell above an odd last row, and each chroma cell that has a block, is filled.\<close>

lemma rows_cells_luma:
  assumes "x < w" "y < 2 * (h div 2)"
  shows "y * w + x \<in> rows_cells w h"
proof -
  define cy k where "cy = y div 2" and "k = x div 2"
  have cy: "cy < h div 2" "y = 2 * cy \<or> y = 2 * cy + 1" using assms(2) by (auto simp: cy_def)
  show ?thesis
  proof (cases "x < 2 * (w div 2)")
    case True
    then have k: "k < w div 2" "x = 2 * k \<or> x = 2 * k + 1" by (auto simp: k_def)
    with cy(2) have "y * w + x \<in> block_cells w h cy k" by (auto simp: block_cells_def)
    with cy(1) k(1) show ?thesis
      unfolding rows_cells_def by (intro UN_I [of cy] UnI1 UN_I [of k]) simp_all
  next
    case False
    with assms(1) have "x = w - 1" "w mod 2 = 1" by presburger+
    with cy(2) have "y * w + x \<in> odd_column_cells w cy" by (auto simp: odd_column_cells_def)
    with cy(1) show ?thesis by (auto simp: rows_cells_def)
  qed
qed

lemma rows_cells_chroma:
  assumes "x < 2 * (w div 2)" "cy < h div 2"
  shows "w * h + (cy * w + x) \<in> rows_cells w h"
proof -
  define k where "k = x div 2"
  have k: "k < w div 2" "x = 2 * k \<or> x = 2 * k + 1" using assms(1) by (auto simp: k_def)
  then have "w * h + (cy * w + x) \<in> block_cells w h cy k" by (auto simp: block_cells_def)
  with assms(2) k(1) show ?thesis
    unfolding rows_cells_def by (intro UN_I [of cy] UnI1 UN_I [of k]) simp_all
qed

lemma convert_rgb_rows_picture:
  "convert_rgb_rows order bytes stride w h (replicate (w * h + w * (h div 2)) 0)
   = nv12_picture w h (rgb_luma order bytes stride) (rgb_chroma order bytes stride w)"
proof -
  define b0 :: "byte list" where "b0 = replicate (w * h + w * (h div 2)) 0"
  define last where "last = (if h mod 2 = 1 then (\<lambda>x. (h - 1) * w + x) ` {0..<w} else {})"
  have rows: "filled (rgb_at order bytes stride w h) ({} \<union> rows_cells w h) b0
    (fold (\<lambda>cy nv12. convert_odd_column order bytes stride w cy
       (fold (convert_block order bytes stride w h cy) [0..<w div 2] nv12)) [0..<h div 2] b0)"
    by (rule filled_rows [OF filled_refl])
  have "filled (rgb_at order bytes stride w h) (rows_cells w h \<union> last) b0
      (convert_rgb_rows order bytes stride w h b0)"
  proof (cases "h mod 2 = 1")
    case True
    define y where "y = h - 1"
    have "y < h" using True by (cases h) (auto simp: y_def)
    then have "list_all (\<lambda>(i, v). v = rgb_at order bytes stride w h i)
        (map (\<lambda>x. (y * w + x, bt601_luma (px order bytes (y * stride + x * 4)))) [0..<w])"
      by (simp add: list_all_iff nv12_at_luma pixel_def)
    from filled_put [OF rows this] True show ?thesis
      by (simp add: convert_rgb_rows_def last_def y_def Let_def image_image)
  next
    case False
    with rows show ?thesis by (simp add: convert_rgb_rows_def last_def)
  qed
  then show ?thesis
    unfolding b0_def
  proof (rule filled_picture)
    fix x y assume xy: "x < w" "y < h"
    show "y * w + x \<in> rows_cells w h \<union> last"
    proof (cases "y < 2 * (h div 2)")
      case True
      with xy show ?thesis by (simp add: rows_cells_luma)
    next
      case False
      with xy have "y = h - 1" "h mod 2 = 1" by presburger+
      with xy show ?thesis by (auto simp: last_def)
    qed
  next
    fix x cy assume "x < w" "cy < h div 2"
    then show "w * h + (cy * w + x) \<in> rows_cells w h \<union> last \<or> rgb_chroma order bytes stride w x cy = 0"
      by (cases "x < 2 * (w div 2)") (simp_all add: rows_cells_chroma rgb_chroma_def)
  qed
qed

text \<open>The single pass over blocks of four pixels, with its odd column and odd row, produces the same
  picture as separate luma and chroma passes, for every size, stride and content; it refuses a
  buffer exactly when the stride or the data is too short.\<close>

theorem packed_rgb_to_nv12_reference:
  "packed_rgb_to_nv12 bytes stride w h order =
     (if w * 4 \<le> stride \<and> stride * h \<le> length bytes
      then Ok (nv12_picture w h (\<lambda>x y. bt601_luma (pixel order bytes stride x y))
                 (rgb_chroma order bytes stride w))
      else Err (''RGB buffer too small: '' @ decimal (length bytes) @ '' bytes, need stride ''
                @ decimal stride @ '' * height '' @ decimal h))"
  by (auto simp: packed_rgb_to_nv12_def convert_rgb_rows_picture not_less)

text \<open>Every sample the reference, and so the fused pass, looks at lies inside the buffer.\<close>

lemma pixel_in_bounds:
  fixes w stride x y c h :: nat
  assumes "w * 4 \<le> stride" "x < w" "y < h" "c < 4"
  shows "y * stride + x * 4 + c < stride * h"
  using cell_index [of "x * 4 + c" stride y h] assms by simp

section \<open>Planar input keeps its samples\<close>

definition row_cells :: "nat \<Rightarrow> nat \<Rightarrow> nat \<Rightarrow> nat set" where
  "row_cells dst w n = (\<Union>row\<in>set [0..<n]. (\<lambda>c. dst + row * w + c) ` set [0..<w])"

lemma row_cellsI: "row < n \<Longrightarrow> c < w \<Longrightarrow> dst + (row * w + c) \<in> row_cells dst w n"
  unfolding row_cells_def add.assoc [symmetric] by (intro UN_I [of row] imageI) simp_all

lemma filled_copy_row:
  assumes "filled f S b0 b" and "\<And>c. c < w \<Longrightarrow> bytes ! (src + c) = f (dst + c)"
  shows "filled f (S \<union> (\<lambda>c. dst + c) ` set [0..<w]) b0 (copy_row bytes src dst w b)"
proof -
  have s: "fst ` set (map (\<lambda>c. (dst + c, bytes ! (src + c))) [0..<w]) = (\<lambda>c. dst + c) ` set [0..<w]"
    by (simp only: set_map image_image fst_conv)
  show ?thesis
    unfolding copy_row_def s [symmetric]
    by (rule filled_put [OF assms(1)]) (use assms(2) in \<open>simp add: list_all_iff\<close>)
qed

lemma filled_copy_rows:
  assumes "filled f S b0 b"
    and "\<And>row c. row < n \<Longrightarrow> c < w \<Longrightarrow> bytes ! (src + row * stride + c) = f (dst + (row * w + c))"
  shows "filled f (S \<union> row_cells dst w n) b0 (copy_rows bytes src stride dst w n b)"
proof -
  have "filled f (S \<union> (\<lambda>c. dst + row * w + c) ` set [0..<w]) b0
      (copy_row bytes (src + row * stride) (dst + row * w) w b)"
    if "row \<in> set [0..<n]" "filled f S b0 b" for row S b
    by (rule filled_copy_row) (use that assms(2) in \<open>auto simp: add.assoc\<close>)
  from filled_fold [OF this assms(1)] show ?thesis
    unfolding copy_rows_def row_cells_def .
qed

definition pair_cells :: "nat \<Rightarrow> nat \<Rightarrow> nat \<Rightarrow> nat set" where
  "pair_cells dst w ch = (\<Union>row\<in>set [0..<ch]. \<Union>col\<in>set [0..<w div 2].
     {dst + (row * w + col * 2), dst + (row * w + (col * 2 + 1))})"

lemma pair_cellsI:
  assumes "row < ch" "c < 2 * (w div 2)"
  shows "dst + (row * w + c) \<in> pair_cells dst w ch"
proof -
  have "c = c div 2 * 2 \<or> c = c div 2 * 2 + 1" by presburger
  then have "dst + (row * w + c) \<in> {dst + (row * w + c div 2 * 2), dst + (row * w + (c div 2 * 2 + 1))}"
    by auto
  then show ?thesis
    unfolding pair_cells_def using assms by (intro UN_I [of row] UN_I [of "c div 2"]) auto
qed

lemma filled_interleave:
  assumes "filled f S b0 b"
    and "\<And>row col. row < ch \<Longrightarrow> col < w div 2 \<Longrightarrow>
      bytes ! (u_base + row * c_stride + col) = f (dst + (row * w + col * 2))
      \<and> bytes ! (v_base + row * c_stride + col) = f (dst + (row * w + (col * 2 + 1)))"
  shows "filled f (S \<union> pair_cells dst w ch) b0
    (interleave bytes u_base v_base c_stride dst w ch b)"
proof -
  let ?p = "\<lambda>row col. {dst + (row * w + col * 2), dst + (row * w + (col * 2 + 1))}"
  have "filled f (S \<union> (\<Union>col\<in>set [0..<w div 2]. ?p row col)) b0 (fold (\<lambda>col.
       put [(dst + (row * w + col * 2), bytes ! (u_base + row * c_stride + col)),
            (dst + (row * w + (col * 2 + 1)), bytes ! (v_base + row * c_stride + col))]) [0..<w div 2] b)"
    if "row \<in> set [0..<ch]" "filled f S b0 b" for row S b
  proof (rule filled_fold [OF _ that(2)])
    fix col b S assume "col \<in> set [0..<w div 2]" "filled f S b0 b"
    with that(1) assms(2) filled_put [OF this(2), of "[(dst + (row * w + col * 2), bytes ! (u_base + row * c_stride + col)),
            (dst + (row * w + (col * 2 + 1)), bytes ! (v_base + row * c_stride + col))]"]
    show "filled f (S \<union> ?p row col) b0
       (put [(dst + (row * w + col * 2), bytes ! (u_base + row * c_stride + col)),
            (dst + (row * w + (col * 2 + 1)), bytes ! (v_base + row * c_stride + col))] b)"
      by simp
  qed
  from filled_fold [OF this assms(1)]
  have all: "filled f (S \<union> (\<Union>row\<in>set [0..<ch]. \<Union>col\<in>set [0..<w div 2]. ?p row col)) b0
      (interleave bytes u_base v_base c_stride dst w ch b)"
    unfolding interleave_def .
  show ?thesis by (rule filled_weaken [OF all]) (simp only: pair_cells_def)
qed

lemma passthrough_picture:
  "copy_rows bytes (stride * h) stride (w * h) w (h div 2)
     (copy_rows bytes 0 stride 0 w h (replicate (w * h + w * (h div 2)) 0))
   = nv12_picture w h (\<lambda>x y. bytes ! (y * stride + x)) (\<lambda>x cy. bytes ! (stride * h + cy * stride + x))"
proof (rule filled_picture)
  show "filled (nv12_at w h (\<lambda>x y. bytes ! (y * stride + x)) (\<lambda>x cy. bytes ! (stride * h + cy * stride + x)))
     (({} \<union> row_cells 0 w h) \<union> row_cells (w * h) w (h div 2)) (replicate (w * h + w * (h div 2)) 0)
     (copy_rows bytes (stride * h) stride (w * h) w (h div 2)
       (copy_rows bytes 0 stride 0 w h (replicate (w * h + w * (h div 2)) 0)))"
    by (intro filled_copy_rows filled_refl) (simp_all add: nv12_at_luma nv12_at_chroma)
qed (use row_cellsI [of _ _ _ _ 0] row_cellsI in \<open>auto\<close>)

lemma i420_picture:
  "interleave bytes u_base v_base c_stride (w * h) w (h div 2)
     (copy_rows bytes 0 stride 0 w h (replicate (w * h + w * (h div 2)) 0))
   = nv12_picture w h (\<lambda>x y. bytes ! (y * stride + x))
       (\<lambda>x cy. if x < 2 * (w div 2)
               then bytes ! ((if even x then u_base else v_base) + cy * c_stride + x div 2) else 0)"
  (is "_ = nv12_picture w h ?l ?c")
proof (rule filled_picture)
  show "filled (nv12_at w h ?l ?c)
     (({} \<union> row_cells 0 w h) \<union> pair_cells (w * h) w (h div 2))
     (replicate (w * h + w * (h div 2)) 0)
     (interleave bytes u_base v_base c_stride (w * h) w (h div 2)
       (copy_rows bytes 0 stride 0 w h (replicate (w * h + w * (h div 2)) 0)))"
  proof (intro filled_interleave filled_copy_rows filled_refl)
    fix row col assume "row < h div 2" "col < w div 2"
    then have x: "col * 2 < w" "col * 2 + 1 < w" "col * 2 < 2 * (w div 2)" "col * 2 + 1 < 2 * (w div 2)"
      by linarith+
    show "bytes ! (u_base + row * c_stride + col) = nv12_at w h ?l ?c (w * h + (row * w + col * 2)) \<and>
       bytes ! (v_base + row * c_stride + col) = nv12_at w h ?l ?c (w * h + (row * w + (col * 2 + 1)))"
      unfolding nv12_at_chroma [OF x(1)] nv12_at_chroma [OF x(2)] using x(3,4) by simp
  qed (simp add: nv12_at_luma)
qed (use row_cellsI [of _ _ _ _ 0] pair_cellsI in \<open>auto\<close>)

text \<open>A frame is converted exactly when it has pixel data, the encoder's size, an 8-bit format and a
  buffer of sufficient length.  The result has \<open>w * h + w * (h / 2)\<close> bytes: planar input keeps each
  sample, and the chroma planes of I420 are interleaved; packed input is converted by the reference.\<close>

theorem frame_to_nv12_picture:
  "case frame_to_nv12 frame w h of
     Inr nv12 \<Rightarrow>
       frame_data frame \<noteq> [] \<and> frame_res frame = \<lparr>width = w, height = h\<rparr>
       \<and> length nv12 = w * h + w * (h div 2)
       \<and> (let s = max (frame_stride frame) w; d = frame_data frame in
          case format frame of
            Bgra8 \<Rightarrow> w * 4 \<le> frame_stride frame
              \<and> nv12 = nv12_picture w h (\<lambda>x y. bt601_luma (pixel BgraOrder d (frame_stride frame) x y))
                         (rgb_chroma BgraOrder d (frame_stride frame) w)
          | Rgba8 \<Rightarrow> w * 4 \<le> frame_stride frame
              \<and> nv12 = nv12_picture w h (\<lambda>x y. bt601_luma (pixel RgbaOrder d (frame_stride frame) x y))
                         (rgb_chroma RgbaOrder d (frame_stride frame) w)
          | Nv12 \<Rightarrow> s * h + s * (h div 2) \<le> length d
              \<and> nv12 = nv12_picture w h (\<lambda>x y. d ! (y * s + x)) (\<lambda>x cy. d ! (s * h + cy * s + x))
          | I420 \<Rightarrow> s * h + 2 * (s div 2 * (h div 2)) \<le> length d
              \<and> nv12 = nv12_picture w h (\<lambda>x y. d ! (y * s + x))
                  (\<lambda>x cy. if x < 2 * (w div 2)
                     then d ! ((if even x then s * h else s * h + s div 2 * (h div 2)) + cy * (s div 2) + x div 2)
                     else 0)
          | P010 \<Rightarrow> False)
   | Inl e \<Rightarrow> \<exists>reason. e = EncodeError (sequence frame) reason"
proof (cases "frame_data frame = [] \<or> width (frame_res frame) \<noteq> w \<or> height (frame_res frame) \<noteq> h")
  case True
  then show ?thesis by (auto simp: frame_to_nv12_def Let_def)
next
  case False
  then have r: "frame_res frame = \<lparr>width = w, height = h\<rparr>" by simp
  show ?thesis
    using False r
    by (cases "format frame")
      (auto simp: frame_to_nv12_def Let_def packed_rgb_to_nv12_def convert_rgb_rows_picture
        passthrough_nv12_def passthrough_picture i420_to_nv12_def i420_picture
        nv12_picture_def not_less)
qed

end
