(* ===== verification/Scale.thy ===== *)
theory Scale
  imports Core_Types
begin

text \<open>
  CPU downscaling for encoders with a maximum coded size, \<open>flux-encode/src/scale.rs\<close>.  The horizontal
  pass works on 16-bit words and the vertical pass on 32-bit words, both with wrap-around, as the
  SSE2 and the scalar variants do.  Subtractions that would go below zero panic (\<open>Panics\<close>).  The
  row cache of the loop (\<open>top\<close>, \<open>bot\<close> and the rows they hold) is part of the model; the marker
  \<open>usize::MAX\<close> is \<open>None\<close>.
\<close>

section \<open>Target size\<close>

text \<open>Clearing the lowest bit is rounding down to an even number.\<close>

definition even_down :: "nat \<Rightarrow> nat" where
  "even_down n = n div 2 * 2"

definition fit_within :: "resolution \<Rightarrow> resolution \<Rightarrow> resolution" where
  "fit_within src limit =
     (if width src = 0 \<or> height src = 0 then src
      else if width src \<le> width limit \<and> height src \<le> height limit then src
      else let (num, den) = (if width limit * height src \<le> height limit * width src
                             then (width limit, width src) else (height limit, height src));
               w = even_down (width src * num div den);
               h = even_down (height src * num div den)
           in \<lparr>width = max w 2, height = max h 2\<rparr>)"

section \<open>Bilinear filter\<close>

definition FP_BITS :: nat where "FP_BITS = 8"
definition FP_ONE :: nat where "FP_ONE = 2 ^ FP_BITS"

text \<open>Source step per target pixel, cut to 32 bits.\<close>

definition fp_ratio :: "nat \<Rightarrow> nat \<Rightarrow> nat" where
  "fp_ratio s d = ((s - 1) * FP_ONE div max d 1) mod 2 ^ 32"

text \<open>Source position and weight of target position \<open>i\<close>.\<close>

definition fp_pos :: "nat \<Rightarrow> nat \<Rightarrow> nat \<Rightarrow> nat \<times> nat" where
  "fp_pos s d i = (min (i * fp_ratio s d div FP_ONE) (s - 2), i * fp_ratio s d mod FP_ONE)"

definition interpolate_row :: "byte list \<Rightarrow> (nat \<times> nat) list \<Rightarrow> u16 list" where
  "interpolate_row src xs =
     concat (map (\<lambda>(sx, wx). map (\<lambda>c.
        ucast (src ! (sx * 4 + c)) * word_of_nat (FP_ONE - wx)
        + ucast (src ! (sx * 4 + 4 + c)) * word_of_nat wx) [0..<4]) xs)"

definition blend_rows :: "u16 list \<Rightarrow> u16 list \<Rightarrow> nat \<Rightarrow> byte list" where
  "blend_rows upper lower wy =
     map (\<lambda>(t, b). ucast (drop_bit (2 * FP_BITS)
       (ucast t * word_of_nat (FP_ONE - wy) + ucast b * word_of_nat wy :: u32))) (zip upper lower)"

record row_cache =
  top_buf :: "u16 list"
  bot_buf :: "u16 list"
  top_row :: "nat option"
  bot_row :: "nat option"

definition cache_rows ::
  "(nat \<Rightarrow> byte list) \<Rightarrow> (nat \<times> nat) list \<Rightarrow> nat \<Rightarrow> row_cache \<Rightarrow> row_cache" where
  "cache_rows src_row xs sy c =
     (let c = (if top_row c \<noteq> Some sy
               then (if bot_row c = Some sy
                     then c\<lparr>top_buf := bot_buf c, bot_buf := top_buf c, bot_row := None\<rparr>
                     else c\<lparr>top_buf := interpolate_row (src_row sy) xs\<rparr>)\<lparr>top_row := Some sy\<rparr>
               else c)
      in if bot_row c \<noteq> Some (sy + 1)
         then c\<lparr>bot_buf := interpolate_row (src_row (sy + 1)) xs, bot_row := Some (sy + 1)\<rparr>
         else c)"

fun scale_rows ::
  "(nat \<Rightarrow> byte list) \<Rightarrow> (nat \<times> nat) list \<Rightarrow> (nat \<times> nat) list \<Rightarrow> row_cache \<Rightarrow> byte list" where
  "scale_rows src_row xs [] c = []"
| "scale_rows src_row xs ((sy, wy) # ys) c =
     (let c = cache_rows src_row xs sy c
      in blend_rows (top_buf c) (bot_buf c) wy @ scale_rows src_row xs ys c)"

datatype 'a checked = Returns 'a | Panics

definition scale_err :: "captured_frame \<Rightarrow> string \<Rightarrow> (flux_error + captured_frame) checked" where
  "scale_err frame reason = Returns (Err (EncodeError (sequence frame) (''downscale: '' @ reason)))"

definition show_format :: "pixel_format \<Rightarrow> string" where
  "show_format f = (case f of Bgra8 \<Rightarrow> ''Bgra8'' | Rgba8 \<Rightarrow> ''Rgba8'' | Nv12 \<Rightarrow> ''Nv12'' | P010 \<Rightarrow> ''P010'' | I420 \<Rightarrow> ''I420'')"

definition downscale_frame :: "captured_frame \<Rightarrow> resolution \<Rightarrow> (flux_error + captured_frame) checked" where
  "downscale_frame frame target =
     (let sw = width (frame_res frame); sh = height (frame_res frame);
          dw = width target; dh = height target; stride = frame_stride frame; bytes = frame_data frame
      in if frame_res frame = target then Returns (Ok frame)
         else if format frame \<noteq> Bgra8 \<and> format frame \<noteq> Rgba8
         then scale_err frame (''unsupported pixel format '' @ show_format (format frame) @ '' (expected BGRA/RGBA)'')
         else if bytes = [] then scale_err frame ''frame has no CPU pixel data (GPU-only frames unsupported)''
         else if dw = 0 \<or> dh = 0 \<or> dw > sw \<or> dh > sh
         then scale_err frame (''invalid target '' @ show_resolution target @ '' for source ''
                               @ show_resolution (frame_res frame))
         else if length bytes < stride * sh \<or> stride < sw * 4
         then scale_err frame (''source buffer too small ('' @ decimal (length bytes) @ '' bytes for ''
                @ show_resolution (frame_res frame) @ '' stride '' @ decimal stride @ '')'')
         else if sw < 2 \<or> sh < 2 then Panics
         else let xs = map (fp_pos sw dw) [0..<dw]; ys = map (fp_pos sh dh) [0..<dh];
                  src_row = (\<lambda>y. take (sw * 4) (drop (y * stride) bytes));
                  cache = \<lparr>top_buf = replicate (dw * 4) 0, bot_buf = replicate (dw * 4) 0, top_row = None, bot_row = None\<rparr>
              in Returns (Ok (frame\<lparr>frame_res := target, frame_stride := dw * 4,
                                   frame_data := scale_rows src_row xs ys cache, gpu_resident := False\<rparr>)))"

section \<open>Reference\<close>

text \<open>One sample of the target, computed per pixel on unbounded numbers.\<close>

definition ref_sample :: "byte list \<Rightarrow> nat \<Rightarrow> nat \<times> nat \<Rightarrow> nat \<times> nat \<Rightarrow> nat \<Rightarrow> nat" where
  "ref_sample bytes stride yp xp c =
     (case (yp, xp) of ((sy, wy), (sx, wx)) \<Rightarrow>
      let p = (\<lambda>y x. unat (bytes ! (y * stride + (x * 4 + c))));
          t = p sy sx * (256 - wx) + p sy (sx + 1) * wx;
          b = p (sy + 1) sx * (256 - wx) + p (sy + 1) (sx + 1) * wx
      in (t * (256 - wy) + b * wy) div 65536)"

definition reference_downscale :: "byte list \<Rightarrow> nat \<Rightarrow> nat \<Rightarrow> nat \<Rightarrow> nat \<Rightarrow> nat \<Rightarrow> byte list" where
  "reference_downscale bytes stride sw sh dw dh =
     concat (map (\<lambda>dy. concat (map (\<lambda>dx. map (\<lambda>c.
       word_of_nat (ref_sample bytes stride (fp_pos sh dh dy) (fp_pos sw dw dx) c)) [0..<4])
       [0..<dw])) [0..<dh])"

section \<open>The target fits\<close>

lemma even_down_le: "even_down n \<le> n"
  by (simp add: even_down_def)

lemma even_down_even: "even (even_down n)"
  by (simp add: even_down_def)

lemma even_down_mono: "m \<le> n \<Longrightarrow> even_down m \<le> even_down n"
  by (simp add: even_down_def div_le_mono)

text \<open>The scaled dimensions before the lower bound of two: the limiting side becomes the (even) limit,
  the other one stays within its limit.\<close>

lemma scaled_le_limit:
  fixes sw sh lw lh :: nat
  assumes "lw * sh \<le> lh * sw" "0 < sw"
  shows "sh * lw div sw \<le> lh"
proof -
  have "sh * lw div sw \<le> lh * sw div sw" using assms(1) by (intro div_le_mono) (simp add: mult.commute)
  with assms(2) show ?thesis by simp
qed

lemma scaled_le_source: "lw \<le> sw \<Longrightarrow> 0 < sw \<Longrightarrow> sh * lw div sw \<le> (sh :: nat)"
  by (rule scaled_le_limit) (simp_all add: mult.commute)

text \<open>The side chosen as limiting does exceed its limit when any side does.\<close>

lemma limiting_side_exceeds:
  fixes sw sh lw lh :: nat
  assumes "lw * sh \<le> lh * sw" "0 < sw" "lw < sw \<or> lh < sh"
  shows "lw < sw"
proof (rule ccontr)
  assume "\<not> lw < sw"
  with assms(3) have "sw \<le> lw" "lh < sh" by auto
  have "lh * sw < sh * sw" using \<open>lh < sh\<close> assms(2) by simp
  also have "\<dots> \<le> lw * sh" using \<open>sw \<le> lw\<close> by (simp add: mult.commute)
  finally show False using assms(1) by simp
qed

text \<open>A size within the limits, or empty, is kept.  Any other size is replaced by one with even
  dimensions of which one is the even part of its limit, and both are within the limits and not
  larger than the source, unless that would be less than two; the shapes agree up to rounding.\<close>

theorem fit_within_spec:
  "case fit_within src limit of r \<Rightarrow>
     if width src = 0 \<or> height src = 0 \<or> (width src \<le> width limit \<and> height src \<le> height limit) then r = src
     else even (width r) \<and> even (height r)
       \<and> (width r = max (even_down (width limit)) 2 \<or> height r = max (even_down (height limit)) 2)
       \<and> width r \<le> max (min (width limit) (width src)) 2 \<and> height r \<le> max (min (height limit) (height src)) 2
       \<and> (let (num, den) = (if width limit * height src \<le> height limit * width src
                            then (width limit, width src) else (height limit, height src))
          in width src * num < (width r + 2) * den \<and> height src * num < (height r + 2) * den)"
proof -
  define sw sh lw lh where d: "sw = width src" "sh = height src" "lw = width limit" "lh = height limit"
  show ?thesis
  proof (cases "sw = 0 \<or> sh = 0 \<or> (sw \<le> lw \<and> sh \<le> lh)")
    case True
    then show ?thesis by (auto simp: fit_within_def d)
  next
    case False
    then have pos: "0 < sw" "0 < sh" and ex: "lw < sw \<or> lh < sh" by auto
    have round: "a < (max (even_down (a div n)) 2 + 2) * n" if "0 < n" for a n :: nat
    proof -
      have "a < (a div n + 1) * n" using dividend_less_div_times [OF that, of a] by simp
      also have "\<dots> \<le> (even_down (a div n) + 2) * n" by (intro mult_le_mono1) (auto simp: even_down_def)
      also have "\<dots> \<le> (max (even_down (a div n)) 2 + 2) * n" by (intro mult_le_mono1) simp
      finally show ?thesis .
    qed
    have even: "even (max (even_down n) 2)" for n by (simp add: max_def even_down_even)
    have low: "even_down n \<le> max m 2" if "n \<le> m" for n m
      using that even_down_le [of n] by simp
    show ?thesis
    proof (cases "lw * sh \<le> lh * sw")
      case True
      have "sh * lw div sw \<le> lh" by (rule scaled_le_limit [OF True pos(1)])
      moreover have lw: "lw < sw"
        using limiting_side_exceeds [OF True pos(1)] ex by blast
      moreover from lw pos have "sh * lw div sw \<le> sh" by (simp add: scaled_le_source)
      ultimately show ?thesis
        using False True pos even round [OF pos(1), of "sw * lw"] round [OF pos(1), of "sh * lw"]
          low [of lw "min lw sw"] low [of "sh * lw div sw" "min lh sh"]
        by (simp add: fit_within_def d [symmetric] Let_def)
    next
      case le: False
      then have "sw * lh div sh \<le> lw" by (intro scaled_le_limit [OF _ pos(2)]) (simp add: mult.commute)
      moreover have lh: "lh < sh"
        using limiting_side_exceeds [of lh sw lw sh] le ex pos by (auto simp: mult.commute)
      moreover from lh pos have "sw * lh div sh \<le> sw" by (simp add: scaled_le_source)
      ultimately show ?thesis
        using False le pos even round [OF pos(2), of "sw * lh"] round [OF pos(2), of "sh * lh"]
          low [of lh "min lh sh"] low [of "sw * lh div sh" "min lw sw"]
        by (simp add: fit_within_def d [symmetric] Let_def)
    qed
  qed
qed

section \<open>The filter equals the reference\<close>

text \<open>Neither pass overflows its word size.\<close>

lemma weighted_le:
  fixes p q w m :: nat
  assumes "p \<le> m" "q \<le> m" "w \<le> 256"
  shows "p * (256 - w) + q * w \<le> m * 256"
proof -
  have "p * (256 - w) + q * w \<le> m * (256 - w) + m * w"
    using assms by (intro add_mono mult_le_mono1)
  also have "\<dots> = m * 256" using assms(3) by (simp flip: add_mult_distrib2)
  finally show ?thesis .
qed

lemma weighted_ge:
  fixes p q w m :: nat
  assumes "m \<le> p" "m \<le> q" "w \<le> 256"
  shows "m * 256 \<le> p * (256 - w) + q * w"
proof -
  have "m * 256 = m * (256 - w) + m * w" using assms(3) by (simp flip: add_mult_distrib2)
  also have "\<dots> \<le> p * (256 - w) + q * w" using assms by (intro add_mono mult_le_mono1)
  finally show ?thesis .
qed

lemma unat_byte_le: "unat (x :: byte) \<le> 255"
  using byte_lt_256 [of x] by simp

lemma unat_mult_add_16:
  fixes a b c d :: u16
  assumes "unat a * unat b + unat c * unat d < 2 ^ 16"
  shows "unat (a * b + c * d) = unat a * unat b + unat c * unat d"
  using assms by (simp add: unat_word_ariths mod_simps)

lemma unat_mult_add_32:
  fixes a b c d :: u32
  assumes "unat a * unat b + unat c * unat d < 2 ^ 32"
  shows "unat (a * b + c * d) = unat a * unat b + unat c * unat d"
  using assms by (simp add: unat_word_ariths mod_simps)

lemma horizontal_exact:
  fixes p q :: byte
  assumes "w < 256"
  shows "unat (ucast p * word_of_nat (FP_ONE - w) + ucast q * word_of_nat w :: u16)
    = unat p * (256 - w) + unat q * w"
proof -
  have "unat p * (256 - w) + unat q * w \<le> 255 * 256"
    using assms by (intro weighted_le unat_byte_le) simp
  moreover have "unat (word_of_nat (256 - w) :: u16) = 256 - w" "unat (word_of_nat w :: u16) = w"
    using assms by (simp_all add: unat_of_nat del: of_nat_diff)
  moreover have "unat (ucast x :: u16) = unat x" for x :: byte
    using byte_lt_256 [of x] by (simp add: unsigned_ucast_eq take_bit_eq_mod)
  ultimately show ?thesis
    by (simp add: FP_ONE_def FP_BITS_def unat_mult_add_16 del: of_nat_diff)
qed

lemma vertical_exact:
  fixes t b :: u16
  assumes "w < 256" "unat t \<le> 65280" "unat b \<le> 65280"
  shows "(ucast (drop_bit (2 * FP_BITS)
       (ucast t * word_of_nat (FP_ONE - w) + ucast b * word_of_nat w :: u32)) :: byte)
    = word_of_nat ((unat t * (256 - w) + unat b * w) div 65536)"
proof -
  have "unat t * (256 - w) + unat b * w \<le> 65280 * 256"
    using assms by (intro weighted_le) simp_all
  moreover have "unat (word_of_nat (256 - w) :: u32) = 256 - w" "unat (word_of_nat w :: u32) = w"
    using assms by (simp_all add: unat_of_nat del: of_nat_diff)
  moreover have "unat (ucast x :: u32) = unat x" for x :: u16
    using unat_bound [of x] by (simp add: unsigned_ucast_eq take_bit_eq_mod)
  ultimately have "unat (ucast t * word_of_nat (FP_ONE - w) + ucast b * word_of_nat w :: u32)
      = unat t * (256 - w) + unat b * w"
    by (simp add: FP_ONE_def FP_BITS_def unat_mult_add_32 del: of_nat_diff)
  then have "unat (drop_bit (2 * FP_BITS) (ucast t * word_of_nat (FP_ONE - w) + ucast b * word_of_nat w :: u32))
      = (unat t * (256 - w) + unat b * w) div 65536"
    unfolding unat_drop_bit_eq by (simp add: drop_bit_eq_div FP_BITS_def)
  then show ?thesis by (simp add: word_unat_eq_iff unsigned_ucast_eq unat_of_nat take_bit_eq_mod)
qed

text \<open>The row cache always holds the rows it names.\<close>

definition cache_ok :: "(nat \<Rightarrow> byte list) \<Rightarrow> (nat \<times> nat) list \<Rightarrow> row_cache \<Rightarrow> bool" where
  "cache_ok src_row xs c \<longleftrightarrow>
     (case top_row c of None \<Rightarrow> True | Some r \<Rightarrow> top_buf c = interpolate_row (src_row r) xs)
     \<and> (case bot_row c of None \<Rightarrow> True | Some r \<Rightarrow> bot_buf c = interpolate_row (src_row r) xs)"

lemma cache_rows_ok:
  assumes "cache_ok src_row xs c"
  shows "cache_ok src_row xs (cache_rows src_row xs sy c)
    \<and> top_buf (cache_rows src_row xs sy c) = interpolate_row (src_row sy) xs
    \<and> bot_buf (cache_rows src_row xs sy c) = interpolate_row (src_row (sy + 1)) xs"
  using assms by (auto simp: cache_ok_def cache_rows_def Let_def split: option.splits)

lemma scale_rows_blend:
  "cache_ok src_row xs c \<Longrightarrow> scale_rows src_row xs ys c
     = concat (map (\<lambda>(sy, wy). blend_rows (interpolate_row (src_row sy) xs)
                                   (interpolate_row (src_row (sy + 1)) xs) wy) ys)"
proof (induction ys arbitrary: c)
  case (Cons y ys)
  then show ?case using cache_rows_ok [of src_row xs c "fst y"] by (cases y) (simp add: Let_def)
qed simp

lemma zip_concat_map:
  "(\<And>x. x \<in> set xs \<Longrightarrow> length (f x) = length (g x))
     \<Longrightarrow> zip (concat (map f xs)) (concat (map g xs)) = concat (map (\<lambda>x. zip (f x) (g x)) xs)"
  by (induction xs) simp_all

lemma fp_pos_bounds:
  assumes "2 \<le> s"
  shows "fst (fp_pos s d i) + 1 < s" "snd (fp_pos s d i) < 256"
  using assms by (auto simp: fp_pos_def FP_ONE_def FP_BITS_def)

lemma blend_reference:
  assumes fits: "sw * 4 \<le> stride" "stride * sh \<le> length bytes"
    and y: "sy + 1 < sh" "wy < 256" and x: "list_all (\<lambda>(sx, wx). sx + 1 < sw \<and> wx < 256) xs"
  shows "blend_rows (interpolate_row (take (sw * 4) (drop (sy * stride) bytes)) xs)
      (interpolate_row (take (sw * 4) (drop ((sy + 1) * stride) bytes)) xs) wy
    = concat (map (\<lambda>xp. map (\<lambda>c. word_of_nat (ref_sample bytes stride (sy, wy) xp c)) [0..<4]) xs)"
proof -
  have row: "take (sw * 4) (drop (r * stride) bytes) ! (k * 4 + c) = bytes ! (r * stride + (k * 4 + c))"
    if "r < sh" "k < sw" "c < 4" for r k c
  proof -
    have "r * stride + sw * 4 \<le> (r + 1) * stride" using fits(1) by simp
    also have "\<dots> \<le> stride * sh" using that(1) by (metis Suc_eq_plus1 Suc_leI mult.commute mult_le_mono2)
    finally have "r * stride + sw * 4 \<le> length bytes" using fits(2) by simp
    with that show ?thesis by simp
  qed
  define r0 r1 where r: "r0 = take (sw * 4) (drop (sy * stride) bytes)"
    "r1 = take (sw * 4) (drop ((sy + 1) * stride) bytes)"
  have xs: "sx + 1 < sw \<and> wx < 256" if "(sx, wx) \<in> set xs" for sx wx
    using that x by (auto simp: list_all_iff)
  have sample: "(ucast (drop_bit (2 * FP_BITS)
        (ucast (ucast (r0 ! (sx * 4 + c)) * word_of_nat (FP_ONE - wx)
                + ucast (r0 ! (sx * 4 + 4 + c)) * word_of_nat wx :: u16) * word_of_nat (FP_ONE - wy)
         + ucast (ucast (r1 ! (sx * 4 + c)) * word_of_nat (FP_ONE - wx)
                + ucast (r1 ! (sx * 4 + 4 + c)) * word_of_nat wx :: u16) * word_of_nat wy :: u32)) :: byte)
      = word_of_nat (ref_sample bytes stride (sy, wy) (sx, wx) c)"
    if "(sx, wx) \<in> set xs" "c < 4" for sx wx c
  proof -
    have s4: "sx * 4 + 4 + c = (sx + 1) * 4 + c" by simp
    have wx: "wx < 256" "sx + 1 < sw" using xs [OF that(1)] by simp_all
    have w: "unat p * (256 - wx) + unat q * wx \<le> 65280" for p q :: byte
      using weighted_le [OF unat_byte_le unat_byte_le, of wx p q] wx by simp
    have k: "sx < sw" "sy < sh" using wx y(1) by simp_all
    show ?thesis
      unfolding s4 r
      by (subst vertical_exact [OF y(2)])
        (simp_all only: horizontal_exact [OF wx(1)] w row k wx that y ref_sample_def prod.case Let_def)
  qed
  show ?thesis
    unfolding blend_rows_def interpolate_row_def r [symmetric]
    by (subst zip_concat_map)
      (auto simp: map_concat o_def zip_map_map zip_same_conv_map sample
         intro!: arg_cong [of _ _ concat] map_cong simp del: upt_conv_Cons)
qed

text \<open>C13: Downscaling with the cached, word-sized, separable filter gives, for every frame and target,
  exactly the bytes of the per-pixel bilinear reference on unbounded numbers, with the metadata
  adjusted; a frame of the target size is returned as it is; formats, sizes and buffers that do
  not fit are refused; and a source of one row or one column panics.\<close>

theorem downscale_frame_reference:
  "let sw = width (frame_res frame); sh = height (frame_res frame);
       dw = width target; dh = height target; bytes = frame_data frame; stride = frame_stride frame
   in if frame_res frame = target then downscale_frame frame target = Returns (Ok frame)
      else if (format frame = Bgra8 \<or> format frame = Rgba8) \<and> bytes \<noteq> [] \<and> 0 < dw \<and> 0 < dh
           \<and> dw \<le> sw \<and> dh \<le> sh \<and> stride * sh \<le> length bytes \<and> sw * 4 \<le> stride
      then downscale_frame frame target =
        (if 2 \<le> sw \<and> 2 \<le> sh
         then Returns (Ok (frame\<lparr>frame_res := target, frame_stride := dw * 4, gpu_resident := False,
                frame_data := reference_downscale bytes stride sw sh dw dh\<rparr>))
         else Panics)
      else \<exists>reason. downscale_frame frame target
                      = Returns (Err (EncodeError (sequence frame) (''downscale: '' @ reason)))"
proof -
  define sw sh dw dh stride bytes where d: "sw = width (frame_res frame)" "sh = height (frame_res frame)"
    "dw = width target" "dh = height target" "stride = frame_stride frame" "bytes = frame_data frame"
  define xs ys where xy: "xs = map (fp_pos sw dw) [0..<dw]" "ys = map (fp_pos sh dh) [0..<dh]"
  have scale: "scale_rows (\<lambda>y. take (sw * 4) (drop (y * stride) bytes)) xs ys
      \<lparr>top_buf = replicate (dw * 4) 0, bot_buf = replicate (dw * 4) 0, top_row = None, bot_row = None\<rparr>
      = reference_downscale bytes stride sw sh dw dh"
    if fits: "sw * 4 \<le> stride" "stride * sh \<le> length bytes" "2 \<le> sw" "2 \<le> sh"
  proof -
    have x: "list_all (\<lambda>(sx, wx). sx + 1 < sw \<and> wx < 256) xs"
      using fp_pos_bounds [OF fits(3)] by (auto simp: xy list_all_iff split_def simp del: One_nat_def)
    have "blend_rows (interpolate_row (take (sw * 4) (drop (fst yp * stride) bytes)) xs)
        (interpolate_row (take (sw * 4) (drop ((fst yp + 1) * stride) bytes)) xs) (snd yp)
      = concat (map (\<lambda>xp. map (\<lambda>c. word_of_nat (ref_sample bytes stride yp xp c)) [0..<4]) xs)"
      if "yp = fp_pos sh dh dy" for yp dy
      using blend_reference [OF fits(1,2) _ _ x, of "fst yp" "snd yp"] fp_pos_bounds [OF fits(4)] that by simp
    from this [OF refl] show ?thesis
      by (subst scale_rows_blend)
        (simp_all add: cache_ok_def xy(2) reference_downscale_def split_def o_def, simp add: xy(1) o_def)
  qed
  show ?thesis
    using scale unfolding downscale_frame_def scale_err_def Let_def d [symmetric] xy [symmetric]
    by (auto simp: not_less)
qed

text \<open>A target sample lies within the range of the four source samples it comes from; in particular a
  picture of one colour keeps it.\<close>

lemma ref_sample_range:
  assumes "wx \<le> 256" "wy \<le> 256"
    and "\<And>y x. y \<in> {sy, sy + 1} \<Longrightarrow> x \<in> {sx, sx + 1} \<Longrightarrow>
      lo \<le> unat (bytes ! (y * stride + (x * 4 + c))) \<and> unat (bytes ! (y * stride + (x * 4 + c))) \<le> hi"
  shows "ref_sample bytes stride (sy, wy) (sx, wx) c \<in> {lo..hi}"
proof -
  define p where "p y x = unat (bytes ! (y * stride + (x * 4 + c)))" for y x
  define t b where "t = p sy sx * (256 - wx) + p sy (sx + 1) * wx"
    and "b = p (sy + 1) sx * (256 - wx) + p (sy + 1) (sx + 1) * wx"
  have "lo \<le> p y x" "p y x \<le> hi" if "y \<in> {sy, sy + 1}" "x \<in> {sx, sx + 1}" for y x
    using assms(3) [OF that] by (simp_all add: p_def)
  then have "lo * 256 \<le> t" "t \<le> hi * 256" "lo * 256 \<le> b" "b \<le> hi * 256"
    unfolding t_def b_def using assms(1) by (auto intro!: weighted_ge weighted_le)
  then have "lo * 65536 \<le> t * (256 - wy) + b * wy" "t * (256 - wy) + b * wy \<le> hi * 65536"
    using weighted_ge [of "lo * 256" t b wy] weighted_le [of t "hi * 256" b wy] assms(2) by auto
  then have "lo * 65536 div 65536 \<le> (t * (256 - wy) + b * wy) div 65536"
    "(t * (256 - wy) + b * wy) div 65536 \<le> hi * 65536 div 65536"
    by (intro div_le_mono; simp)+
  then show ?thesis by (simp add: ref_sample_def Let_def t_def b_def p_def)
qed

end
