(* ===== verification/Encoder.thy ===== *)
theory Encoder
  imports Scale
begin

text \<open>
  Encoder selection in the agent, \<open>flux-server/src/encoder.rs\<close>: the candidates of a build, the bitrate of
  a quality level, the session opened for a frame size, and the back-off between rebuilds.  Times are
  nanoseconds.  What a backend offers (whether it can be created, its maximum size, which sessions
  it opens) is a parameter.  The bitrate formula is evaluated exactly: the code's double precision
  coefficients are decimal fractions of a thousand, and rounding is to the nearest, halves up.
\<close>

section \<open>Candidates and bitrate\<close>

record build =
  b_os :: os
  b_ffmpeg :: bool
  b_vaapi :: bool
  b_vulkan :: bool

definition encoder_backend_candidates :: "build \<Rightarrow> encoder_backend option \<Rightarrow> encoder_backend list" where
  "encoder_backend_candidates b forced =
     (case forced of
        Some backend \<Rightarrow> if backend = Software then [backend] else [backend, Software]
      | None \<Rightarrow>
          (if b_os b = Windows then [Amf] else [])
          @ (if b_os b = Linux \<and> b_ffmpeg b then [FfmpegVaapi] else [])
          @ (if b_os b = Linux \<and> b_vaapi b \<and> \<not> b_ffmpeg b then [Vaapi] else [])
          @ (if b_vulkan b then [VulkanVideo] else [])
          @ [Software])"

text \<open>Bits per pixel and frame, in thousandths.\<close>

definition quality_bpp :: "nat \<Rightarrow> nat" where
  "quality_bpp level =
     (case max 1 (min 10 level) of
        l \<Rightarrow> if l = 1 then 25 else if l = 2 then 35 else if l = 3 then 50 else if l = 4 then 65
             else if l = 5 then 80 else if l = 6 then 100 else if l = 7 then 120 else if l = 8 then 140
             else if l = 9 then 160 else 200)"

definition bitrate_kbps_for :: "resolution \<Rightarrow> nat \<Rightarrow> nat \<Rightarrow> nat" where
  "bitrate_kbps_for res fps level =
     max 3000 (min 50000 ((2 * (width res * height res * fps * quality_bpp level) + 10 ^ 6) div (2 * 10 ^ 6)))"

section \<open>Sessions\<close>

datatype rate_control_mode = Cbr | Vbr | Cqp

record encode_config =
  ec_codec :: video_codec
  ec_resolution :: resolution
  ec_framerate :: nat
  ec_bitrate_kbps :: nat
  ec_rate_control :: rate_control_mode
  ec_dynamic_range :: dynamic_range
  ec_chroma_sampling :: chroma_sampling
  ec_gop_size :: nat
  ec_b_frames :: nat
  ec_max_ref_frames :: nat

text \<open>What the platform answers for one backend.\<close>

record encoder_offer =
  eo_available :: bool
  eo_max_resolution :: "resolution option"
  eo_opens :: "encode_config \<Rightarrow> bool"

text \<open>An open session is represented by its configuration.\<close>

definition create_encode_session ::
  "encoder_offer \<Rightarrow> encode_config \<Rightarrow> nat \<Rightarrow> (encode_config \<times> resolution) option" where
  "create_encode_session offer config quality_level =
     (if \<not> eo_available offer then None
      else let config = (case eo_max_resolution offer of
                           None \<Rightarrow> config
                         | Some m \<Rightarrow> config\<lparr>ec_resolution := fit_within (ec_resolution config) m\<rparr>);
               res = ec_resolution config;
               config = config\<lparr>ec_bitrate_kbps := bitrate_kbps_for res (ec_framerate config) quality_level\<rparr>
           in if eo_opens offer config then Some (config, res) else None)"

definition session_config :: "nat \<Rightarrow> resolution \<Rightarrow> encode_config" where
  "session_config framerate res =
     \<lparr>ec_codec = H264, ec_resolution = res, ec_framerate = framerate, ec_bitrate_kbps = 10000,
      ec_rate_control = Vbr, ec_dynamic_range = Sdr, ec_chroma_sampling = Yuv420,
      ec_gop_size = max (min (framerate * 2) (2 ^ 32 - 1)) 1, ec_b_frames = 0, ec_max_ref_frames = 1\<rparr>"

fun try_candidates ::
  "(encoder_backend \<Rightarrow> (encode_config \<times> resolution) option) \<Rightarrow> encoder_backend list
     \<Rightarrow> (encode_config \<times> resolution) option \<times> encoder_backend
     \<Rightarrow> (encode_config \<times> resolution) option \<times> encoder_backend" where
  "try_candidates create [] st = st"
| "try_candidates create (candidate # cs) st =
     (case create candidate of
        Some s \<Rightarrow> (Some s, candidate)
      | None \<Rightarrow> try_candidates create cs (None, candidate))"

definition build_encode_session_for ::
  "build \<Rightarrow> (encoder_backend \<Rightarrow> encoder_offer) \<Rightarrow> nat \<Rightarrow> resolution \<Rightarrow> encoder_backend option \<Rightarrow> nat
     \<Rightarrow> (encode_config \<times> resolution) option \<times> encoder_backend" where
  "build_encode_session_for b offers framerate res forced quality_level =
     try_candidates (\<lambda>backend. create_encode_session (offers backend) (session_config framerate res) quality_level)
       (encoder_backend_candidates b forced) (None, Software)"

section \<open>Rebuild back-off\<close>

definition ENCODER_RETRY_INITIAL :: nat where "ENCODER_RETRY_INITIAL = 1 * SECOND"
definition ENCODER_RETRY_MAX :: nat where "ENCODER_RETRY_MAX = 30 * SECOND"

record encoder_retry =
  retry_at :: "nat option"
  next_delay :: nat

definition encoder_retry_default :: encoder_retry where
  "encoder_retry_default = \<lparr>retry_at = None, next_delay = ENCODER_RETRY_INITIAL\<rparr>"

definition retry_on_failure :: "nat \<Rightarrow> encoder_retry \<Rightarrow> nat \<times> encoder_retry" where
  "retry_on_failure now r =
     (let delay = next_delay r
      in (delay, \<lparr>retry_at = Some (now + delay), next_delay = min (2 * delay) ENCODER_RETRY_MAX\<rparr>))"

definition retry_on_success :: "encoder_retry \<Rightarrow> encoder_retry" where
  "retry_on_success r = \<lparr>retry_at = None, next_delay = ENCODER_RETRY_INITIAL\<rparr>"

definition retry_due :: "nat \<Rightarrow> encoder_retry \<Rightarrow> bool" where
  "retry_due now r = (case retry_at r of None \<Rightarrow> True | Some t \<Rightarrow> now \<ge> t)"

section \<open>Properties\<close>

lemma bitrate_bounds: "3000 \<le> bitrate_kbps_for res fps level" "bitrate_kbps_for res fps level \<le> 50000"
  by (simp_all add: bitrate_kbps_for_def)

lemma quality_bpp_mono: "l \<le> l' \<Longrightarrow> quality_bpp l \<le> quality_bpp l'"
  by (auto simp: quality_bpp_def max_def min_def)

lemma bitrate_mono: "l \<le> l' \<Longrightarrow> bitrate_kbps_for res fps l \<le> bitrate_kbps_for res fps l'"
  unfolding bitrate_kbps_for_def
  by (intro max.mono min.mono div_le_mono add_mono mult_le_mono order_refl quality_bpp_mono)

lemma try_candidates_find:
  "cs \<noteq> [] \<Longrightarrow> try_candidates create cs st =
     (case List.find (\<lambda>b. create b \<noteq> None) cs of Some b \<Rightarrow> (create b, b) | None \<Rightarrow> (None, last cs))"
  by (induction cs arbitrary: st) (auto split: option.splits)

lemma candidates_end_in_software:
  "encoder_backend_candidates b forced \<noteq> []" "last (encoder_backend_candidates b forced) = Software"
  by (auto simp: encoder_backend_candidates_def split: option.splits)

text \<open>A session that opens has the size it reports, which is the frame size fitted to the limit of its
  backend.\<close>

lemma create_encode_session_size:
  "create_encode_session offer config q = Some (c, res) \<Longrightarrow>
     ec_resolution c = res \<and> eo_available offer \<and> ec_framerate c = ec_framerate config
     \<and> ec_bitrate_kbps c = bitrate_kbps_for res (ec_framerate config) q
     \<and> res = (case eo_max_resolution offer of
                None \<Rightarrow> ec_resolution config | Some m \<Rightarrow> fit_within (ec_resolution config) m)"
  by (auto simp: create_encode_session_def Let_def split: if_splits option.splits)

text \<open>Building an encoder session tries the candidates in order and takes the first one that opens;
  the session's size is the frame's size fitted to that backend's limit, its bitrate lies between 3
  and 50 Mbit/s, and without any session the last candidate tried is the software encoder.\<close>

theorem build_encode_session_first:
  "case build_encode_session_for b offers framerate res forced q of
     (Some (c, r), backend) \<Rightarrow>
       (\<exists>before after. encoder_backend_candidates b forced = before @ backend # after
          \<and> list_all (\<lambda>x. create_encode_session (offers x) (session_config framerate res) q = None) before)
       \<and> create_encode_session (offers backend) (session_config framerate res) q = Some (c, r)
       \<and> ec_resolution c = r \<and> r = (case eo_max_resolution (offers backend) of None \<Rightarrow> res | Some m \<Rightarrow> fit_within res m)
       \<and> ec_bitrate_kbps c \<in> {3000..50000}
   | (None, backend) \<Rightarrow> backend = Software
       \<and> list_all (\<lambda>x. create_encode_session (offers x) (session_config framerate res) q = None)
           (encoder_backend_candidates b forced)"
proof -
  define create where "create x = create_encode_session (offers x) (session_config framerate res) q" for x
  define cs where "cs = encoder_backend_candidates b forced"
  have cs: "cs \<noteq> []" "last cs = Software" unfolding cs_def by (rule candidates_end_in_software)+
  have run: "build_encode_session_for b offers framerate res forced q
      = (case List.find (\<lambda>x. create x \<noteq> None) cs of Some x \<Rightarrow> (create x, x) | None \<Rightarrow> (None, last cs))"
    unfolding build_encode_session_for_def cs_def [symmetric] create_def [symmetric]
    by (rule try_candidates_find [OF cs(1)])
  show ?thesis
  proof (cases "List.find (\<lambda>x. create x \<noteq> None) cs")
    case None
    then have "list_all (\<lambda>x. create x = None) cs" unfolding find_None_iff list_all_iff by blast
    then show ?thesis
      unfolding run create_def [symmetric] cs_def [symmetric] None using cs by simp
  next
    case (Some x)
    then obtain i where i: "i < length cs" "x = cs ! i" "create x \<noteq> None" "\<forall>j<i. create (cs ! j) = None"
      unfolding find_Some_iff by blast
    obtain c r where cr: "create x = Some (c, r)" using i(3) by fastforce
    have "cs = take i cs @ x # drop (Suc i) cs" using i(1,2) by (simp add: id_take_nth_drop [symmetric])
    moreover have "list_all (\<lambda>y. create y = None) (take i cs)"
      using i(1,4) by (auto simp: list_all_length)
    moreover note create_encode_session_size [OF cr [unfolded create_def]]
    ultimately show ?thesis
      unfolding run create_def [symmetric] cs_def [symmetric] Some option.case cr prod.case
      by (auto simp: session_config_def bitrate_bounds split: option.splits)
  qed
qed

interpretation retry: doubling_backoff "\<lambda>d. min (2 * d) ENCODER_RETRY_MAX" ENCODER_RETRY_MAX
  by unfold_locales simp

definition after_failures :: "nat list \<Rightarrow> encoder_retry \<Rightarrow> encoder_retry" where
  "after_failures ts r = fold (\<lambda>t r. snd (retry_on_failure t r)) ts r"

lemma next_delay_after_failures:
  "next_delay (after_failures ts r) = ((\<lambda>d. min (2 * d) ENCODER_RETRY_MAX) ^^ length ts) (next_delay r)"
  by (induction ts arbitrary: r) (simp_all add: after_failures_def retry_on_failure_def Let_def funpow_Suc_right del: funpow.simps(2))

text \<open>After \<open>k + 1\<close> failed rebuilds in a row the next one is due exactly when \<open>2 ^ k\<close> seconds, but at
  most 30, have passed since the last failure; after a success it is due at once.\<close>

theorem encoder_retry_backoff:
  "(retry_due now (after_failures (ts @ [t]) encoder_retry_default)
     \<longleftrightarrow> t + min (2 ^ length ts) 30 * SECOND \<le> now)
   \<and> retry_due now (after_failures [] (retry_on_success r))
   \<and> after_failures ts (retry_on_success r) = after_failures ts encoder_retry_default"
proof -
  have m: "min (2 ^ k * SECOND) (30 * SECOND) = min (2 ^ k) 30 * SECOND" for k
    by (simp add: min_def SECOND_def)
  have "retry_at (after_failures (ts @ [t]) encoder_retry_default)
      = Some (t + next_delay (after_failures ts encoder_retry_default))"
    by (simp add: after_failures_def retry_on_failure_def Let_def)
  also have "next_delay (after_failures ts encoder_retry_default) = min (2 ^ length ts) 30 * SECOND"
    using retry.delay_after_failures [of "1 * SECOND" "length ts"] m
    by (simp add: next_delay_after_failures encoder_retry_default_def ENCODER_RETRY_INITIAL_def ENCODER_RETRY_MAX_def)
  finally show ?thesis
    by (simp add: retry_due_def after_failures_def retry_on_success_def encoder_retry_default_def)
qed

end
