(* ===== verification/Capture_Modes.thy ===== *)
theory Capture_Modes
  imports Encoder Resolution
begin

text \<open>
  The helpers of the agent's capture thread, \<open>flux-server/src/capture_loop.rs\<close>: pacing, waiting for
  displays, mode changes with rollback, and recovery of a lost capture.  The loop itself is in
  \<open>Capture_Loop\<close>.

  Times are nanoseconds; the pacer's credit, a fraction of a frame in the code, is counted in
  billionths so that the arithmetic is exact.  What the platform answers (frames, displays, encoder
  packets, results of calls) is input of each operation.  An operation that waits returns \<open>None\<close> when
  its inputs end before it does.  Log lines and metrics are left out.
\<close>

section \<open>Pacing\<close>

definition effective_default_fps_cap :: "nat \<Rightarrow> nat \<Rightarrow> nat" where
  "effective_default_fps_cap configured requested_default = min requested_default configured"

record frame_pacer =
  last_input_at :: "nat option"
  credit :: int

definition frame_pacer_default :: frame_pacer where
  "frame_pacer_default = \<lparr>last_input_at = None, credit = 0\<rparr>"

definition FRAME_PACING_ACCEPT_THRESHOLD :: int where
  "FRAME_PACING_ACCEPT_THRESHOLD = 90 * (int SECOND div 100)"

definition should_encode_frame :: "frame_pacer \<Rightarrow> nat \<Rightarrow> nat \<Rightarrow> bool \<times> frame_pacer" where
  "should_encode_frame pacer now fps_cap =
     (let fps = max fps_cap 1 in
      case last_input_at pacer of
        None \<Rightarrow> (True, \<lparr>last_input_at = Some now, credit = 0\<rparr>)
      | Some last_at \<Rightarrow>
          let elapsed = now - last_at in
          if SECOND \<le> elapsed * fps then (True, \<lparr>last_input_at = Some now, credit = 0\<rparr>)
          else let c = credit pacer + int (elapsed * fps) in
               if FRAME_PACING_ACCEPT_THRESHOLD \<le> c
               then (True, \<lparr>last_input_at = Some now, credit = c - int SECOND\<rparr>)
               else (False, \<lparr>last_input_at = Some now, credit = c\<rparr>))"

record stage_timings =
  sg_frames :: nat
  sg_capture_sum :: nat
  sg_capture_max :: nat
  sg_encode_sum :: nat
  sg_encode_max :: nat
  sg_keyframes :: nat
  sg_keyframe_encode_max :: nat
  sg_keyframe_bytes_max :: nat

definition stage_timings_default :: stage_timings where
  "stage_timings_default =
     \<lparr>sg_frames = 0, sg_capture_sum = 0, sg_capture_max = 0, sg_encode_sum = 0, sg_encode_max = 0,
      sg_keyframes = 0, sg_keyframe_encode_max = 0, sg_keyframe_bytes_max = 0\<rparr>"

definition observe_stage :: "nat \<Rightarrow> nat \<Rightarrow> nat option \<Rightarrow> stage_timings \<Rightarrow> stage_timings" where
  "observe_stage t_capture t_encode keyframe_bytes t =
     (let t = t\<lparr>sg_frames := sg_frames t + 1, sg_capture_sum := sg_capture_sum t + t_capture,
                sg_capture_max := max (sg_capture_max t) t_capture,
                sg_encode_sum := sg_encode_sum t + t_encode, sg_encode_max := max (sg_encode_max t) t_encode\<rparr>
      in case keyframe_bytes of
           None \<Rightarrow> t
         | Some bytes \<Rightarrow> t\<lparr>sg_keyframes := sg_keyframes t + 1,
                           sg_keyframe_encode_max := max (sg_keyframe_encode_max t) t_encode,
                           sg_keyframe_bytes_max := max (sg_keyframe_bytes_max t) bytes\<rparr>)"

section \<open>Displays\<close>

record display_info =
  di_id :: u32
  di_adapter_luid :: "u64 option"
  di_name :: string
  di_native :: resolution
  di_rect :: desktop_rect
  di_primary :: bool
  di_capture_supported :: bool

text \<open>Polling: each poll is the time after the enumeration and its answer.\<close>

type_synonym poll = "nat \<times> (string + display_info list)"

fun wait_for_displays ::
  "nat \<Rightarrow> (display_info list \<Rightarrow> 'a option) \<Rightarrow> poll list \<Rightarrow> 'a option option" where
  "wait_for_displays deadline select [] = None"
| "wait_for_displays deadline select ((now, answer) # polls) =
     (case (case answer of Inr displays \<Rightarrow> select displays | Inl e \<Rightarrow> None) of
        Some selected \<Rightarrow> Some (Some selected)
      | None \<Rightarrow> if now \<ge> deadline then Some None else wait_for_displays deadline select polls)"

text \<open>One replug of the virtual display: the platform's answers to each step.\<close>

record replug_env =
  re_before :: "string + display_info list"
  re_unplug :: "string + unit"
  re_unplug_at :: nat
  re_removal :: "poll list"
  re_plug :: "string + unit"
  re_plug_at :: nat
  re_arrival :: "poll list"
  re_ccd :: "string + unit"
  re_ccd_at :: nat
  re_settle :: "poll list"
  re_start :: "string + unit"

definition settled_at :: "display_info \<Rightarrow> mode_request \<Rightarrow> display_info \<Rightarrow> bool" where
  "settled_at target mode d \<longleftrightarrow>
     di_name d = di_name target \<and> di_adapter_luid d = di_adapter_luid target
     \<and> width (di_native d) = req_width mode \<and> height (di_native d) = req_height mode"

definition replug_capture :: "mode_request \<Rightarrow> replug_env \<Rightarrow> (string + display_info) option" where
  "replug_capture mode env =
     (case re_before env of
        Inl error \<Rightarrow> Some (Err (''enumerate displays before replug: '' @ error))
      | Inr before \<Rightarrow>
     (case re_unplug env of
        Inl error \<Rightarrow> Some (Err error)
      | Inr _ \<Rightarrow>
     (case wait_for_displays (re_unplug_at env + 5 * SECOND)
             (\<lambda>ds. if length ds < length before then Some ds else None) (re_removal env) of
        None \<Rightarrow> None
      | Some None \<Rightarrow> Some (Err ''virtual output did not disappear after unplug'')
      | Some (Some after_unplug) \<Rightarrow>
     (case re_plug env of
        Inl error \<Rightarrow> Some (Err error)
      | Inr _ \<Rightarrow>
     (case wait_for_displays (re_plug_at env + 10 * SECOND)
             (List.find (\<lambda>d. di_name d \<notin> set (map di_name after_unplug))) (re_arrival env) of
        None \<Rightarrow> None
      | Some None \<Rightarrow> Some (Err ''virtual output did not reappear after plug-in'')
      | Some (Some target) \<Rightarrow>
     (case re_ccd env of
        Inl error \<Rightarrow> Some (Err (''apply CCD mode '' @ decimal (req_width mode) @ ''x''
                               @ decimal (req_height mode) @ '': '' @ error))
      | Inr _ \<Rightarrow>
     (case wait_for_displays (re_ccd_at env + 5 * SECOND) (List.find (settled_at target mode)) (re_settle env) of
        None \<Rightarrow> None
      | Some None \<Rightarrow> Some (Err ''virtual output did not settle at requested dimensions'')
      | Some (Some target) \<Rightarrow>
     (case re_start env of
        Inl error \<Rightarrow> Some (Err (''restart capture after resolution transition: '' @ error))
      | Inr _ \<Rightarrow> Some (Ok target)))))))))"

section \<open>Mode changes with rollback\<close>

definition mode_status :: "string \<Rightarrow> mode_request \<Rightarrow> mode_request option \<Rightarrow> string option \<Rightarrow> resolution_status" where
  "mode_status state request previous error =
     \<lparr>rs_state = state, rs_width = req_width request, rs_height = req_height request,
      previous_width = map_option req_width previous, previous_height = map_option req_height previous,
      rs_error = error, rs_encode_width = None, rs_encode_height = None\<rparr>"

definition next_retry_delay :: "nat \<Rightarrow> nat" where
  "next_retry_delay d = min (2 * d) (30 * SECOND)"

text \<open>The recovery loop: sleep, then replug to the old mode; the sleeps made so far are recorded.\<close>

fun recover_mode ::
  "mode_request \<Rightarrow> nat \<Rightarrow> replug_env list \<Rightarrow> (display_info \<times> nat list) option" where
  "recover_mode old_mode delay [] = None"
| "recover_mode old_mode delay (env # envs) =
     (case replug_capture old_mode env of
        None \<Rightarrow> None
      | Some (Inr target) \<Rightarrow> Some (target, [delay])
      | Some (Inl error) \<Rightarrow>
          map_option (\<lambda>(target, sleeps). (target, delay # sleeps))
            (recover_mode old_mode (next_retry_delay delay) envs))"

record transition =
  tr_display :: display_info
  tr_tracker :: status_tracker
  tr_published :: "resolution_status list"
  tr_sleeps :: "nat list"

definition transition_resolution ::
  "mode_request \<Rightarrow> mode_request \<Rightarrow> replug_env \<Rightarrow> replug_env \<Rightarrow> replug_env list \<Rightarrow> status_tracker \<Rightarrow> transition option" where
  "transition_resolution request old_mode first rollback retries tracker =
     (let publish = (\<lambda>state error. mode_status state request (Some old_mode) error) in
      case replug_capture request first of
        None \<Rightarrow> None
      | Some (Inr target) \<Rightarrow>
          Some \<lparr>tr_display = target,
                tr_tracker = on_transition_applied (mode_status ''succeeded'' request (Some old_mode) None) tracker,
                tr_published = [], tr_sleeps = []\<rparr>
      | Some (Inl error) \<Rightarrow>
          (let failed = on_transition_failed (req_width request) (req_height request) tracker in
           case replug_capture old_mode rollback of
             None \<Rightarrow> None
           | Some (Inr target) \<Rightarrow>
               Some \<lparr>tr_display = target, tr_tracker = failed,
                     tr_published = [publish ''failed'' (Some (''requested mode did not apply; still streaming at ''
                        @ decimal (req_width old_mode) @ ''x'' @ decimal (req_height old_mode)))],
                     tr_sleeps = []\<rparr>
           | Some (Inl rollback_error) \<Rightarrow>
               map_option (\<lambda>(target, sleeps).
                 \<lparr>tr_display = target, tr_tracker = failed,
                  tr_published = [publish ''failed'' (Some (''transition and rollback failed: '' @ rollback_error))],
                  tr_sleeps = sleeps\<rparr>)
                 (recover_mode old_mode (1 * SECOND) retries)))"

section \<open>Recovery of a lost capture\<close>

definition VIRTUAL_MONITOR_NAME :: string where "VIRTUAL_MONITOR_NAME = ''Rustcast virtual monitor''"

text \<open>Attempts: what enumeration answers, and whether capture restarts on the display found.\<close>

fun recover_lost_capture ::
  "os \<Rightarrow> display_info \<Rightarrow> ((string + display_info list) \<times> bool) list \<Rightarrow> display_info option" where
  "recover_lost_capture platform lost [] = None"
| "recover_lost_capture platform lost ((answer, starts) # attempts) =
     (case answer of
        Inl error \<Rightarrow> recover_lost_capture platform lost attempts
      | Inr displays \<Rightarrow>
          (case List.find (\<lambda>d. di_name d = di_name lost \<and> di_adapter_luid d = di_adapter_luid lost) displays of
             None \<Rightarrow> recover_lost_capture platform lost attempts
           | Some refreshed \<Rightarrow>
               let refreshed = (if platform = Linux \<and> di_name refreshed = VIRTUAL_MONITOR_NAME
                                then refreshed\<lparr>di_native := di_native lost, di_rect := di_rect lost\<rparr>
                                else refreshed)
               in if starts then Some refreshed else recover_lost_capture platform lost attempts))"

datatype downscale_restart = RestartGpu | RestartCpu

definition restart_for_downscale :: "bool \<Rightarrow> bool \<Rightarrow> downscale_restart option" where
  "restart_for_downscale starts_scaled starts_native =
     (if starts_scaled then Some RestartGpu else if starts_native then Some RestartCpu else None)"

section \<open>Pacing keeps the rate\<close>

text \<open>Outcome of a list of frames arriving at the given times.\<close>

definition paced :: "nat \<Rightarrow> nat list \<Rightarrow> frame_pacer \<Rightarrow> bool list \<times> frame_pacer" where
  "paced fps ts p = run (\<lambda>t p. should_encode_frame p t fps) ts p"

definition accepted :: "bool list \<Rightarrow> nat" where
  "accepted bs = length (filter id bs)"

definition credit_ok :: "frame_pacer \<Rightarrow> bool" where
  "credit_ok p \<longleftrightarrow> - int SECOND \<le> 10 * credit p \<and> 10 * credit p < 9 * int SECOND"

text \<open>One frame after another: the time passed since the previous frame pays for what was accepted, up
  to the change of the credit; a frame after a pause may gain a tenth.\<close>

lemma pace_step:
  assumes ok: "credit_ok p" and last: "last_input_at p = Some s" and "s \<le> t"
    and step: "should_encode_frame p t fps = (yes, p')"
  shows "credit_ok p' \<and> last_input_at p' = Some t
    \<and> 9 * int SECOND * of_bool yes \<le> 10 * int ((t - s) * max fps 1) - 10 * (credit p' - credit p)
    \<and> (int ((t - s) * max fps 1) < int SECOND
        \<longrightarrow> int SECOND * of_bool yes = int ((t - s) * max fps 1) - (credit p' - credit p))"
proof -
  define n where "n = (t - s) * max fps 1"
  have r: "(yes, p') = (if SECOND \<le> n then (True, \<lparr>last_input_at = Some t, credit = 0\<rparr>)
      else if FRAME_PACING_ACCEPT_THRESHOLD \<le> credit p + int n
      then (True, \<lparr>last_input_at = Some t, credit = credit p + int n - int SECOND\<rparr>)
      else (False, \<lparr>last_input_at = Some t, credit = credit p + int n\<rparr>))"
    using step last unfolding n_def by (simp only: should_encode_frame_def Let_def option.case)
  have S: "SECOND \<le> n \<longleftrightarrow> 1000000000 \<le> int n" "int SECOND = 1000000000"
    "FRAME_PACING_ACCEPT_THRESHOLD = 900000000"
    by (simp_all add: SECOND_def FRAME_PACING_ACCEPT_THRESHOLD_def)
  show ?thesis
    using r ok unfolding n_def [symmetric] credit_ok_def S by (auto split: if_splits)
qed

lemma paid_add:
  fixes a b x y c c1 c2 :: int
  shows "a \<le> 10 * x - 10 * (c1 - c) \<Longrightarrow> b \<le> 10 * y - 10 * (c2 - c1) \<Longrightarrow> a + b \<le> 10 * x + 10 * y - 10 * (c2 - c)"
  by simp

text \<open>The sum over a run of frames, none of which is earlier than its predecessor.\<close>

lemma pace_run:
  assumes "credit_ok p" "last_input_at p = Some s" "sorted (s # ts)"
    and "paced fps ts p = (bs, p')"
  shows "credit_ok p' \<and> last_input_at p' = Some (last (s # ts))
    \<and> 9 * int SECOND * int (accepted bs) \<le> 10 * int ((last (s # ts) - s) * max fps 1) - 10 * (credit p' - credit p)
    \<and> (list_all (\<lambda>(a, b). (b - a) * max fps 1 < SECOND) (zip (s # ts) ts)
       \<longrightarrow> int SECOND * int (accepted bs) = int ((last (s # ts) - s) * max fps 1) - (credit p' - credit p))"
  using assms
proof (induction ts arbitrary: s p bs)
  case Nil
  then show ?case by (simp add: paced_def accepted_def)
next
  case (Cons t ts)
  obtain yes p1 where st: "should_encode_frame p t fps = (yes, p1)" by fastforce
  define bs1 where "bs1 = fst (paced fps ts p1)"
  have r: "paced fps ts p1 = (bs1, p')" and bs: "bs = yes # bs1"
    using Cons.prems(4) st by (auto simp: paced_def bs1_def)
  have s1: "credit_ok p1 \<and> last_input_at p1 = Some t
    \<and> 9 * int SECOND * of_bool yes \<le> 10 * int ((t - s) * max fps 1) - 10 * (credit p1 - credit p)
    \<and> (int ((t - s) * max fps 1) < int SECOND
        \<longrightarrow> int SECOND * of_bool yes = int ((t - s) * max fps 1) - (credit p1 - credit p))"
    by (rule pace_step [OF Cons.prems(1,2) _ st]) (use Cons.prems(3) in simp)
  have ih: "credit_ok p' \<and> last_input_at p' = Some (last (t # ts))
    \<and> 9 * int SECOND * int (accepted bs1) \<le> 10 * int ((last (t # ts) - t) * max fps 1) - 10 * (credit p' - credit p1)
    \<and> (list_all (\<lambda>(a, b). (b - a) * max fps 1 < SECOND) (zip (t # ts) ts)
       \<longrightarrow> int SECOND * int (accepted bs1) = int ((last (t # ts) - t) * max fps 1) - (credit p' - credit p1))"
    by (rule Cons.IH) (use s1 Cons.prems(3) r in simp_all)
  have tl: "t \<le> last (t # ts)" and st': "s \<le> t"
    using Cons.prems(3) by (cases ts rule: rev_cases; auto)+
  have sum: "int ((last (s # t # ts) - s) * max fps 1)
      = int ((t - s) * max fps 1) + int ((last (t # ts) - t) * max fps 1)"
  proof -
    have "last (t # ts) - s = (t - s) + (last (t # ts) - t)" using tl st' by simp
    then show ?thesis by (simp add: add_mult_distrib)
  qed
  have acc: "int (accepted bs) = of_bool yes + int (accepted bs1)" by (simp add: bs accepted_def)
  have parts: "list_all (\<lambda>(a, b). (b - a) * max fps 1 < SECOND) (zip (s # t # ts) (t # ts))
      \<longleftrightarrow> (t - s) * max fps 1 < SECOND \<and> list_all (\<lambda>(a, b). (b - a) * max fps 1 < SECOND) (zip (t # ts) ts)"
    by simp
  show ?case
    unfolding acc sum distrib_left parts
  proof (intro conjI impI)
    assume gap: "(t - s) * max fps 1 < SECOND
      \<and> list_all (\<lambda>(a, b). (b - a) * max fps 1 < SECOND) (zip (t # ts) ts)"
    then have "int ((t - s) * max fps 1) < int SECOND" by (simp only: of_nat_less_iff)
    with s1 have "int SECOND * of_bool yes = int ((t - s) * max fps 1) - (credit p1 - credit p)" by blast
    moreover from gap ih have "int SECOND * int (accepted bs1)
        = int ((last (t # ts) - t) * max fps 1) - (credit p' - credit p1)" by blast
    ultimately show "int SECOND * of_bool yes + int SECOND * int (accepted bs1)
        = int ((t - s) * max fps 1) + int ((last (t # ts) - t) * max fps 1) - (credit p' - credit p)"
      by linarith
  next
    show "9 * int SECOND * of_bool yes + 9 * int SECOND * int (accepted bs1)
        \<le> 10 * int ((t - s) * max fps 1) + 10 * int ((last (t # ts) - t) * max fps 1) - 10 * (credit p' - credit p)"
      using s1 ih by (blast intro: paid_add)
  qed (use ih in simp_all)
qed

text \<open>C14: For frames arriving in order after a first one, the pacer lets through at most one ninth more
  than the rate cap pays for (and a tenth of a second's worth), and when no gap is as long as a
  frame of the cap it lets through exactly what the cap pays for, up to one frame.\<close>

theorem frame_pacing_rate:
  assumes "sorted (s # ts)"
    and "paced fps ts (snd (should_encode_frame frame_pacer_default s fps)) = (bs, p)"
  shows "9 * SECOND * accepted bs \<le> 10 * ((last (s # ts) - s) * max fps 1) + SECOND
    \<and> (list_all (\<lambda>(a, b). (b - a) * max fps 1 < SECOND) (zip (s # ts) ts) \<longrightarrow>
        SECOND * accepted bs \<le> (last (s # ts) - s) * max fps 1 + SECOND
        \<and> (last (s # ts) - s) * max fps 1 < SECOND * (accepted bs + 1))"
proof -
  define p0 where "p0 = \<lparr>last_input_at = Some s, credit = 0\<rparr>"
  have p0: "snd (should_encode_frame frame_pacer_default s fps) = p0" "credit_ok p0"
    by (simp_all add: should_encode_frame_def frame_pacer_default_def p0_def credit_ok_def SECOND_def)
  define e where "e = (last (s # ts) - s) * max fps 1"
  have r: "credit_ok p" "9 * int SECOND * int (accepted bs) \<le> 10 * int e - 10 * credit p"
    "list_all (\<lambda>(a, b). (b - a) * max fps 1 < SECOND) (zip (s # ts) ts)
       \<Longrightarrow> int SECOND * int (accepted bs) = int e - credit p"
    using pace_run [OF p0(2) _ assms(1) assms(2) [unfolded p0(1)]] by (simp_all add: p0_def e_def)
  have "int (9 * SECOND * accepted bs) \<le> int (10 * e + SECOND)"
    using r(1,2) by (simp add: credit_ok_def)
  moreover have "SECOND * accepted bs \<le> e + SECOND \<and> e < SECOND * (accepted bs + 1)"
    if "list_all (\<lambda>(a, b). (b - a) * max fps 1 < SECOND) (zip (s # ts) ts)"
  proof -
    have "int (SECOND * accepted bs) \<le> int (e + SECOND)" "int e < int (SECOND * (accepted bs + 1))"
      using r(1) r(3) [OF that] by (simp_all add: credit_ok_def algebra_simps)
    then show ?thesis by (simp only: of_nat_le_iff of_nat_less_iff)
  qed
  ultimately show ?thesis unfolding e_def of_nat_le_iff by blast
qed

text \<open>Three frames, 8 ms apart, under a cap of 100 frames a second: the second is dropped.\<close>

theorem frame_pacing_rate_witness:
  "sorted [0, 8000000, 16000000 :: nat]
   \<and> fst (paced 100 [8000000, 16000000] (snd (should_encode_frame frame_pacer_default 0 100))) = [False, True]
   \<and> 9 * SECOND * accepted [False, True] \<le> 10 * (16000000 * 100) + SECOND
   \<and> SECOND * accepted [False, True] \<le> 16000000 * 100 + SECOND"
proof -
  obtain p where r: "paced 100 [8000000, 16000000] (snd (should_encode_frame frame_pacer_default 0 100))
      = ([False, True], p)"
    by (simp add: paced_def should_encode_frame_def frame_pacer_default_def FRAME_PACING_ACCEPT_THRESHOLD_def SECOND_def)
  have "sorted [0, 8000000, 16000000 :: nat]" by simp
  from frame_pacing_rate [OF this r] r show ?thesis by (simp add: SECOND_def)
qed

section \<open>Mode changes end in a known mode\<close>

definition in_mode :: "mode_request \<Rightarrow> display_info \<Rightarrow> bool" where
  "in_mode mode d \<longleftrightarrow> width (di_native d) = req_width mode \<and> height (di_native d) = req_height mode"

lemma wait_for_displays_selected:
  "wait_for_displays deadline select polls = Some (Some x) \<Longrightarrow> \<exists>ds. select ds = Some x"
  by (induction polls) (auto split: sum.splits option.splits if_splits prod.splits)

lemma replug_capture_settled:
  assumes "replug_capture mode env = Some (Ok d)"
  shows "\<exists>target. wait_for_displays (re_ccd_at env + 5 * SECOND) (List.find (settled_at target mode)) (re_settle env)
      = Some (Some d)"
proof -
  obtain before where 1: "re_before env = Ok before"
    using assms unfolding replug_capture_def by (cases "re_before env") simp_all
  obtain u where 2: "re_unplug env = Ok u"
    using assms unfolding replug_capture_def 1 sum.case by (cases "re_unplug env") simp_all
  obtain aft where 3: "wait_for_displays (re_unplug_at env + 5 * SECOND)
             (\<lambda>ds. if length ds < length before then Some ds else None) (re_removal env) = Some (Some aft)"
    using assms unfolding replug_capture_def 1 2 sum.case by (simp only: split: option.split_asm) simp_all
  obtain v where 4: "re_plug env = Ok v"
    using assms unfolding replug_capture_def 1 2 3 sum.case option.case by (cases "re_plug env") simp_all
  obtain target where 5: "wait_for_displays (re_plug_at env + 10 * SECOND)
             (List.find (\<lambda>d. di_name d \<notin> set (map di_name aft))) (re_arrival env) = Some (Some target)"
    using assms unfolding replug_capture_def 1 2 3 4 sum.case option.case
    by (simp only: split: option.split_asm) simp_all
  obtain w where 6: "re_ccd env = Ok w"
    using assms unfolding replug_capture_def 1 2 3 4 5 sum.case option.case by (cases "re_ccd env") simp_all
  show ?thesis
    using assms unfolding replug_capture_def 1 2 3 4 5 6 sum.case option.case
    by (simp only: split: option.split_asm sum.split_asm) auto
qed

lemma replug_capture_mode:
  assumes "replug_capture mode env = Some (Ok d)"
  shows "in_mode mode d"
proof -
  obtain target ds where "List.find (settled_at target mode) ds = Some d"
    using replug_capture_settled [OF assms] wait_for_displays_selected by metis
  then show ?thesis by (auto simp: find_Some_iff settled_at_def in_mode_def)
qed

interpretation replug: doubling_backoff next_retry_delay "30 * SECOND"
  by unfold_locales (simp add: next_retry_delay_def)

lemma iterated_Cons:
  "map (\<lambda>i. (f ^^ i) x) [0..<Suc n] = x # map (\<lambda>i. (f ^^ i) (f x)) [0..<n]"
  by (rule nth_equalityI) (auto simp: nth_Cons funpow_swap1 simp del: upt_Suc split: nat.splits)

lemma recover_mode_sleeps:
  "recover_mode old_mode delay envs = Some (d, sleeps) \<Longrightarrow>
     in_mode old_mode d \<and> sleeps = map (\<lambda>i. (next_retry_delay ^^ i) delay) [0..<length sleeps] \<and> sleeps \<noteq> []"
proof (induction envs arbitrary: delay sleeps)
  case (Cons env envs)
  show ?case
  proof (cases "replug_capture old_mode env")
    case (Some r)
    show ?thesis
    proof (cases r)
      case (Inr target)
      with Cons.prems Some show ?thesis by (auto simp: replug_capture_mode)
    next
      case (Inl error)
      with Cons.prems Some obtain rest where
        "recover_mode old_mode (next_retry_delay delay) envs = Some (d, rest)" "sleeps = delay # rest"
        by auto
      moreover from Cons.IH [OF this(1)] have
        "in_mode old_mode d" "rest = map (\<lambda>i. (next_retry_delay ^^ i) (next_retry_delay delay)) [0..<length rest]"
        by simp_all
      ultimately show ?thesis using iterated_Cons [of next_retry_delay delay "length rest"] by simp
    qed
  qed (use Cons.prems in simp)
qed simp

text \<open>A mode change that returns leaves the display in the requested mode, with success pending and
  nothing published, or in the old mode, with exactly one failure published; and the replugs of a
  failed rollback are 1, 2, 4, up to 30 seconds apart.\<close>

theorem transition_resolution_outcome:
  assumes "transition_resolution request old_mode first rollback retries tracker = Some tr"
  shows "(in_mode request (tr_display tr) \<and> tr_published tr = []
      \<and> tr_tracker tr = on_transition_applied (mode_status ''succeeded'' request (Some old_mode) None) tracker
      \<or> in_mode old_mode (tr_display tr)
      \<and> (\<exists>error. tr_published tr = [mode_status ''failed'' request (Some old_mode) (Some error)])
      \<and> tr_tracker tr = on_transition_failed (req_width request) (req_height request) tracker)
    \<and> tr_sleeps tr = map (\<lambda>i. min (2 ^ i) 30 * SECOND) [0..<length (tr_sleeps tr)]"
proof -
  have delays: "(next_retry_delay ^^ i) SECOND = min (2 ^ i) 30 * SECOND" for i
    using replug.delay_after_failures [of SECOND i] by (simp add: min_def SECOND_def)
  show ?thesis
    using assms recover_mode_sleeps [of old_mode SECOND retries]
    by (fastforce simp: transition_resolution_def Let_def delays replug_capture_mode
        split: option.splits sum.splits)
qed

text \<open>A change whose enumeration fails is rolled back to the old mode.\<close>

definition example_display :: "nat \<Rightarrow> nat \<Rightarrow> display_info" where
  "example_display w h = \<lparr>di_id = 1, di_adapter_luid = Some 7, di_name = ''virtual'',
     di_native = \<lparr>width = w, height = h\<rparr>,
     di_rect = \<lparr>rect_left = 0, rect_top = 0, rect_width = w, rect_height = h\<rparr>,
     di_primary = False, di_capture_supported = True\<rparr>"

definition example_replug :: "string + unit \<Rightarrow> nat \<Rightarrow> nat \<Rightarrow> replug_env" where
  "example_replug unplugs w h =
     \<lparr>re_before = Ok [example_display w h], re_unplug = unplugs, re_unplug_at = 0, re_removal = [(1, Ok [])],
      re_plug = Ok (), re_plug_at = 1, re_arrival = [(2, Err ''busy''), (3, Ok [example_display w h])],
      re_ccd = Ok (), re_ccd_at = 3, re_settle = [(4, Ok [example_display w h])], re_start = Ok ()\<rparr>"

theorem transition_resolution_outcome_witness:
  "let request = \<lparr>req_width = 1920, req_height = 1080\<rparr>; old_mode = \<lparr>req_width = 1280, req_height = 720\<rparr>;
       tr = transition_resolution request old_mode (example_replug (Err ''stuck'') 1920 1080)
              (example_replug (Err ''stuck'') 1280 720)
              [example_replug (Err ''stuck'') 1280 720, example_replug (Ok ()) 1280 720] tracker_default
   in (case tr of None \<Rightarrow> False
       | Some tr \<Rightarrow> in_mode old_mode (tr_display tr) \<and> tr_sleeps tr = [1 * SECOND, 2 * SECOND]
           \<and> map rs_state (tr_published tr) = [''failed''])"
proof -
  let ?request = "\<lparr>req_width = 1920, req_height = 1080\<rparr>" and ?old = "\<lparr>req_width = 1280, req_height = 720\<rparr>"
  obtain tr where r: "transition_resolution ?request ?old (example_replug (Err ''stuck'') 1920 1080)
              (example_replug (Err ''stuck'') 1280 720)
              [example_replug (Err ''stuck'') 1280 720, example_replug (Ok ()) 1280 720] tracker_default = Some tr"
    and d: "tr_display tr = example_display 1280 720" and l: "length (tr_sleeps tr) = 2"
    by (simp add: transition_resolution_def replug_capture_def example_replug_def Let_def settled_at_def
        example_display_def SECOND_def)
  have "\<not> in_mode ?request (tr_display tr)" by (simp add: d in_mode_def example_display_def)
  with transition_resolution_outcome [OF r] l r show ?thesis
    by (auto simp: mode_status_def eval_nat_numeral)
qed

end
