(* ===== verification/Capture_Loop.thy ===== *)
theory Capture_Loop
  imports Capture_Modes
begin

text \<open>
  The capture thread of the agent, \<open>CaptureLoop::run\<close> of \<open>flux-server/src/capture_loop.rs\<close>: the start of the
  thread and one pass of its loop, from the pending requests to the packets handed to the frame
  servers.  A pass reads its requests, the platform's answers and the clock from its input; calls on
  the encoder, published statuses and sent packets are logged in the state.

  An open encode session is represented by its configuration and the capture session by the display
  and the number of restarts.  A pass ends early by a value of \<open>pass_end\<close>, as \<open>continue\<close>, \<open>return\<close> and a
  panic do.  Locks are never poisoned: nothing panics while it holds one.  Left out are metrics, log
  lines, the reuse of frame buffers, and the pointer scaling of the cursor sink, which is floating
  point.
\<close>

section \<open>State\<close>

record capture_config =
  cc_build :: build
  cc_epoch :: nat
  cc_target_fps :: nat
  cc_default_fps_cap :: nat
  cc_forced :: "encoder_backend option"
  cc_default_quality :: nat
  cc_target_display :: "display_info option"
  cc_virtual_display :: bool
  cc_initial_mode :: "(resolution \<times> nat) option"

record capture_status =
  st_display_name :: "string option"
  st_captured_virtual :: "bool option"
  st_encoder_backend :: "encoder_backend option"
  st_capture :: resolution
  st_encode :: resolution
  st_bitrate :: nat
  st_notified :: nat

datatype enc_call =
    CallIdr
  | CallIdrRebuild
  | CallFramerate nat
  | CallBitrate nat
  | CallEncode captured_frame

record loop_state =
  ls_primary :: display_info
  ls_target_fps :: nat
  ls_encoder :: "encode_config option"
  ls_retry :: encoder_retry
  ls_quality :: nat
  ls_fps_cap :: nat
  ls_pacer :: frame_pacer
  ls_capture_res :: resolution
  ls_encode_res :: resolution
  ls_total_bytes :: nat
  ls_frame_count :: nat
  ls_timings :: stage_timings
  ls_tracker :: status_tracker
  ls_pending :: "pending_mode option"
  ls_status :: capture_status
  ls_cursor_dims :: "resolution \<times> resolution"
  ls_input_rect :: desktop_rect
  ls_restarts :: nat
  ls_calls :: "(encode_config \<times> enc_call) list"
  ls_sent :: "(u64 \<times> byte list) list"
  ls_published :: "resolution_status list"

datatype frame_answer = GotFrame captured_frame | NoFrame | CaptureFailed | CaptureLost

record loop_input =
  li_request :: "mode_request option"
  li_request_mode :: "string + unit"
  li_request_at :: nat
  li_transition :: "replug_env \<times> replug_env \<times> replug_env list"
  li_idr :: bool
  li_bitrates :: "nat list"
  li_qualities :: "(nat \<times> nat) list"
  li_set_bitrate :: "nat \<Rightarrow> bool"
  li_t0 :: nat
  li_frame :: frame_answer
  li_recover :: "((string + display_info list) \<times> bool) list"
  li_settle_at :: nat
  li_captured_at :: nat
  li_rebuild_at :: nat
  li_offers :: "encoder_backend \<Rightarrow> encoder_offer"
  li_built_at :: nat
  li_restart_scaled :: bool
  li_restart_native :: bool
  li_t1 :: nat
  li_packets :: "string + encoded_packet list"
  li_encoded_at :: nat

datatype pass_end = Continues loop_state | Stops loop_state | PassPanics | Waits

definition no_resolution :: resolution where
  "no_resolution = \<lparr>width = 0, height = 0\<rparr>"

section \<open>Start of the thread\<close>

record start_env =
  se_create :: bool
  se_displays :: "display_info list option"
  se_input_sink :: bool
  se_start :: bool

definition select_display :: "display_info option \<Rightarrow> display_info list \<Rightarrow> display_info option checked" where
  "select_display target displays =
     (case target of
        Some t \<Rightarrow> Returns (List.find (\<lambda>d. di_name d = di_name t \<and> di_adapter_luid d = di_adapter_luid t) displays)
      | None \<Rightarrow> if displays = [] then Panics
                else Returns (Some (case List.find di_primary displays of Some d \<Rightarrow> d | None \<Rightarrow> hd displays)))"

definition owns_virtual_monitor :: "capture_config \<Rightarrow> display_info \<Rightarrow> bool" where
  "owns_virtual_monitor cfg d \<longleftrightarrow> b_os (cc_build cfg) = Linux \<and> di_name d = VIRTUAL_MONITOR_NAME"

definition initial_display :: "capture_config \<Rightarrow> display_info \<Rightarrow> display_info \<times> nat" where
  "initial_display cfg d =
     (case cc_initial_mode cfg of
        Some (res, refresh) \<Rightarrow>
          if owns_virtual_monitor cfg d
          then (d\<lparr>di_native := res,
                  di_rect := \<lparr>rect_left = 0, rect_top = 0, rect_width = width res, rect_height = height res\<rparr>\<rparr>,
                max 1 (min 144 refresh))
          else (d, cc_target_fps cfg)
      | None \<Rightarrow> (d, cc_target_fps cfg))"

definition clamp_quality :: "nat \<Rightarrow> nat" where
  "clamp_quality level = max 1 (min 10 level)"

definition loop_init :: "capture_config \<Rightarrow> display_info \<Rightarrow> nat \<Rightarrow> loop_state" where
  "loop_init cfg primary fps =
     \<lparr>ls_primary = primary, ls_target_fps = fps, ls_encoder = None, ls_retry = encoder_retry_default,
      ls_quality = clamp_quality (cc_default_quality cfg),
      ls_fps_cap = effective_default_fps_cap fps (cc_default_fps_cap cfg),
      ls_pacer = frame_pacer_default, ls_capture_res = no_resolution, ls_encode_res = no_resolution,
      ls_total_bytes = 0, ls_frame_count = 0, ls_timings = stage_timings_default,
      ls_tracker = tracker_default, ls_pending = None,
      ls_status = \<lparr>st_display_name = Some (di_name primary),
                   st_captured_virtual = Some (cc_target_display cfg \<noteq> None \<or> owns_virtual_monitor cfg primary),
                   st_encoder_backend = None, st_capture = no_resolution, st_encode = no_resolution,
                   st_bitrate = 0, st_notified = 0\<rparr>,
      ls_cursor_dims = (di_native primary, di_native primary), ls_input_rect = di_rect primary,
      ls_restarts = 0, ls_calls = [], ls_sent = [], ls_published = []\<rparr>"

definition capture_start :: "capture_config \<Rightarrow> start_env \<Rightarrow> loop_state option checked" where
  "capture_start cfg env =
     (if \<not> se_create env then Returns None
      else case se_displays env of
             None \<Rightarrow> Returns None
           | Some displays \<Rightarrow>
               (case select_display (cc_target_display cfg) displays of
                  Panics \<Rightarrow> Panics
                | Returns None \<Rightarrow> Returns None
                | Returns (Some d) \<Rightarrow>
                    (let (primary, fps) = initial_display cfg d
                     in if se_input_sink env \<and> se_start env then Returns (Some (loop_init cfg primary fps))
                        else Returns None)))"

section \<open>Requests\<close>

definition drop_encoder :: "loop_state \<Rightarrow> loop_state" where
  "drop_encoder s = s\<lparr>ls_encoder := None, ls_capture_res := no_resolution, ls_encode_res := no_resolution\<rparr>"

definition current_mode :: "loop_state \<Rightarrow> mode_request" where
  "current_mode s = \<lparr>req_width = width (di_native (ls_primary s)), req_height = height (di_native (ls_primary s))\<rparr>"

definition publish :: "resolution_status \<Rightarrow> loop_state \<Rightarrow> loop_state" where
  "publish st s = s\<lparr>ls_published := ls_published s @ [st]\<rparr>"

definition windows_request :: "capture_config \<Rightarrow> loop_input \<Rightarrow> mode_request \<Rightarrow> loop_state \<Rightarrow> pass_end + loop_state" where
  "windows_request cfg i request s =
     (case validate_mode_request request of
        Inl error \<Rightarrow> Ok s
      | Inr request \<Rightarrow>
          if \<not> cc_virtual_display cfg then Ok s
          else if \<not> mode_change_needed (current_mode s) request
          then Ok (publish (mode_status ''succeeded'' request None None) s)
          else let (first, rollback, retries) = li_transition i
               in case transition_resolution request (current_mode s) first rollback retries (ls_tracker s) of
                    None \<Rightarrow> Err Waits
                  | Some tr \<Rightarrow>
                      Ok ((drop_encoder s)\<lparr>ls_primary := tr_display tr, ls_input_rect := di_rect (tr_display tr),
                            ls_tracker := tr_tracker tr, ls_published := ls_published s @ tr_published tr,
                            ls_restarts := ls_restarts s + 1\<rparr>))"

definition reject_request :: "mode_request \<Rightarrow> string \<Rightarrow> loop_state \<Rightarrow> loop_state" where
  "reject_request request error s =
     publish (mode_status ''failed'' request None (Some error))
       (s\<lparr>ls_tracker := on_transition_failed (req_width request) (req_height request) (ls_tracker s)\<rparr>)"

definition compositor_request :: "loop_input \<Rightarrow> mode_request \<Rightarrow> loop_state \<Rightarrow> loop_state" where
  "compositor_request i request s =
     (case validate_mode_request request of
        Inl error \<Rightarrow> reject_request request error s
      | Inr request \<Rightarrow>
          if \<not> mode_change_needed (current_mode s) request
          then publish (mode_status ''succeeded'' request None None) (s\<lparr>ls_pending := None\<rparr>)
          else (case li_request_mode i of
                  Inr _ \<Rightarrow> s\<lparr>ls_pending := Some (pending_mode_new
                             \<lparr>width = req_width request, height = req_height request\<rparr>
                             (di_native (ls_primary s)) (li_request_at i))\<rparr>
                | Inl error \<Rightarrow> reject_request request error s))"

definition handle_request :: "capture_config \<Rightarrow> loop_input \<Rightarrow> loop_state \<Rightarrow> pass_end + loop_state" where
  "handle_request cfg i s =
     (case li_request i of
        None \<Rightarrow> Ok s
      | Some request \<Rightarrow>
          let s = s\<lparr>ls_tracker := on_transition_started (req_width request) (req_height request) (ls_tracker s)\<rparr>
          in if b_os (cc_build cfg) = Windows then windows_request cfg i request s
             else Ok (compositor_request i request s))"

definition call_encoder :: "enc_call list \<Rightarrow> loop_state \<Rightarrow> loop_state" where
  "call_encoder calls s =
     (case ls_encoder s of None \<Rightarrow> s | Some c \<Rightarrow> s\<lparr>ls_calls := ls_calls s @ map (Pair c) calls\<rparr>)"

definition handle_idr :: "loop_input \<Rightarrow> loop_state \<Rightarrow> loop_state" where
  "handle_idr i s = (if li_idr i then call_encoder [CallIdr] s else s)"

definition handle_quality :: "capture_config \<Rightarrow> loop_input \<Rightarrow> nat \<times> nat \<Rightarrow> loop_state \<Rightarrow> loop_state" where
  "handle_quality cfg i = (\<lambda>(level, requested_fps) s.
     let s = (if 1 \<le> level \<and> level \<le> 10 then s\<lparr>ls_quality := level\<rparr>
              else if level = 0 then s\<lparr>ls_quality := clamp_quality (cc_default_quality cfg)\<rparr> else s);
         s = (if requested_fps = 0
              then s\<lparr>ls_fps_cap := effective_default_fps_cap (ls_target_fps s) (cc_default_fps_cap cfg)\<rparr>
              else if requested_fps \<le> 144 then s\<lparr>ls_fps_cap := min requested_fps (ls_target_fps s)\<rparr> else s)
     in if \<not> level \<le> 10 \<and> \<not> requested_fps \<le> 144 \<or> ls_encoder s = None then s
        else let kbps = bitrate_kbps_for (ls_encode_res s) (ls_fps_cap s) (ls_quality s);
                 s = call_encoder [CallFramerate (ls_fps_cap s), CallBitrate kbps] s
             in if li_set_bitrate i kbps
                then s\<lparr>ls_status := (ls_status s)\<lparr>st_bitrate := kbps, st_notified := st_notified (ls_status s) + 1\<rparr>\<rparr>
                else s)"

definition handle_bitrates :: "loop_input \<Rightarrow> loop_state \<Rightarrow> loop_state" where
  "handle_bitrates i s =
     (if li_bitrates i = [] then s else call_encoder [CallBitrate (last (li_bitrates i))] s)"

definition handle_controls :: "capture_config \<Rightarrow> loop_input \<Rightarrow> loop_state \<Rightarrow> loop_state" where
  "handle_controls cfg i s =
     handle_bitrates i (fold (handle_quality cfg i) (li_qualities i) (handle_idr i s))"

section \<open>Frames\<close>

definition settle_pending_mode :: "resolution option \<Rightarrow> nat \<Rightarrow> loop_state \<Rightarrow> loop_state" where
  "settle_pending_mode frame now s =
     (case ls_pending s of
        None \<Rightarrow> s
      | Some p \<Rightarrow>
          let requested = \<lparr>req_width = width (pm_requested p), req_height = height (pm_requested p)\<rparr>;
              previous = \<lparr>req_width = width (pm_previous p), req_height = height (pm_previous p)\<rparr>
          in case pending_mode_state_at p frame now of
               Waiting \<Rightarrow> s
             | Applied \<Rightarrow>
                 let primary = (ls_primary s)\<lparr>di_native := pm_requested p,
                                 di_rect := (di_rect (ls_primary s))\<lparr>rect_width := width (pm_requested p),
                                              rect_height := height (pm_requested p)\<rparr>\<rparr>
                 in s\<lparr>ls_primary := primary, ls_input_rect := di_rect primary,
                      ls_tracker := on_transition_applied (mode_status ''succeeded'' requested (Some previous) None)
                                      (ls_tracker s),
                      ls_pending := None\<rparr>
             | TimedOut \<Rightarrow>
                 publish (mode_status ''failed'' requested (Some previous) (Some ''compositor did not apply the mode''))
                   (s\<lparr>ls_tracker := on_transition_failed (width (pm_requested p)) (height (pm_requested p)) (ls_tracker s),
                      ls_pending := None\<rparr>))"

definition settle :: "capture_config \<Rightarrow> resolution option \<Rightarrow> nat \<Rightarrow> loop_state \<Rightarrow> loop_state" where
  "settle cfg frame now s = (if b_os (cc_build cfg) = Windows then s else settle_pending_mode frame now s)"

definition next_frame :: "capture_config \<Rightarrow> loop_input \<Rightarrow> loop_state \<Rightarrow> pass_end + captured_frame \<times> loop_state" where
  "next_frame cfg i s =
     (case li_frame i of
        NoFrame \<Rightarrow> Err (Continues (settle cfg None (li_settle_at i) s))
      | CaptureFailed \<Rightarrow> Err (Continues s)
      | CaptureLost \<Rightarrow>
          (case recover_lost_capture (b_os (cc_build cfg)) (ls_primary s) (li_recover i) of
             None \<Rightarrow> Err Waits
           | Some primary \<Rightarrow>
               Err (Continues ((drop_encoder s)\<lparr>ls_primary := primary, ls_input_rect := di_rect primary,
                                 ls_pending := None, ls_restarts := ls_restarts s + 1\<rparr>)))
      | GotFrame frame \<Rightarrow>
          let s = settle cfg (Some (frame_res frame)) (li_settle_at i) s;
              (yes, pacer) = should_encode_frame (ls_pacer s) (li_t0 i) (ls_fps_cap s);
              s = s\<lparr>ls_pacer := pacer\<rparr>
          in if yes then Ok (frame, s\<lparr>ls_frame_count := ls_frame_count s + 1\<rparr>) else Err (Continues s))"

definition open_encoder :: "capture_config \<Rightarrow> loop_input \<Rightarrow> captured_frame \<Rightarrow> loop_state \<Rightarrow> loop_state" where
  "open_encoder cfg i frame s =
     (let (session, backend) = build_encode_session_for (cc_build cfg) (li_offers i) (ls_fps_cap s)
                                 (frame_res frame) (cc_forced cfg) (ls_quality s);
          s = s\<lparr>ls_capture_res := frame_res frame\<rparr>;
          s = (case session of
                 Some (c, res) \<Rightarrow> s\<lparr>ls_encoder := Some c, ls_encode_res := res, ls_retry := retry_on_success (ls_retry s)\<rparr>
               | None \<Rightarrow>
                   let (delay, retry) = retry_on_failure (li_built_at i) (ls_retry s);
                       (st, tracker) = on_encoder_failed (width (frame_res frame)) (height (frame_res frame))
                                         delay (ls_tracker s)
                   in publish st (s\<lparr>ls_encoder := None, ls_encode_res := frame_res frame, ls_retry := retry,
                                    ls_tracker := tracker\<rparr>));
          s = s\<lparr>ls_status := (ls_status s)\<lparr>st_capture := ls_capture_res s, st_encode := ls_encode_res s,
                  st_encoder_backend := Some backend,
                  st_bitrate := bitrate_kbps_for (ls_encode_res s) (ls_fps_cap s) (ls_quality s),
                  st_notified := st_notified (ls_status s) + 1\<rparr>,
                ls_cursor_dims := (ls_capture_res s, ls_encode_res s)\<rparr>
      in call_encoder [CallIdrRebuild] s)"

definition rescale_capture :: "loop_input \<Rightarrow> loop_state \<Rightarrow> pass_end + loop_state" where
  "rescale_capture i s =
     (if ls_encoder s \<noteq> None \<and> ls_encode_res s \<noteq> ls_capture_res s
      then let s = s\<lparr>ls_encoder := None, ls_capture_res := no_resolution\<rparr>
           in case restart_for_downscale (li_restart_scaled i) (li_restart_native i) of
                Some RestartGpu \<Rightarrow>
                  Err (Continues (s\<lparr>ls_restarts := ls_restarts s + 1,
                                    ls_cursor_dims := (ls_encode_res s, ls_encode_res s)\<rparr>))
              | Some RestartCpu \<Rightarrow>
                  Ok (s\<lparr>ls_restarts := ls_restarts s + 1,
                        ls_cursor_dims := (di_native (ls_primary s), ls_encode_res s)\<rparr>)
              | None \<Rightarrow> Err (Stops s)
      else Ok s)"

definition needs_encoder :: "loop_input \<Rightarrow> captured_frame \<Rightarrow> loop_state \<Rightarrow> bool" where
  "needs_encoder i frame s \<longleftrightarrow>
     ls_capture_res s \<noteq> frame_res frame \<or> (ls_encoder s = None \<and> retry_due (li_rebuild_at i) (ls_retry s))"

definition ready_encoder :: "capture_config \<Rightarrow> loop_input \<Rightarrow> captured_frame \<Rightarrow> loop_state \<Rightarrow> pass_end + loop_state" where
  "ready_encoder cfg i frame s =
     (if needs_encoder i frame s then rescale_capture i (open_encoder cfg i frame s) else Ok s)"

definition fit_frame :: "captured_frame \<Rightarrow> loop_state \<Rightarrow> pass_end + captured_frame" where
  "fit_frame frame s =
     (if frame_res frame \<noteq> ls_encode_res s
      then (case downscale_frame frame (ls_encode_res s) of
              Panics \<Rightarrow> Err PassPanics
            | Returns (Inl error) \<Rightarrow> Err (Continues s)
            | Returns (Inr scaled) \<Rightarrow> Ok scaled)
      else Ok frame)"

definition emit_packet :: "u64 \<Rightarrow> encoded_packet \<Rightarrow> loop_state \<Rightarrow> loop_state" where
  "emit_packet ts pkt s =
     (let (st, tracker) = on_packet_emitted (width (ls_encode_res s)) (height (ls_encode_res s)) (ls_tracker s);
          s = s\<lparr>ls_total_bytes := ls_total_bytes s + length (packet_data pkt),
                ls_sent := ls_sent s @ [(ts, packet_data pkt)], ls_tracker := tracker\<rparr>
      in case st of None \<Rightarrow> s | Some st \<Rightarrow> publish st s)"

definition last_keyframe :: "encoded_packet list \<Rightarrow> nat option" where
  "last_keyframe pkts =
     (case filter is_keyframe pkts of [] \<Rightarrow> None | ks \<Rightarrow> Some (length (packet_data (last ks))))"

definition stream_micros :: "capture_config \<Rightarrow> captured_frame \<Rightarrow> u64" where
  "stream_micros cfg frame = of_nat ((timestamp frame - cc_epoch cfg) div 1000)"

definition encode_frame :: "capture_config \<Rightarrow> loop_input \<Rightarrow> captured_frame \<Rightarrow> loop_state \<Rightarrow> pass_end + loop_state" where
  "encode_frame cfg i frame s =
     (let pkts = (case (ls_encoder s, li_packets i) of (Some c, Inr pkts) \<Rightarrow> pkts | _ \<Rightarrow> []);
          s = fold (emit_packet (stream_micros cfg frame)) pkts (call_encoder [CallEncode frame] s);
          s = s\<lparr>ls_timings := observe_stage (li_captured_at i - li_t0 i) (li_encoded_at i - li_t1 i)
                  (last_keyframe pkts) (ls_timings s)\<rparr>
      in if ls_target_fps s = 0 then Err PassPanics
         else if ls_frame_count s mod (ls_target_fps s * 5) = 0 then Ok (s\<lparr>ls_timings := stage_timings_default\<rparr>)
         else Ok s)"

section \<open>The loop\<close>

definition capture_pass :: "capture_config \<Rightarrow> loop_input \<Rightarrow> loop_state \<Rightarrow> pass_end" where
  "capture_pass cfg i s =
     (case and_then (handle_request cfg i s) (\<lambda>s.
           and_then (next_frame cfg i (handle_controls cfg i s)) (\<lambda>(frame, s).
           and_then (ready_encoder cfg i frame s) (\<lambda>s.
           and_then (fit_frame frame s) (\<lambda>frame. encode_frame cfg i frame s)))) of
        Inl e \<Rightarrow> e
      | Inr s \<Rightarrow> Continues s)"

fun capture_run :: "capture_config \<Rightarrow> loop_input list \<Rightarrow> loop_state \<Rightarrow> pass_end" where
  "capture_run cfg [] s = Continues s"
| "capture_run cfg (i # is) s =
     (case capture_pass cfg i s of Continues s \<Rightarrow> capture_run cfg is s | e \<Rightarrow> e)"

section \<open>What holds after every pass\<close>

lemma build_encode_session_size:
  "fst (build_encode_session_for b offers fps res forced q) = Some (c, r) \<Longrightarrow> ec_resolution c = r"
proof -
  have tries: "fst (try_candidates (\<lambda>backend. create_encode_session (offers backend) cfg q) cs st) = Some (c, r)
      \<Longrightarrow> (fst st = Some (c, r) \<Longrightarrow> ec_resolution c = r) \<Longrightarrow> ec_resolution c = r" for cfg cs st
  proof (induction cs arbitrary: st)
    case (Cons backend cs)
    show ?case
    proof (cases "create_encode_session (offers backend) cfg q")
      case None
      with Cons.prems(1) Cons.IH [of "(None, backend)"] show ?thesis by simp
    next
      case (Some s)
      with Cons.prems(1) show ?thesis
        by (auto simp: create_encode_session_def Let_def split: option.splits if_splits)
    qed
  qed simp
  show "fst (build_encode_session_for b offers fps res forced q) = Some (c, r) \<Longrightarrow> ec_resolution c = r"
    unfolding build_encode_session_for_def by (erule tries) simp
qed

text \<open>The calls made on encoders: every frame encoded is one of the given frames, of the size of its
  session.\<close>

definition encoded_ok :: "captured_frame set \<Rightarrow> (encode_config \<times> enc_call) list \<Rightarrow> bool" where
  "encoded_ok F = list_all (\<lambda>(c, call). case call of CallEncode f \<Rightarrow> f \<in> F \<and> frame_res f = ec_resolution c | _ \<Rightarrow> True)"

lemma encoded_ok_append [simp]:
  "encoded_ok F (xs @ ys) \<longleftrightarrow> encoded_ok F xs \<and> encoded_ok F ys"
  by (simp add: encoded_ok_def)

lemma encoded_ok_mono: "F \<subseteq> G \<Longrightarrow> encoded_ok F xs \<Longrightarrow> encoded_ok G xs"
  by (fastforce simp: encoded_ok_def list_all_iff split: enc_call.splits)

fun session_ok :: "encode_config option \<Rightarrow> resolution \<Rightarrow> resolution \<Rightarrow> bool" where
  "session_ok None captured encoded = True"
| "session_ok (Some c) captured encoded = (ec_resolution c = encoded \<and> captured = encoded)"

lemma session_ok_iff:
  "session_ok e captured encoded \<longleftrightarrow> (\<forall>c. e = Some c \<longrightarrow> ec_resolution c = encoded \<and> captured = encoded)"
  by (cases e) auto

definition loop_ok :: "captured_frame set \<Rightarrow> loop_state \<Rightarrow> bool" where
  "loop_ok F s \<longleftrightarrow>
     session_ok (ls_encoder s) (ls_capture_res s) (ls_encode_res s)
     \<and> 1 \<le> ls_quality s \<and> ls_quality s \<le> 10 \<and> ls_fps_cap s \<le> ls_target_fps s
     \<and> ls_input_rect s = di_rect (ls_primary s)
     \<and> ls_total_bytes s = sum_list (map (length \<circ> snd) (ls_sent s))
     \<and> encoded_ok F (ls_calls s)"

definition end_ok :: "captured_frame set \<Rightarrow> pass_end \<Rightarrow> bool" where
  "end_ok F e = (case e of Continues s \<Rightarrow> loop_ok F s | Stops s \<Rightarrow> loop_ok F s | _ \<Rightarrow> True)"

definition flow_ok :: "captured_frame set \<Rightarrow> pass_end + loop_state \<Rightarrow> bool" where
  "flow_ok F r = (case r of Inl e \<Rightarrow> end_ok F e | Inr s \<Rightarrow> loop_ok F s)"

lemma clamp_quality_range: "1 \<le> clamp_quality level" "clamp_quality level \<le> 10"
  by (simp_all add: clamp_quality_def)

named_theorems loop_ok_intros \<open>stages of a pass keep the invariant\<close>

lemma publish_ok [loop_ok_intros]: "loop_ok F s \<Longrightarrow> loop_ok F (publish st s)"
  by (simp add: loop_ok_def publish_def)

lemma tracker_ok [loop_ok_intros]: "loop_ok F s \<Longrightarrow> loop_ok F (s\<lparr>ls_tracker := t\<rparr>)"
  by (simp add: loop_ok_def)

lemma pending_ok [loop_ok_intros]: "loop_ok F s \<Longrightarrow> loop_ok F (s\<lparr>ls_pending := t\<rparr>)"
  by (simp add: loop_ok_def)

lemma call_encoder_ok [loop_ok_intros]:
  "loop_ok F s \<Longrightarrow> list_all (\<lambda>call. \<forall>f. call \<noteq> CallEncode f) calls \<Longrightarrow> loop_ok F (call_encoder calls s)"
  by (auto simp: loop_ok_def call_encoder_def encoded_ok_def list_all_iff split: option.splits enc_call.splits)

lemma handle_request_ok [loop_ok_intros]: "loop_ok F s \<Longrightarrow> flow_ok F (handle_request cfg i s)"
  by (auto simp: handle_request_def flow_ok_def windows_request_def compositor_request_def reject_request_def
      end_ok_def drop_encoder_def Let_def split: option.splits sum.splits prod.splits intro!: loop_ok_intros)
    (simp_all add: loop_ok_def)

lemma handle_quality_ok: "loop_ok F s \<Longrightarrow> loop_ok F (handle_quality cfg i q s)"
proof -
  assume ok: "loop_ok F s"
  obtain level fps where q: "q = (level, fps)" by fastforce
  define s1 where "s1 = (if 1 \<le> level \<and> level \<le> 10 then s\<lparr>ls_quality := level\<rparr>
    else if level = 0 then s\<lparr>ls_quality := clamp_quality (cc_default_quality cfg)\<rparr> else s)"
  define s2 where "s2 = (if fps = 0
              then s1\<lparr>ls_fps_cap := effective_default_fps_cap (ls_target_fps s1) (cc_default_fps_cap cfg)\<rparr>
              else if fps \<le> 144 then s1\<lparr>ls_fps_cap := min fps (ls_target_fps s1)\<rparr> else s1)"
  have "loop_ok F s1"
    using ok clamp_quality_range [of "cc_default_quality cfg"] by (simp add: s1_def loop_ok_def)
  then have "loop_ok F s2"
    by (simp add: s2_def loop_ok_def effective_default_fps_cap_def)
  then have "loop_ok F (call_encoder [CallFramerate (ls_fps_cap s2), CallBitrate kbps] s2)" for kbps
    by (rule call_encoder_ok) simp
  with \<open>loop_ok F s2\<close> show ?thesis
    unfolding handle_quality_def q prod.case s1_def [symmetric] s2_def [symmetric] Let_def
    by (simp add: loop_ok_def)
qed

lemma handle_controls_ok [loop_ok_intros]: "loop_ok F s \<Longrightarrow> loop_ok F (handle_controls cfg i s)"
proof -
  have "loop_ok F s \<Longrightarrow> loop_ok F (fold (handle_quality cfg i) qs s)" for s qs
    by (induction qs arbitrary: s) (simp_all add: handle_quality_ok)
  then show "loop_ok F s \<Longrightarrow> loop_ok F (handle_controls cfg i s)"
    by (simp add: handle_controls_def handle_bitrates_def handle_idr_def call_encoder_ok)
qed

lemma settle_ok: "loop_ok F s \<Longrightarrow> loop_ok F (settle cfg frame now s)"
  by (auto simp: settle_def settle_pending_mode_def Let_def split: option.splits pending_mode_state.splits
      intro!: loop_ok_intros) (simp_all add: loop_ok_def)

lemma next_frame_ok:
  assumes "loop_ok F s"
  shows "case next_frame cfg i s of Inl e \<Rightarrow> end_ok F e | Inr (frame, s) \<Rightarrow> li_frame i = GotFrame frame \<and> loop_ok F s"
proof (cases "li_frame i")
  case (GotFrame frame)
  with settle_ok [OF assms, of cfg "Some (frame_res frame)" "li_settle_at i"] show ?thesis
    by (simp add: next_frame_def Let_def split: prod.split) (simp add: loop_ok_def end_ok_def)
qed (use assms settle_ok [OF assms] in \<open>auto simp: next_frame_def end_ok_def drop_encoder_def loop_ok_def
       split: option.splits\<close>)

text \<open>After the encoder is ready, it is open at the size of the frame, or closed.\<close>

lemma ready_encoder_ok:
  assumes "loop_ok F s"
  shows "case ready_encoder cfg i frame s of Inl e \<Rightarrow> end_ok F e
    | Inr s' \<Rightarrow> loop_ok F s' \<and> (ls_encoder s' \<noteq> None \<longrightarrow> ls_encode_res s' = frame_res frame)"
proof (cases "needs_encoder i frame s")
  case False
  with assms show ?thesis
    by (auto simp: ready_encoder_def needs_encoder_def loop_ok_def)
next
  case True
  let ?b = "build_encode_session_for (cc_build cfg) (li_offers i) (ls_fps_cap s) (frame_res frame) (cc_forced cfg) (ls_quality s)"
  define s1 where "s1 = open_encoder cfg i frame s"
  have c: "\<forall>c. ls_encoder s1 = Some c \<longrightarrow> ec_resolution c = ls_encode_res s1" and r: "ls_capture_res s1 = frame_res frame"
    using build_encode_session_size [of "cc_build cfg" "li_offers i" "ls_fps_cap s" "frame_res frame" "cc_forced cfg" "ls_quality s"]
    by (cases ?b; auto simp: s1_def open_encoder_def Let_def call_encoder_def publish_def split: option.splits prod.splits)+
  have "loop_ok F (s1\<lparr>ls_encoder := None\<rparr>)"
    using assms by (cases ?b)
      (auto simp: s1_def open_encoder_def loop_ok_def Let_def call_encoder_def publish_def encoded_ok_def split: option.splits prod.splits)
  with c r show ?thesis
    unfolding ready_encoder_def s1_def [symmetric] using True
    by (auto simp: rescale_capture_def Let_def end_ok_def loop_ok_def session_ok_iff
        split: option.splits downscale_restart.splits)
qed

lemma emit_packet_ok: "loop_ok F s \<Longrightarrow> loop_ok F (emit_packet ts p s)"
  by (simp add: emit_packet_def Let_def publish_def loop_ok_def split: prod.split option.split)

lemma emit_packets_ok: "loop_ok F s \<Longrightarrow> loop_ok F (fold (emit_packet ts) pkts s)"
  by (induction pkts arbitrary: s) (simp_all add: emit_packet_ok)

lemma encode_frame_ok:
  assumes "loop_ok F s" "frame \<in> F" "ls_encoder s \<noteq> None \<longrightarrow> ls_encode_res s = frame_res frame"
  shows "flow_ok F (encode_frame cfg i frame s)"
proof -
  have "loop_ok F (call_encoder [CallEncode frame] s)"
    using assms by (auto simp: loop_ok_def call_encoder_def encoded_ok_def split: option.splits)
  from emit_packets_ok [OF this] show ?thesis
    by (simp add: encode_frame_def Let_def flow_ok_def end_ok_def loop_ok_def)
qed

lemma case_and_then:
  assumes "case m of Inl e \<Rightarrow> P e | Inr a \<Rightarrow> Q a" "\<And>a. Q a \<Longrightarrow> case f a of Inl e \<Rightarrow> P e | Inr b \<Rightarrow> R b"
  shows "case and_then m f of Inl e \<Rightarrow> P e | Inr b \<Rightarrow> R b"
  using assms by (cases m) simp_all

lemmas flow_ok_and_then = case_and_then [where P = "end_ok F" and R = "loop_ok F" for F, folded flow_ok_def]

lemma case_pass_end:
  "P (case m of Inl e \<Rightarrow> e | Inr s \<Rightarrow> Continues s) = (case m of Inl e \<Rightarrow> P e | Inr s \<Rightarrow> P (Continues s))"
  by (cases m) simp_all

text \<open>A frame that does not have the size of the session only occurs when the session is closed.\<close>

lemma fit_and_encode_ok:
  assumes ok: "loop_ok F s" and "frame \<in> F" and "ls_encoder s \<noteq> None \<longrightarrow> ls_encode_res s = frame_res frame"
  shows "flow_ok F (and_then (fit_frame frame s) (\<lambda>frame. encode_frame cfg i frame s))"
proof (cases "ls_encoder s")
  case None
  then have "flow_ok F (encode_frame cfg i f s)" for f
    using ok by (simp add: encode_frame_def flow_ok_def end_ok_def call_encoder_def loop_ok_def Let_def)
  moreover have "case fit_frame frame s of Inl e \<Rightarrow> end_ok F e | Inr f \<Rightarrow> True"
    using ok by (simp add: fit_frame_def end_ok_def split: sum.splits checked.splits)
  ultimately show ?thesis by (rule flow_ok_and_then [rotated])
next
  case (Some c)
  with assms have "frame_res frame = ls_encode_res s" by simp
  with encode_frame_ok [OF assms] show ?thesis by (simp add: fit_frame_def)
qed

lemma capture_pass_ok:
  assumes ok: "loop_ok F s" and new: "\<And>f. li_frame i = GotFrame f \<Longrightarrow> f \<in> F"
  shows "end_ok F (capture_pass cfg i s)"
proof -
  let ?encode = "\<lambda>(frame, s). and_then (ready_encoder cfg i frame s) (\<lambda>s.
           and_then (fit_frame frame s) (\<lambda>frame. encode_frame cfg i frame s))"
  have enc: "flow_ok F (?encode (frame, s))" if "loop_ok F s" "frame \<in> F" for frame s
    unfolding prod.case
    by (rule flow_ok_and_then [OF ready_encoder_ok [OF that(1)]]) (use fit_and_encode_ok that(2) in blast)
  have "flow_ok F (and_then (next_frame cfg i s) ?encode)" if "loop_ok F s" for s
    by (rule flow_ok_and_then [OF next_frame_ok [OF that]]) (use enc new in auto)
  then have "flow_ok F (and_then (handle_request cfg i s) (\<lambda>s. and_then (next_frame cfg i (handle_controls cfg i s)) ?encode))"
    by (intro flow_ok_and_then [where Q = "loop_ok F"])
      (use handle_request_ok [OF ok] handle_controls_ok in \<open>auto simp: flow_ok_def\<close>)
  then show ?thesis
    unfolding capture_pass_def flow_ok_def case_pass_end [of "end_ok F"] by (simp only: end_ok_def pass_end.case)
qed

lemma loop_ok_mono: "F \<subseteq> G \<Longrightarrow> loop_ok F s \<Longrightarrow> loop_ok G s"
  by (auto simp: loop_ok_def dest: encoded_ok_mono)

definition captured :: "loop_input list \<Rightarrow> captured_frame set" where
  "captured is = {f. GotFrame f \<in> li_frame ` set is}"

lemma capture_run_ok: "loop_ok F s \<Longrightarrow> captured is \<subseteq> F \<Longrightarrow> end_ok F (capture_run cfg is s)"
proof (induction "is" arbitrary: s)
  case (Cons i "is")
  have pass: "end_ok F (capture_pass cfg i s)"
    by (rule capture_pass_ok [OF Cons.prems(1)]) (use Cons.prems(2) in \<open>auto simp: captured_def\<close>)
  have "captured is \<subseteq> F" using Cons.prems(2) by (auto simp: captured_def)
  with pass Cons.IH show ?case by (cases "capture_pass cfg i s") (simp_all add: end_ok_def)
qed (simp add: end_ok_def)

lemma capture_start_ok: "capture_start cfg env = Returns (Some s) \<Longrightarrow> loop_ok F s \<and> ls_encoder s = None \<and> ls_sent s = []"
  by (auto simp: capture_start_def loop_init_def loop_ok_def encoded_ok_def clamp_quality_def
      effective_default_fps_cap_def split: if_splits option.splits checked.splits prod.splits)

text \<open>C16: However long the capture thread runs: each frame handed to an encoder is a captured frame,
  unscaled, of the size its session was opened for; the quality level stays between 1 and 10 and the
  frame rate cap within the configured rate; absolute input is aimed at the rectangle of the display
  being captured; and the byte counter is the number of bytes sent.\<close>

theorem capture_loop_invariant:
  assumes "capture_start cfg env = Returns (Some s0)" "capture_run cfg is s0 = Continues s"
  shows "list_all (\<lambda>(c, call). case call of
             CallEncode f \<Rightarrow> f \<in> captured is \<and> frame_res f = ec_resolution c | _ \<Rightarrow> True) (ls_calls s)
    \<and> 1 \<le> ls_quality s \<and> ls_quality s \<le> 10 \<and> ls_fps_cap s \<le> ls_target_fps s
    \<and> ls_input_rect s = di_rect (ls_primary s)
    \<and> ls_total_bytes s = sum_list (map (length \<circ> snd) (ls_sent s))"
  using capture_run_ok [of "captured is" s0 "is" cfg] capture_start_ok [OF assms(1)] assms(2)
  by (simp add: end_ok_def loop_ok_def encoded_ok_def)

section \<open>Frames larger than the encoder\<close>

lemma controls_keep [simp]:
  "ls_encoder (handle_controls cfg i s) = ls_encoder s"
  "ls_capture_res (handle_controls cfg i s) = ls_capture_res s"
  "ls_encode_res (handle_controls cfg i s) = ls_encode_res s"
  "ls_retry (handle_controls cfg i s) = ls_retry s"
  "ls_target_fps (handle_controls cfg i s) = ls_target_fps s"
  "ls_sent (handle_controls cfg i s) = ls_sent s"
proof -
  define same where "same a b \<longleftrightarrow> ls_encoder a = ls_encoder b \<and> ls_capture_res a = ls_capture_res b
    \<and> ls_encode_res a = ls_encode_res b \<and> ls_retry a = ls_retry b \<and> ls_target_fps a = ls_target_fps b
    \<and> ls_sent a = ls_sent b" for a b :: loop_state
  have call: "same (call_encoder calls s) s" for calls s
    by (simp add: same_def call_encoder_def split: option.split)
  have "same (handle_quality cfg i q s) s" for q s
    using call unfolding handle_quality_def same_def by (auto simp: Let_def split: prod.split)
  then have "same (fold (handle_quality cfg i) qs s) s" for qs s
    by (induction qs arbitrary: s) (simp_all add: same_def)
  with call have "same (handle_controls cfg i s) s"
    by (simp add: handle_controls_def handle_bitrates_def handle_idr_def same_def)
  then show "ls_encoder (handle_controls cfg i s) = ls_encoder s"
    "ls_capture_res (handle_controls cfg i s) = ls_capture_res s"
    "ls_encode_res (handle_controls cfg i s) = ls_encode_res s"
    "ls_retry (handle_controls cfg i s) = ls_retry s"
    "ls_target_fps (handle_controls cfg i s) = ls_target_fps s"
    "ls_sent (handle_controls cfg i s) = ls_sent s"
    by (simp_all add: same_def)
qed

lemma settle_keep [simp]:
  "ls_encoder (settle cfg f now s) = ls_encoder s"
  "ls_capture_res (settle cfg f now s) = ls_capture_res s"
  "ls_encode_res (settle cfg f now s) = ls_encode_res s"
  "ls_retry (settle cfg f now s) = ls_retry s"
  "ls_target_fps (settle cfg f now s) = ls_target_fps s"
  "ls_fps_cap (settle cfg f now s) = ls_fps_cap s"
  "ls_quality (settle cfg f now s) = ls_quality s"
  "ls_pacer (settle cfg f now s) = ls_pacer s"
  "ls_sent (settle cfg f now s) = ls_sent s"
  by (simp_all add: settle_def settle_pending_mode_def publish_def Let_def split: option.split pending_mode_state.split)

text \<open>The capture cannot be scaled on the GPU, and no session opens at the size of the frame.\<close>

definition too_large :: "capture_config \<Rightarrow> loop_input \<Rightarrow> bool" where
  "too_large cfg i \<longleftrightarrow> \<not> li_restart_scaled i
     \<and> (case li_frame i of
          GotFrame f \<Rightarrow> (\<forall>fps quality. case fst (build_encode_session_for (cc_build cfg) (li_offers i) fps (frame_res f)
                                                  (cc_forced cfg) quality) of
                          None \<Rightarrow> True | Some (c, res) \<Rightarrow> res \<noteq> frame_res f)
        | _ \<Rightarrow> True)"

definition silent :: "loop_state \<Rightarrow> bool" where
  "silent s \<longleftrightarrow> ls_encoder s = None \<and> ls_sent s = []"

definition silent_end :: "pass_end \<Rightarrow> bool" where
  "silent_end e = (case e of Continues s \<Rightarrow> silent s | Stops s \<Rightarrow> silent s | _ \<Rightarrow> True)"

lemma silent_end_Continues: "silent_end (Continues s) = silent s"
  by (simp add: silent_end_def)

lemma handle_request_silent:
  "silent s \<Longrightarrow> case handle_request cfg i s of Inl e \<Rightarrow> silent_end e | Inr s \<Rightarrow> silent s"
  by (auto simp: handle_request_def windows_request_def compositor_request_def reject_request_def publish_def silent_def
      silent_end_def drop_encoder_def Let_def split: option.splits sum.splits prod.splits)

lemma next_frame_silent:
  "silent s \<Longrightarrow> case next_frame cfg i s of Inl e \<Rightarrow> silent_end e | Inr (f, s) \<Rightarrow> li_frame i = GotFrame f \<and> silent s"
  by (auto simp: next_frame_def silent_def silent_end_def drop_encoder_def Let_def
      split: frame_answer.splits option.splits prod.splits)

lemma ready_encoder_silent:
  assumes "silent s" "too_large cfg i" "li_frame i = GotFrame f"
  shows "case ready_encoder cfg i f s of Inl e \<Rightarrow> silent_end e | Inr s \<Rightarrow> silent s"
proof -
  let ?b = "build_encode_session_for (cc_build cfg) (li_offers i) (ls_fps_cap s) (frame_res f) (cc_forced cfg) (ls_quality s)"
  define s1 where "s1 = open_encoder cfg i f s"
  have b: "case fst ?b of None \<Rightarrow> True | Some (c, res) \<Rightarrow> res \<noteq> frame_res f"
    using assms(2,3) unfolding too_large_def by simp
  have "ls_encoder s1 \<noteq> None \<longrightarrow> ls_encode_res s1 \<noteq> ls_capture_res s1" "ls_sent s1 = []"
    using b assms(1) by (cases ?b; auto simp: s1_def open_encoder_def call_encoder_def publish_def silent_def Let_def
        split: option.splits prod.splits)+
  moreover have "\<not> li_restart_scaled i" using assms(2) by (simp add: too_large_def)
  ultimately show ?thesis
    using assms(1) unfolding ready_encoder_def s1_def [symmetric]
    by (auto simp: rescale_capture_def restart_for_downscale_def Let_def silent_def silent_end_def split: option.splits)
qed

lemma fit_and_encode_silent:
  "silent s \<Longrightarrow> case and_then (fit_frame f s) (\<lambda>f. encode_frame cfg i f s) of Inl e \<Rightarrow> silent_end e | Inr s \<Rightarrow> silent s"
  by (auto simp: fit_frame_def encode_frame_def call_encoder_def silent_def silent_end_def Let_def
      split: sum.splits checked.splits)

lemma capture_pass_silent:
  assumes "silent s" "too_large cfg i"
  shows "silent_end (capture_pass cfg i s)"
proof -
  let ?encode = "\<lambda>(frame, s). and_then (ready_encoder cfg i frame s) (\<lambda>s.
           and_then (fit_frame frame s) (\<lambda>frame. encode_frame cfg i frame s))"
  have enc: "case ?encode (f, s) of Inl e \<Rightarrow> silent_end e | Inr s \<Rightarrow> silent s" if "li_frame i = GotFrame f" "silent s" for f s
    unfolding prod.case
    by (rule case_and_then [OF ready_encoder_silent [OF that(2) assms(2) that(1)] fit_and_encode_silent])
  have "case and_then (next_frame cfg i s) ?encode of Inl e \<Rightarrow> silent_end e | Inr s \<Rightarrow> silent s" if "silent s" for s
    by (rule case_and_then [OF next_frame_silent [OF that]]) (use enc in auto)
  then have "case and_then (handle_request cfg i s) (\<lambda>s. and_then (next_frame cfg i (handle_controls cfg i s)) ?encode)
      of Inl e \<Rightarrow> silent_end e | Inr s \<Rightarrow> silent s"
    by (intro case_and_then [OF handle_request_silent [OF assms(1)]]) (simp add: silent_def)
  then show ?thesis
    unfolding capture_pass_def case_pass_end [of silent_end] silent_end_Continues .
qed

lemma capture_run_silent:
  "silent s \<Longrightarrow> list_all (too_large cfg) is \<Longrightarrow> silent_end (capture_run cfg is s)"
proof (induction "is" arbitrary: s)
  case (Cons i "is")
  then have "silent_end (capture_pass cfg i s)" by (simp add: capture_pass_silent)
  with Cons show ?case by (cases "capture_pass cfg i s") (simp_all add: silent_end_def)
qed (simp add: silent_end_def)

text \<open>C21: Frames larger than every encoder session, on a capture that cannot be scaled on the GPU, are never
  encoded: the session opened for the smaller size is dropped together with the capture session, so
  the frames the CPU fallback scales find no encoder, and nothing is ever sent.\<close>

theorem cpu_downscale_never_encodes:
  assumes "capture_start cfg env = Returns (Some s0)" "list_all (too_large cfg) is"
    "capture_run cfg is s0 = Continues s"
  shows "ls_sent s = [] \<and> ls_encoder s = None"
  using capture_run_silent [of s0 cfg "is"] capture_start_ok [OF assms(1)] assms(2,3)
  by (simp add: silent_end_def silent_def)

section \<open>Frames that fit are encoded\<close>

lemma emit_packets_sent:
  "ls_sent (fold (emit_packet ts) pkts s) = ls_sent s @ map (\<lambda>p. (ts, packet_data p)) pkts
   \<and> ls_calls (fold (emit_packet ts) pkts s) = ls_calls s
   \<and> ls_target_fps (fold (emit_packet ts) pkts s) = ls_target_fps s"
  by (induction pkts arbitrary: s) (simp_all add: emit_packet_def publish_def Let_def split: prod.split option.split)

lemma encode_frame_sends:
  assumes "ls_encoder s = Some c" "li_packets i = Ok pkts" "0 < ls_target_fps s"
  shows "\<exists>s'. encode_frame cfg i f s = Ok s' \<and> ls_calls s' = ls_calls s @ [(c, CallEncode f)]
    \<and> ls_sent s' = ls_sent s @ map (\<lambda>p. (stream_micros cfg f, packet_data p)) pkts"
  using assms emit_packets_sent [of "stream_micros cfg f" pkts "call_encoder [CallEncode f] s"]
  by (simp add: encode_frame_def Let_def call_encoder_def)

lemma ready_encoder_opens:
  assumes ok: "session_ok (ls_encoder s) (ls_capture_res s) (ls_encode_res s)"
    and due: "ls_encoder s \<noteq> None \<or> needs_encoder i f s"
    and opens: "build_encode_session_for (cc_build cfg) (li_offers i) (ls_fps_cap s) (frame_res f) (cc_forced cfg) (ls_quality s)
        = (Some (c, frame_res f), b)"
  shows "\<exists>s' c'. ready_encoder cfg i f s = Ok s' \<and> ls_encoder s' = Some c' \<and> ec_resolution c' = frame_res f
    \<and> ls_encode_res s' = frame_res f \<and> ls_sent s' = ls_sent s \<and> ls_target_fps s' = ls_target_fps s"
proof (cases "needs_encoder i f s")
  case True
  have "ec_resolution c = frame_res f"
    by (rule build_encode_session_size [OF arg_cong [OF opens, of fst, unfolded fst_conv]])
  with True opens show ?thesis
    by (simp add: ready_encoder_def open_encoder_def rescale_capture_def call_encoder_def Let_def)
next
  case False
  with due ok show ?thesis by (auto simp: ready_encoder_def needs_encoder_def)
qed

text \<open>C17: A captured frame that pacing accepts is encoded in the same pass, if a session opens at its
  size and no rebuild is being delayed: the encoder gets the frame and all its packets are sent with
  the frame's time, whatever commands the pass also handles.\<close>

theorem fitting_frame_encoded:
  assumes start: "capture_start cfg env = Returns (Some s0)" and run: "capture_run cfg is s0 = Continues s"
    and input: "li_request i = None" "li_frame i = GotFrame f" "li_packets i = Ok pkts"
    and fps: "0 < ls_target_fps s"
    and controls: "handle_controls cfg i s = s1"
    and paced: "fst (should_encode_frame (ls_pacer s1) (li_t0 i) (ls_fps_cap s1))"
    and opens: "build_encode_session_for (cc_build cfg) (li_offers i) (ls_fps_cap s1) (frame_res f) (cc_forced cfg) (ls_quality s1)
        = (Some (c, frame_res f), b)"
    and due: "ls_encoder s \<noteq> None \<or> needs_encoder i f s"
  shows "\<exists>s' c'. capture_pass cfg i s = Continues s' \<and> ec_resolution c' = frame_res f
    \<and> last (ls_calls s') = (c', CallEncode f)
    \<and> ls_sent s' = ls_sent s @ map (\<lambda>p. (stream_micros cfg f, packet_data p)) pkts"
proof -
  have ok: "loop_ok (captured is) s"
    using capture_run_ok [of "captured is" s0 "is" cfg] capture_start_ok [OF start] run by (simp add: end_ok_def)
  define s2 where "s2 = settle cfg (Some (frame_res f)) (li_settle_at i) s1"
  define s3 where "s3 = s2\<lparr>ls_pacer := snd (should_encode_frame (ls_pacer s1) (li_t0 i) (ls_fps_cap s1)),
    ls_frame_count := ls_frame_count s2 + 1\<rparr>"
  have nf: "next_frame cfg i s1 = Ok (f, s3)"
    using paced input(2) by (simp add: next_frame_def s2_def [symmetric] Let_def s3_def case_prod_unfold)
      (simp add: s2_def)
  note keep = controls [symmetric] s2_def s3_def
  have "session_ok (ls_encoder s3) (ls_capture_res s3) (ls_encode_res s3)"
    using ok by (simp add: keep loop_ok_def)
  moreover have "ls_encoder s3 \<noteq> None \<or> needs_encoder i f s3"
    using due by (simp add: keep needs_encoder_def)
  moreover have "build_encode_session_for (cc_build cfg) (li_offers i) (ls_fps_cap s3) (frame_res f) (cc_forced cfg) (ls_quality s3)
        = (Some (c, frame_res f), b)"
    using opens by (simp add: s2_def s3_def)
  ultimately obtain s4 c' where s4: "ready_encoder cfg i f s3 = Ok s4" "ls_encoder s4 = Some c'"
    "ec_resolution c' = frame_res f" "ls_encode_res s4 = frame_res f" "ls_sent s4 = ls_sent s3" "ls_target_fps s4 = ls_target_fps s3"
    using ready_encoder_opens by blast
  have "ls_sent s3 = ls_sent s" "ls_target_fps s3 = ls_target_fps s" by (simp_all add: keep)
  with encode_frame_sends [OF s4(2) input(3), of cfg f] fps s4 obtain s5 where
    "encode_frame cfg i f s4 = Ok s5" "ls_calls s5 = ls_calls s4 @ [(c', CallEncode f)]"
    "ls_sent s5 = ls_sent s @ map (\<lambda>p. (stream_micros cfg f, packet_data p)) pkts"
    by auto
  with s4 nf show ?thesis
    by (simp add: capture_pass_def handle_request_def input(1) controls fit_frame_def)
qed

section \<open>A thread on a small display\<close>

definition example_config :: capture_config where
  "example_config = \<lparr>cc_build = \<lparr>b_os = Linux, b_ffmpeg = False, b_vaapi = False, b_vulkan = False\<rparr>, cc_epoch = 0,
     cc_target_fps = 60, cc_default_fps_cap = 30, cc_forced = None, cc_default_quality = 5,
     cc_target_display = None, cc_virtual_display = False, cc_initial_mode = None\<rparr>"

definition example_start :: start_env where
  "example_start = \<lparr>se_create = True, se_displays = Some [example_display 4 2], se_input_sink = True, se_start = True\<rparr>"

definition example_frame :: captured_frame where
  "example_frame = \<lparr>sequence = 0, timestamp = 7000, format = Bgra8, frame_res = \<lparr>width = 4, height = 2\<rparr>,
     frame_stride = 16, frame_data = replicate 32 0, gpu_resident = False\<rparr>"

definition example_offer :: "resolution option \<Rightarrow> encoder_offer" where
  "example_offer limit = \<lparr>eo_available = True, eo_max_resolution = limit, eo_opens = (\<lambda>c. True)\<rparr>"

definition example_input :: "resolution option \<Rightarrow> loop_input" where
  "example_input limit =
     \<lparr>li_request = None, li_request_mode = Ok (), li_request_at = 0,
      li_transition = (example_replug (Ok ()) 4 2, example_replug (Ok ()) 4 2, []),
      li_idr = True, li_bitrates = [], li_qualities = [(7, 20)], li_set_bitrate = (\<lambda>_. True), li_t0 = 0,
      li_frame = GotFrame example_frame, li_recover = [], li_settle_at = 0, li_captured_at = 1, li_rebuild_at = 2,
      li_offers = (\<lambda>_. example_offer limit), li_built_at = 3, li_restart_scaled = False, li_restart_native = True,
      li_t1 = 4, li_packets = Ok [\<lparr>frame_index = 0, pts = 7, is_keyframe = True, packet_data = [1, 2, 3]\<rparr>],
      li_encoded_at = 5\<rparr>"

lemmas example_defs = example_config_def example_start_def example_frame_def example_offer_def example_input_def
  example_display_def

lemmas pass_defs = capture_pass_def handle_request_def handle_controls_def handle_idr_def handle_quality_def
  handle_bitrates_def call_encoder_def next_frame_def settle_def settle_pending_mode_def should_encode_frame_def
  ready_encoder_def needs_encoder_def open_encoder_def rescale_capture_def restart_for_downscale_def fit_frame_def
  encode_frame_def emit_packet_def on_packet_emitted_def tracker_default_def frame_pacer_default_def
  build_encode_session_for_def encoder_backend_candidates_def create_encode_session_def session_config_def
  no_resolution_def Let_def

definition example_state :: loop_state where
  "example_state = loop_init example_config (example_display 4 2) 60"

lemma example_starts: "capture_start example_config example_start = Returns (Some example_state)"
  by (simp add: capture_start_def select_display_def initial_display_def example_state_def example_defs)

theorem capture_loop_invariant_witness:
  "case capture_run example_config [example_input None] example_state of
     Continues s \<Rightarrow> list_all (\<lambda>(c, call). case call of
             CallEncode f \<Rightarrow> f \<in> captured [example_input None] \<and> frame_res f = ec_resolution c | _ \<Rightarrow> True) (ls_calls s)
       \<and> map snd (ls_calls s) = [CallIdrRebuild, CallEncode example_frame] \<and> ls_total_bytes s = 3
   | _ \<Rightarrow> False"
proof -
  have "case capture_run example_config [example_input None] example_state of
      Continues s \<Rightarrow> map snd (ls_calls s) = [CallIdrRebuild, CallEncode example_frame] \<and> ls_total_bytes s = 3 | _ \<Rightarrow> False"
    by (simp add: pass_defs example_state_def example_defs loop_init_def)
  then obtain s where s: "capture_run example_config [example_input None] example_state = Continues s"
    "map snd (ls_calls s) = [CallIdrRebuild, CallEncode example_frame]" "ls_total_bytes s = 3"
    by (auto split: pass_end.splits)
  with capture_loop_invariant [OF example_starts s(1)] show ?thesis by simp
qed

text \<open>An encoder of at most 2x2 pixels: the frame is scaled on the CPU and dropped.\<close>

definition example_limit :: resolution where "example_limit = \<lparr>width = 2, height = 2\<rparr>"

lemma example_too_large: "too_large example_config (example_input (Some example_limit))"
  by (simp add: too_large_def pass_defs example_defs example_limit_def fit_within_def even_down_def)

theorem cpu_downscale_never_encodes_witness:
  "case capture_run example_config [example_input (Some example_limit)] example_state of
     Continues s \<Rightarrow> ls_restarts s = 1 \<and> ls_sent s = [] \<and> ls_encoder s = None
   | _ \<Rightarrow> False"
proof -
  have "case capture_run example_config [example_input (Some example_limit)] example_state of
      Continues s \<Rightarrow> ls_restarts s = 1 | _ \<Rightarrow> False"
    by (simp add: pass_defs example_state_def example_defs loop_init_def example_limit_def fit_within_def
        even_down_def downscale_frame_def)
  then obtain s where s: "capture_run example_config [example_input (Some example_limit)] example_state = Continues s"
    "ls_restarts s = 1"
    by (auto split: pass_end.splits)
  with cpu_downscale_never_encodes [OF example_starts _ s(1)] example_too_large show ?thesis by simp
qed

theorem fitting_frame_encoded_witness:
  "\<exists>s' c'. capture_pass example_config (example_input None) example_state = Continues s'
     \<and> ec_resolution c' = \<lparr>width = 4, height = 2\<rparr> \<and> last (ls_calls s') = (c', CallEncode example_frame)
     \<and> ls_sent s' = [(7, [1, 2, 3])]"
proof -
  let ?i = "example_input None"
  have "\<exists>s' c'. capture_pass example_config ?i example_state = Continues s'
    \<and> ec_resolution c' = frame_res example_frame \<and> last (ls_calls s') = (c', CallEncode example_frame)
    \<and> ls_sent s' = ls_sent example_state @ map (\<lambda>p. (stream_micros example_config example_frame, packet_data p))
        [\<lparr>frame_index = 0, pts = 7, is_keyframe = True, packet_data = [1, 2, 3]\<rparr>]"
    by (rule fitting_frame_encoded [OF example_starts, of "[]" _ _ _ _ "handle_controls example_config ?i example_state"])
      (simp_all add: pass_defs example_state_def example_defs loop_init_def)
  then show ?thesis
    by (simp add: example_state_def loop_init_def example_defs stream_micros_def)
qed

end
