(* ===== verification/Ccd_Snapshot.thy ===== *)
theory Ccd_Snapshot
  imports Capture_Modes
begin

text \<open>
  Display topologies of the Windows agent and the file they are saved to, \<open>flux-server/src/ccd_display.rs\<close>.
  Paths and modes are the structures of the Windows API with the fields the code reads; what it only
  copies is in a field of raw bytes.  A mode carries the two readings of its union.  The memory layout
  of the structures is a parameter, their size with the functions to and from bytes.
\<close>

unbundle bit_operations_syntax

section \<open>Topologies\<close>

record luid =
  low_part :: u32
  high_part :: u32

definition luid_value :: "luid \<Rightarrow> u64" where
  "luid_value l = ucast (low_part l) OR push_bit 32 (scast (high_part l))"

record ccd_path =
  pi_flags :: u32
  si_adapter :: luid
  si_id :: u32
  si_mode :: u32
  ti_adapter :: luid
  ti_id :: u32
  ti_mode :: u32
  ti_refresh :: "u32 \<times> u32"
  ti_available :: bool
  pi_rest :: "byte list"

datatype mode_type = SourceType | TargetType | OtherType

record source_mode =
  sm_width :: u32
  sm_height :: u32
  sm_x :: int
  sm_y :: int

record target_mode =
  tm_active :: "u32 \<times> u32"
  tm_total :: "u32 \<times> u32"
  tm_vsync :: "u32 \<times> u32"
  tm_pixel_rate :: u64

record ccd_mode =
  mi_type :: mode_type
  mi_source :: source_mode
  mi_target :: target_mode
  mi_rest :: "byte list"

record display_config =
  dc_paths :: "ccd_path list"
  dc_modes :: "ccd_mode list"

definition DISPLAYCONFIG_PATH_ACTIVE :: u32 where "DISPLAYCONFIG_PATH_ACTIVE = 1"
definition DISPLAYCONFIG_PATH_MODE_IDX_INVALID :: u32 where "DISPLAYCONFIG_PATH_MODE_IDX_INVALID = 0xFFFFFFFF"

definition path_active :: "ccd_path \<Rightarrow> bool" where
  "path_active p \<longleftrightarrow> pi_flags p AND DISPLAYCONFIG_PATH_ACTIVE \<noteq> 0"

section \<open>Errors\<close>

datatype config_op = Privacy | Restore | Mode

datatype ccd_error =
    ValidateRejected config_op int
  | ApplyFailed config_op int
  | VerifyMismatch config_op string
  | Topology string
  | SnapshotIo string io_error
  | SnapshotInvalid string
  | LockWorkstation int
  | CcdTimeout nat ccd_error
  | StatePoisoned
  | ShuttingDown

section \<open>Snapshot file\<close>

text \<open>Memory layout of a structure.\<close>

record 'a layout =
  size_of :: nat
  to_raw :: "'a \<Rightarrow> byte list"
  of_raw :: "byte list \<Rightarrow> 'a"

definition stored :: "'a layout \<Rightarrow> 'a list \<Rightarrow> bool" where
  "stored l xs \<longleftrightarrow> size_of l < 2 ^ 16 \<and> length xs < 2 ^ 32
     \<and> list_all (\<lambda>x. length (to_raw l x) = size_of l \<and> of_raw l (to_raw l x) = x) xs"

definition SNAPSHOT_MAGIC :: "byte list" where
  "SNAPSHOT_MAGIC = map (of_char :: char \<Rightarrow> byte) ''FLUXPRIV''"

definition SNAPSHOT_VERSION :: u32 where "SNAPSHOT_VERSION = 1"

definition append_snapshot_vec :: "'a layout \<Rightarrow> 'a list \<Rightarrow> byte list" where
  "append_snapshot_vec l values = u32_le (of_nat (length values)) @ concat (map (to_raw l) values)"

definition snapshot_bytes :: "ccd_path layout \<Rightarrow> ccd_mode layout \<Rightarrow> u64 \<Rightarrow> display_config \<Rightarrow> byte list" where
  "snapshot_bytes pl ml boot config =
     SNAPSHOT_MAGIC @ u32_le SNAPSHOT_VERSION @ u32_le (of_nat (size_of pl)) @ u32_le (of_nat (size_of ml))
     @ u64_le boot @ append_snapshot_vec pl (dc_paths config) @ append_snapshot_vec ml (dc_modes config)"

text \<open>The readers return the value and the new offset.\<close>

definition read_snapshot_u32 :: "byte list \<Rightarrow> nat \<Rightarrow> ccd_error + u32 \<times> nat" where
  "read_snapshot_u32 bytes offset =
     (if offset + 4 > length bytes then Err (SnapshotInvalid ''is truncated'')
      else Ok (u32_of_le (take 4 (drop offset bytes)), offset + 4))"

definition read_snapshot_u64 :: "byte list \<Rightarrow> nat \<Rightarrow> ccd_error + u64 \<times> nat" where
  "read_snapshot_u64 bytes offset =
     (if offset + 8 > length bytes then Err (SnapshotInvalid ''is truncated'')
      else Ok (u64_of_le (take 8 (drop offset bytes)), offset + 8))"

fun chunks_exact :: "nat \<Rightarrow> nat \<Rightarrow> byte list \<Rightarrow> byte list list" where
  "chunks_exact n 0 bs = []"
| "chunks_exact n (Suc count) bs = take n bs # chunks_exact n count (drop n bs)"

text \<open>Sizes are 64-bit: the multiplication is checked, and no offset in memory overflows the addition.\<close>

definition read_snapshot_vec :: "'a layout \<Rightarrow> byte list \<Rightarrow> nat \<Rightarrow> ccd_error + 'a list \<times> nat" where
  "read_snapshot_vec l bytes offset =
     and_then (read_snapshot_u32 bytes offset) (\<lambda>(count, offset).
       let size = size_of l * unat count in
       if size \<ge> 2 ^ 64 then Err (SnapshotInvalid ''size overflow'')
       else if offset + size \<ge> 2 ^ 64 then Err (SnapshotInvalid ''offset overflow'')
       else if offset + size > length bytes then Err (SnapshotInvalid ''is truncated'')
       else Ok (map (of_raw l) (chunks_exact (size_of l) (unat count) (take size (drop offset bytes))), offset + size))"

definition parse_snapshot ::
  "ccd_path layout \<Rightarrow> ccd_mode layout \<Rightarrow> u64 \<Rightarrow> byte list \<Rightarrow> ccd_error + display_config" where
  "parse_snapshot pl ml boot bytes =
     (if length bytes < 28 \<or> take 8 bytes \<noteq> SNAPSHOT_MAGIC then Err (SnapshotInvalid ''has an invalid magic value'')
      else and_then (read_snapshot_u32 bytes 8) (\<lambda>(version, offset).
        if version \<noteq> SNAPSHOT_VERSION
        then Err (SnapshotInvalid (''version '' @ decimal (unat version) @ '' is unsupported''))
        else and_then (read_snapshot_u32 bytes offset) (\<lambda>(path_size, offset).
             and_then (read_snapshot_u32 bytes offset) (\<lambda>(mode_size, offset).
        if unat path_size \<noteq> size_of pl \<or> unat mode_size \<noteq> size_of ml
        then Err (SnapshotInvalid (''struct sizes do not match (path '' @ decimal (unat path_size)
               @ '', mode '' @ decimal (unat mode_size) @ '')''))
        else and_then (read_snapshot_u64 bytes offset) (\<lambda>(boot_session, offset).
        if boot_session \<noteq> boot
        then Err (SnapshotInvalid (''belongs to boot session '' @ decimal (unat boot_session)
               @ '', current session is '' @ decimal (unat boot)))
        else and_then (read_snapshot_vec pl bytes offset) (\<lambda>(paths, offset).
             and_then (read_snapshot_vec ml bytes offset) (\<lambda>(modes, offset).
        if offset \<noteq> length bytes then Err (SnapshotInvalid ''contains trailing data'')
        else Ok \<lparr>dc_paths = paths, dc_modes = modes\<rparr>)))))))"

text \<open>The identifier of a boot session: seconds since the epoch at a moment, less the seconds of uptime.
  Both arguments are milliseconds.\<close>

definition boot_session_id :: "nat \<Rightarrow> nat \<Rightarrow> u64" where
  "boot_session_id now_ms uptime_ms = of_nat (now_ms div 1000 - uptime_ms div 1000)"

text \<open>The file operations: the answers of the file system, and the file, absent or with its bytes.\<close>

record write_answers =
  wa_mkdir :: "io_error option"
  wa_write :: "io_error option"
  wa_rename :: "io_error option"

definition write_snapshot ::
  "ccd_path layout \<Rightarrow> ccd_mode layout \<Rightarrow> u64 \<Rightarrow> write_answers \<Rightarrow> display_config \<Rightarrow> byte list option
     \<Rightarrow> (ccd_error + unit) \<times> byte list option" where
  "write_snapshot pl ml boot wa config file =
     (case wa_mkdir wa of
        Some e \<Rightarrow> (Err (SnapshotIo ''create privacy snapshot directory'' e), file)
      | None \<Rightarrow>
     (case wa_write wa of
        Some e \<Rightarrow> (Err (SnapshotIo ''write privacy topology snapshot'' e), file)
      | None \<Rightarrow>
     (case wa_rename wa of
        Some e \<Rightarrow> (Err (SnapshotIo ''commit privacy topology snapshot'' e), file)
      | None \<Rightarrow> (Ok (), Some (snapshot_bytes pl ml boot config)))))"

definition NOT_FOUND :: io_error where "NOT_FOUND = OtherIo 2"

definition read_snapshot ::
  "ccd_path layout \<Rightarrow> ccd_mode layout \<Rightarrow> u64 \<Rightarrow> io_error option \<Rightarrow> byte list option \<Rightarrow> ccd_error + display_config" where
  "read_snapshot pl ml boot fails file =
     (case (fails, file) of
        (Some e, _) \<Rightarrow> Err (SnapshotIo ''read privacy topology snapshot'' e)
      | (None, None) \<Rightarrow> Err (SnapshotIo ''read privacy topology snapshot'' NOT_FOUND)
      | (None, Some bytes) \<Rightarrow> parse_snapshot pl ml boot bytes)"

section \<open>Round trip\<close>

lemma length_le [simp]: "length (u32_le w) = 4" "length (u64_le v) = 8"
  by (simp_all add: u32_le_def u64_le_def)

lemma length_magic [simp]: "length SNAPSHOT_MAGIC = 8"
  by (simp add: SNAPSHOT_MAGIC_def)

lemma read_snapshot_u32_at [simp]:
  "length pre = offset \<Longrightarrow> read_snapshot_u32 (pre @ u32_le w @ rest) offset = Ok (w, offset + 4)"
  by (simp add: read_snapshot_u32_def)

lemma read_snapshot_u64_at [simp]:
  "length pre = offset \<Longrightarrow> read_snapshot_u64 (pre @ u64_le w @ rest) offset = Ok (w, offset + 8)"
  by (simp add: read_snapshot_u64_def)

lemma stored_chunks:
  "list_all (\<lambda>x. length (to_raw l x) = size_of l \<and> of_raw l (to_raw l x) = x) xs \<Longrightarrow>
     length (concat (map (to_raw l) xs)) = size_of l * length xs
     \<and> map (of_raw l) (chunks_exact (size_of l) (length xs) (concat (map (to_raw l) xs))) = xs"
  by (induction xs) auto

lemma read_snapshot_vec_at:
  assumes "stored l xs" "length pre = offset" "offset < 2 ^ 63"
  shows "read_snapshot_vec l (pre @ append_snapshot_vec l xs @ rest) offset
    = Ok (xs, offset + length (append_snapshot_vec l xs))"
proof -
  have n: "unat (word_of_nat (length xs) :: u32) = length xs"
    using assms(1) by (simp add: stored_def unat_of_nat)
  have c: "length (concat (map (to_raw l) xs)) = size_of l * length xs"
    "map (of_raw l) (chunks_exact (size_of l) (length xs) (concat (map (to_raw l) xs))) = xs"
    using stored_chunks [of l xs] assms(1) by (simp_all add: stored_def)
  have "size_of l * length xs < 2 ^ 16 * 2 ^ 32"
    using assms(1) unfolding stored_def by (intro mult_strict_mono) simp_all
  then have "offset + 4 + size_of l * length xs < 2 ^ 64" using assms(3) by simp
  with assms(2) n c read_snapshot_u32_at [of pre offset "word_of_nat (length xs)" "concat (map (to_raw l) xs) @ rest"]
  show ?thesis
    by (simp add: read_snapshot_vec_def append_snapshot_vec_def Let_def)
qed

lemma length_snapshot_vec:
  "stored l xs \<Longrightarrow> length (append_snapshot_vec l xs) < 2 ^ 49"
proof -
  assume s: "stored l xs"
  then have "size_of l * length xs < 2 ^ 16 * 2 ^ 32"
    unfolding stored_def by (intro mult_strict_mono) simp_all
  with s stored_chunks [of l xs] show ?thesis by (simp add: append_snapshot_vec_def stored_def)
qed

lemma parse_snapshot_bytes:
  assumes s: "stored pl (dc_paths config)" "stored ml (dc_modes config)"
  shows "parse_snapshot pl ml boot' (snapshot_bytes pl ml boot config) =
    (if boot' = boot then Ok config
     else Err (SnapshotInvalid (''belongs to boot session '' @ decimal (unat boot) @ '', current session is '' @ decimal (unat boot'))))"
proof -
  let ?P = "append_snapshot_vec pl (dc_paths config)" and ?M = "append_snapshot_vec ml (dc_modes config)"
  let ?ps = "word_of_nat (size_of pl) :: u32" and ?ms = "word_of_nat (size_of ml) :: u32"
  define b where "b = snapshot_bytes pl ml boot config"
  note parts = b_def snapshot_bytes_def
  have sizes: "unat ?ps = size_of pl" "unat ?ms = size_of ml"
    using s by (simp_all add: stored_def unat_of_nat)
  have magic: "take 8 b = SNAPSHOT_MAGIC" "28 \<le> length b" by (simp_all add: parts)
  have 1: "read_snapshot_u32 b 8 = Ok (SNAPSHOT_VERSION, 12)"
    using read_snapshot_u32_at [of SNAPSHOT_MAGIC 8 SNAPSHOT_VERSION] by (simp add: parts)
  have 2: "read_snapshot_u32 b 12 = Ok (?ps, 16)"
    using read_snapshot_u32_at [of "SNAPSHOT_MAGIC @ u32_le SNAPSHOT_VERSION" 12 ?ps] by (simp add: parts)
  have 3: "read_snapshot_u32 b 16 = Ok (?ms, 20)"
    using read_snapshot_u32_at [of "SNAPSHOT_MAGIC @ u32_le SNAPSHOT_VERSION @ u32_le ?ps" 16 ?ms] by (simp add: parts)
  have 4: "read_snapshot_u64 b 20 = Ok (boot, 28)"
    using read_snapshot_u64_at [of "SNAPSHOT_MAGIC @ u32_le SNAPSHOT_VERSION @ u32_le ?ps @ u32_le ?ms" 20 boot] by (simp add: parts)
  let ?H = "SNAPSHOT_MAGIC @ u32_le SNAPSHOT_VERSION @ u32_le ?ps @ u32_le ?ms @ u64_le boot"
  have 5: "read_snapshot_vec pl b 28 = Ok (dc_paths config, 28 + length ?P)"
    using read_snapshot_vec_at [OF s(1), of ?H 28 ?M] by (simp add: parts)
  have 6: "read_snapshot_vec ml b (28 + length ?P) = Ok (dc_modes config, length b)"
    using read_snapshot_vec_at [OF s(2), of "?H @ ?P" "28 + length ?P" "[]"] length_snapshot_vec [OF s(1)]
    by (simp add: parts)
  show ?thesis
    unfolding b_def [symmetric] parse_snapshot_def
    using magic sizes by (simp add: 1 2 3 4 5 6)
qed

text \<open>A reader that succeeds does not look past its value.\<close>

lemma read_snapshot_u32_extend: "read_snapshot_u32 a offset = Ok r \<Longrightarrow> read_snapshot_u32 (a @ x) offset = Ok r"
  by (auto simp: read_snapshot_u32_def split: if_splits)

lemma read_snapshot_u64_extend: "read_snapshot_u64 a offset = Ok r \<Longrightarrow> read_snapshot_u64 (a @ x) offset = Ok r"
  by (auto simp: read_snapshot_u64_def split: if_splits)

lemma read_snapshot_vec_extend:
  assumes "read_snapshot_vec l a offset = Ok r"
  shows "read_snapshot_vec l (a @ x) offset = Ok r"
proof -
  obtain count b where u: "read_snapshot_u32 a offset = Ok (count, b)"
    using assms by (auto simp: read_snapshot_vec_def)
  show ?thesis
    using assms unfolding read_snapshot_vec_def u read_snapshot_u32_extend [OF u] and_then.simps prod.case
    by (simp add: Let_def split: if_splits)
qed

lemma parse_snapshot_extend:
  assumes "parse_snapshot pl ml boot a = Ok config" "x \<noteq> []"
  shows "parse_snapshot pl ml boot (a @ x) = Err (SnapshotInvalid ''contains trailing data'')"
  using assms unfolding parse_snapshot_def
  by (auto split: if_splits dest!: read_snapshot_u32_extend [of a _ _ x] read_snapshot_u64_extend [of a _ _ x]
      read_snapshot_vec_extend [of _ a _ _ x])

text \<open>C19: A saved topology is read back exactly, by the boot session that wrote it and no other; no
  shortened file is accepted as a topology, and a lengthened one is refused for its trailing data.\<close>

theorem snapshot_round_trip:
  assumes "stored pl (dc_paths config)" "stored ml (dc_modes config)"
    and "file = snapshot_bytes pl ml boot config"
  shows "parse_snapshot pl ml boot file = Ok config
    \<and> (boot' \<noteq> boot \<longrightarrow> parse_snapshot pl ml boot' file =
         Err (SnapshotInvalid (''belongs to boot session '' @ decimal (unat boot) @ '', current session is '' @ decimal (unat boot'))))
    \<and> (n < length file \<longrightarrow> \<not> is_ok (parse_snapshot pl ml boot' (take n file)))
    \<and> (extra \<noteq> [] \<longrightarrow> parse_snapshot pl ml boot (file @ extra) = Err (SnapshotInvalid ''contains trailing data''))"
proof (intro conjI impI)
  note parsed = parse_snapshot_bytes [OF assms(1,2), of _ boot, folded assms(3)]
  show ok: "parse_snapshot pl ml boot file = Ok config" by (simp add: parsed)
  show "boot' \<noteq> boot \<Longrightarrow> parse_snapshot pl ml boot' file =
         Err (SnapshotInvalid (''belongs to boot session '' @ decimal (unat boot) @ '', current session is '' @ decimal (unat boot')))"
    by (simp add: parsed)
  show "extra \<noteq> [] \<Longrightarrow> parse_snapshot pl ml boot (file @ extra) = Err (SnapshotInvalid ''contains trailing data'')"
    by (rule parse_snapshot_extend [OF ok])
  show "\<not> is_ok (parse_snapshot pl ml boot' (take n file))" if "n < length file"
  proof
    assume "is_ok (parse_snapshot pl ml boot' (take n file))"
    then obtain c where "parse_snapshot pl ml boot' (take n file) = Ok c" by (auto simp: is_ok_iff)
    with parse_snapshot_extend [of pl ml boot' "take n file" c "drop n file"] that
    have "parse_snapshot pl ml boot' file = Err (SnapshotInvalid ''contains trailing data'')" by simp
    then show False by (simp add: parsed split: if_splits)
  qed
qed

text \<open>Two paths, stored by their source number.\<close>

definition example_path :: "u32 \<Rightarrow> u32 \<Rightarrow> ccd_path" where
  "example_path flags source =
     \<lparr>pi_flags = flags, si_adapter = \<lparr>low_part = 7, high_part = 0\<rparr>, si_id = source, si_mode = 0,
      ti_adapter = \<lparr>low_part = 7, high_part = 0\<rparr>, ti_id = source, ti_mode = 0, ti_refresh = (60, 1),
      ti_available = True, pi_rest = []\<rparr>"

definition example_path_layout :: "ccd_path layout" where
  "example_path_layout = \<lparr>size_of = 4, to_raw = (\<lambda>p. u32_le (si_id p)), of_raw = (\<lambda>bs. example_path 1 (u32_of_le bs))\<rparr>"

definition example_mode_layout :: "ccd_mode layout" where
  "example_mode_layout = \<lparr>size_of = 1, to_raw = (\<lambda>m. [0]), of_raw = (\<lambda>bs. undefined)\<rparr>"

definition example_topology :: display_config where
  "example_topology = \<lparr>dc_paths = [example_path 1 5, example_path 1 9], dc_modes = []\<rparr>"

lemma example_stored:
  "stored example_path_layout (dc_paths example_topology)" "stored example_mode_layout (dc_modes example_topology)"
  by (simp_all add: stored_def example_path_layout_def example_topology_def example_mode_layout_def example_path_def)

theorem snapshot_round_trip_witness:
  "let file = snapshot_bytes example_path_layout example_mode_layout 90 example_topology
   in parse_snapshot example_path_layout example_mode_layout 90 file = Ok example_topology
      \<and> \<not> is_ok (parse_snapshot example_path_layout example_mode_layout 91 file)
      \<and> \<not> is_ok (parse_snapshot example_path_layout example_mode_layout 90 (take 30 file))
      \<and> \<not> is_ok (parse_snapshot example_path_layout example_mode_layout 90 (file @ [0]))"
proof -
  have "30 < length (snapshot_bytes example_path_layout example_mode_layout 90 example_topology)"
    by (simp add: snapshot_bytes_def append_snapshot_vec_def example_topology_def example_path_layout_def)
  with snapshot_round_trip [OF example_stored refl, of 90 91 30 "[0]"] snapshot_round_trip [OF example_stored refl, of 90 90 30 "[0]"]
  show ?thesis by (simp add: Let_def)
qed

end
