(* ===== verification/Ccd_Privacy.thy ===== *)
theory Ccd_Privacy
  imports Ccd_Snapshot "HOL-Library.AList"
begin

text \<open>
  The privacy controller of the Windows agent, \<open>flux-server/src/ccd_display.rs\<close>: while a viewer is
  connected the physical displays are switched off, and the saved topology is restored when the last
  viewer leaves.  Calls to Windows and to the file system are answered by the environment of an
  operation.  The state holds the controller, the snapshot file, the number of requested workstation
  locks, and whether the physical displays may be off: a privacy topology has been handed to Windows
  to apply, and none has been restored since.  Every operation runs under the controller's lock, which
  is not poisoned.
\<close>

section \<open>Calls to Windows\<close>

record query_answer =
  qa_sizes_status :: int
  qa_status :: int
  qa_config :: display_config

record ccd_view =
  cv_query :: "nat \<Rightarrow> query_answer"
  cv_names :: "luid \<Rightarrow> u32 \<Rightarrow> int + string"

definition QUERY_RETRIES :: nat where "QUERY_RETRIES = 4"

definition show_status :: "int \<Rightarrow> string" where
  "show_status i = (if i < 0 then ''-'' @ decimal (nat (- i)) else decimal (nat i))"

fun query_loop :: "(nat \<Rightarrow> query_answer) \<Rightarrow> nat list \<Rightarrow> ccd_error + display_config" where
  "query_loop answers [] = Err (Topology ''CCD query failed: topology changed while querying'')"
| "query_loop answers (k # ks) =
     (if qa_sizes_status (answers k) \<noteq> 0
      then Err (Topology (''CCD query failed (GetDisplayConfigBufferSizes status ''
             @ show_status (qa_sizes_status (answers k)) @ '')''))
      else if qa_status (answers k) = 0 then Ok (qa_config (answers k))
      else if qa_status (answers k) \<noteq> 122
      then Err (Topology (''CCD query failed (QueryDisplayConfig status '' @ show_status (qa_status (answers k)) @ '')''))
      else query_loop answers ks)"

definition query_config :: "ccd_view \<Rightarrow> ccd_error + display_config" where
  "query_config view = query_loop (cv_query view) [0..<QUERY_RETRIES]"

definition source_name :: "ccd_view \<Rightarrow> luid \<Rightarrow> u32 \<Rightarrow> ccd_error + string" where
  "source_name view adapter source =
     (case cv_names view adapter source of
        Inl status \<Rightarrow> Err (Topology (''DisplayConfigGetDeviceInfo source '' @ decimal (unat source)
                        @ '' failed: '' @ show_status status))
      | Inr name \<Rightarrow> Ok name)"

text \<open>Answers of the validating and the applying call.\<close>

definition set_display_config :: "config_op \<Rightarrow> int \<times> int \<Rightarrow> ccd_error + unit" where
  "set_display_config op = (\<lambda>(validate, apply).
     if validate \<noteq> 0 then Err (ValidateRejected op validate)
     else if apply \<noteq> 0 then Err (ApplyFailed op apply) else Ok ())"

definition hex_digit :: "nat \<Rightarrow> char" where
  "hex_digit d = ''0123456789ABCDEF'' ! (d mod 16)"

definition hex16 :: "u64 \<Rightarrow> string" where
  "hex16 w = map (\<lambda>k. hex_digit (unat w div 16 ^ (15 - k))) [0..<16]"

fun matching_paths ::
  "ccd_view \<Rightarrow> string \<Rightarrow> nat \<Rightarrow> ccd_path list \<Rightarrow> ccd_error + (nat \<times> u64) list" where
  "matching_paths view name index [] = Ok []"
| "matching_paths view name index (path # paths) =
     and_then (source_name view (si_adapter path) (si_id path)) (\<lambda>n.
     and_then (matching_paths view name (index + 1) paths) (\<lambda>rest.
       Ok (if n = name then (index, luid_value (si_adapter path)) # rest else rest)))"

definition find_source_path :: "ccd_view \<Rightarrow> ccd_path list \<Rightarrow> u64 \<Rightarrow> string \<Rightarrow> ccd_error + nat \<times> u64" where
  "find_source_path view paths dxgi_luid name =
     and_then (matching_paths view name 0 paths) (\<lambda>ms.
       case ms of
         [] \<Rightarrow> Err (Topology (''CCD path never appeared for source '' @ name))
       | [m] \<Rightarrow> Ok m
       | _ \<Rightarrow> (case filter (\<lambda>(_, luid). luid = dxgi_luid) ms of
                 [m] \<Rightarrow> Ok m
               | _ \<Rightarrow> Err (Topology (''CCD source '' @ name @ '' is ambiguous across '' @ decimal (length ms)
                        @ '' paths (DXGI adapter LUID 0x'' @ hex16 dxgi_luid @ '')''))))"

definition target_luid :: "display_info \<Rightarrow> ccd_error + u64" where
  "target_luid target =
     (case di_adapter_luid target of
        None \<Rightarrow> Err (Topology (''DXGI output '' @ di_name target @ '' has no adapter LUID''))
      | Some luid \<Rightarrow> Ok luid)"

section \<open>Applying and restoring\<close>

record apply_env =
  ae_before :: ccd_view
  ae_boot :: u64
  ae_write :: write_answers
  ae_set :: "int \<times> int"
  ae_active :: ccd_view
  ae_all :: ccd_view

fun physical_active :: "ccd_view \<Rightarrow> string \<Rightarrow> ccd_path list \<Rightarrow> ccd_error + unit" where
  "physical_active view name [] = Ok ()"
| "physical_active view name (path # paths) =
     (if \<not> path_active path then physical_active view name paths
      else and_then (source_name view (si_adapter path) (si_id path)) (\<lambda>n.
             if n \<noteq> name then Err (VerifyMismatch Privacy ''a physical source remains active'')
             else physical_active view name paths))"

definition verify_privacy :: "apply_env \<Rightarrow> display_info \<Rightarrow> u64 \<Rightarrow> ccd_error + unit" where
  "verify_privacy env target luid =
     and_then (query_config (ae_active env)) (\<lambda>active.
     and_then (find_source_path (ae_active env) (dc_paths active) luid (di_name target)) (\<lambda>(index, _).
       if \<not> path_active (dc_paths active ! index)
       then Err (VerifyMismatch Privacy ''virtual path is inactive'')
       else and_then (query_config (ae_all env)) (\<lambda>all.
              physical_active (ae_all env) (di_name target) (dc_paths all))))"

definition only_active :: "nat \<Rightarrow> display_config \<Rightarrow> display_config" where
  "only_active index config =
     config\<lparr>dc_paths := map (\<lambda>(k, path).
       path\<lparr>pi_flags := if k = index then pi_flags path OR DISPLAYCONFIG_PATH_ACTIVE
                        else pi_flags path AND NOT DISPLAYCONFIG_PATH_ACTIVE\<rparr>) (enumerate 0 (dc_paths config))\<rparr>"

text \<open>The result, the file, and the topology handed to Windows to apply, if it came to that.\<close>

definition apply_privacy ::
  "ccd_path layout \<Rightarrow> ccd_mode layout \<Rightarrow> apply_env \<Rightarrow> display_info \<Rightarrow> byte list option
     \<Rightarrow> (ccd_error + unit) \<times> byte list option \<times> display_config option" where
  "apply_privacy pl ml env target file =
     (case and_then (query_config (ae_before env)) (\<lambda>config.
           and_then (target_luid target) (\<lambda>luid.
           and_then (find_source_path (ae_before env) (dc_paths config) luid (di_name target)) (\<lambda>(index, _).
             Ok (config, luid, index)))) of
        Inl e \<Rightarrow> (Err e, file, None)
      | Inr (config, luid, index) \<Rightarrow>
          (case write_snapshot pl ml (ae_boot env) (ae_write env) config file of
             (Inl e, file) \<Rightarrow> (Err e, file, None)
           | (Inr _, file) \<Rightarrow>
               (and_then (set_display_config Privacy (ae_set env)) (\<lambda>_. verify_privacy env target luid), file,
                if fst (ae_set env) = 0 then Some (only_active index config) else None)))"

record restore_env =
  rv_read :: "io_error option"
  rv_boot :: u64
  rv_set :: "int \<times> int"
  rv_active :: ccd_view
  rv_remove :: "io_error option"

definition same_route :: "ccd_path \<Rightarrow> ccd_path \<Rightarrow> bool" where
  "same_route actual expected \<longleftrightarrow> path_active actual
     \<and> si_adapter actual = si_adapter expected \<and> si_id actual = si_id expected
     \<and> ti_adapter actual = ti_adapter expected \<and> ti_id actual = ti_id expected"

text \<open>The result, the file, and whether the saved topology was applied.\<close>

definition restore_snapshot ::
  "ccd_path layout \<Rightarrow> ccd_mode layout \<Rightarrow> restore_env \<Rightarrow> byte list option
     \<Rightarrow> (ccd_error + unit) \<times> byte list option \<times> bool" where
  "restore_snapshot pl ml env file =
     (case and_then (read_snapshot pl ml (rv_boot env) (rv_read env) file) (\<lambda>config.
           and_then (set_display_config Restore (rv_set env)) (\<lambda>_. Ok config)) of
        Inl e \<Rightarrow> (Err e, file, False)
      | Inr config \<Rightarrow>
          (case query_config (rv_active env) of
             Inl e \<Rightarrow> (Err e, file, True)
           | Inr active \<Rightarrow>
               if list_all (\<lambda>expected. path_active expected \<longrightarrow>
                    list_ex (\<lambda>actual. same_route actual expected) (dc_paths active)) (dc_paths config)
               then (case rv_remove env of
                       None \<Rightarrow> (Ok (), None, True)
                     | Some e \<Rightarrow> (Err (SnapshotIo ''remove privacy topology snapshot'' e), file, True))
               else (Err (VerifyMismatch Restore ''a saved active path is missing''), file, True)))"

section \<open>The controller\<close>

record privacy_state =
  pv_target :: display_info
  pv_lock_on_disconnect :: bool
  pv_applied :: bool
  pv_next :: u64
  pv_connections :: "(u64 \<times> u32) list"
  pv_file :: "byte list option"
  pv_locks :: nat
  pv_dark :: bool

record privacy_env =
  pe_apply :: apply_env
  pe_remove :: "io_error option"
  pe_restore :: restore_env
  pe_lock :: "int option"

definition privacy_new :: "display_info \<Rightarrow> bool \<Rightarrow> byte list option \<Rightarrow> privacy_state" where
  "privacy_new target lock file =
     \<lparr>pv_target = target, pv_lock_on_disconnect = lock, pv_applied = False, pv_next = 1,
      pv_connections = [], pv_file = file, pv_locks = 0, pv_dark = False\<rparr>"

definition viewed :: "privacy_state \<Rightarrow> bool" where
  "viewed s = list_ex (\<lambda>(_, viewers). viewers > 0) (pv_connections s)"

definition set_viewers :: "u64 \<Rightarrow> u32 \<Rightarrow> privacy_state \<Rightarrow> privacy_state" where
  "set_viewers token count s = s\<lparr>pv_connections := AList.update token count (pv_connections s)\<rparr>"

definition privacy_connection :: "privacy_state \<Rightarrow> u64 \<times> privacy_state" where
  "privacy_connection s =
     (pv_next s, set_viewers (pv_next s) 0 (s\<lparr>pv_next := max (pv_next s + 1) 1\<rparr>))"

definition restore_saved ::
  "ccd_path layout \<Rightarrow> ccd_mode layout \<Rightarrow> restore_env \<Rightarrow> privacy_state \<Rightarrow> (ccd_error + unit) \<times> privacy_state" where
  "restore_saved pl ml env s =
     (case restore_snapshot pl ml env (pv_file s) of
        (r, file, restored) \<Rightarrow>
          (r, s\<lparr>pv_file := file, pv_dark := pv_dark s \<and> \<not> restored,
                pv_applied := pv_applied s \<and> \<not> is_ok r\<rparr>))"

definition restore_and_lock ::
  "ccd_path layout \<Rightarrow> ccd_mode layout \<Rightarrow> privacy_env \<Rightarrow> privacy_state \<Rightarrow> (ccd_error + unit) \<times> privacy_state" where
  "restore_and_lock pl ml env s =
     (case restore_saved pl ml (pe_restore env) s of
        (Inl e, s) \<Rightarrow> (Err e, s)
      | (Inr _, s) \<Rightarrow>
          if pv_lock_on_disconnect s
          then (case pe_lock env of
                  None \<Rightarrow> (Ok (), s\<lparr>pv_locks := pv_locks s + 1\<rparr>)
                | Some e \<Rightarrow> (Err (LockWorkstation e), s))
          else (Ok (), s))"

definition update_connection ::
  "ccd_path layout \<Rightarrow> ccd_mode layout \<Rightarrow> privacy_env \<Rightarrow> u64 \<Rightarrow> u32 \<Rightarrow> privacy_state
     \<Rightarrow> (ccd_error + unit) \<times> privacy_state" where
  "update_connection pl ml env token count s0 =
     (let s = set_viewers token count s0 in
      if \<not> viewed s0 \<and> viewed s \<and> \<not> pv_applied s
      then (case apply_privacy pl ml (pe_apply env) (pv_target s) (pv_file s) of
              (r, file, handed) \<Rightarrow>
                let s = s\<lparr>pv_file := file, pv_dark := pv_dark s \<or> handed \<noteq> None\<rparr> in
                case r of
                  Inl (ValidateRejected Privacy status) \<Rightarrow>
                    (r, set_viewers token 0 (s\<lparr>pv_applied := False,
                          pv_file := if pe_remove env = None then None else pv_file s\<rparr>))
                | Inl e \<Rightarrow>
                    if pv_file s \<noteq> None then (r, s\<lparr>pv_applied := True\<rparr>) else (r, set_viewers token 0 s)
                | Inr _ \<Rightarrow> (Ok (), s\<lparr>pv_applied := True\<rparr>))
      else if viewed s0 \<and> \<not> viewed s \<and> pv_applied s then restore_and_lock pl ml env s
      else (Ok (), s))"

definition privacy_disconnect ::
  "ccd_path layout \<Rightarrow> ccd_mode layout \<Rightarrow> privacy_env \<Rightarrow> u64 \<Rightarrow> privacy_state \<Rightarrow> (ccd_error + unit) \<times> privacy_state" where
  "privacy_disconnect pl ml env token s0 =
     (let s = s0\<lparr>pv_connections := AList.delete token (pv_connections s0)\<rparr> in
      if viewed s0 \<and> \<not> viewed s \<and> pv_applied s then restore_and_lock pl ml env s else (Ok (), s))"

definition privacy_restore ::
  "ccd_path layout \<Rightarrow> ccd_mode layout \<Rightarrow> privacy_env \<Rightarrow> privacy_state \<Rightarrow> (ccd_error + unit) \<times> privacy_state" where
  "privacy_restore pl ml env s =
     (if \<not> pv_applied s \<and> pv_file s = None then (Ok (), s)
      else (case restore_saved pl ml (pe_restore env) s of
              (Inl e, s) \<Rightarrow> (Err e, s)
            | (Inr _, s) \<Rightarrow> (Ok (), s\<lparr>pv_connections := []\<rparr>)))"

definition privacy_drop ::
  "ccd_path layout \<Rightarrow> ccd_mode layout \<Rightarrow> privacy_env \<Rightarrow> privacy_state \<Rightarrow> privacy_state" where
  "privacy_drop pl ml env s =
     (if pv_applied s \<or> pv_file s \<noteq> None then snd (restore_saved pl ml (pe_restore env) s) else s)"

definition recover_snapshot ::
  "ccd_path layout \<Rightarrow> ccd_mode layout \<Rightarrow> restore_env \<Rightarrow> io_error option \<Rightarrow> byte list option \<Rightarrow> byte list option" where
  "recover_snapshot pl ml env discard file =
     (if file = None then None
      else case restore_snapshot pl ml env file of
             (Inr _, file, _) \<Rightarrow> file
           | (Inl e, file, _) \<Rightarrow> if discard = None then None else file)"

datatype privacy_op = Connect | Update u64 u32 | Disconnect u64 | RestoreNow

fun privacy_step ::
  "ccd_path layout \<Rightarrow> ccd_mode layout \<Rightarrow> privacy_op \<times> privacy_env \<Rightarrow> privacy_state
     \<Rightarrow> (ccd_error + unit) \<times> privacy_state" where
  "privacy_step pl ml (Connect, env) s = (Ok (), snd (privacy_connection s))"
| "privacy_step pl ml (Update token count, env) s = update_connection pl ml env token count s"
| "privacy_step pl ml (Disconnect token, env) s = privacy_disconnect pl ml env token s"
| "privacy_step pl ml (RestoreNow, env) s = privacy_restore pl ml env s"

section \<open>The way back is never lost\<close>

definition not_rejected :: "ccd_error + 'a \<Rightarrow> bool" where
  "not_rejected r \<longleftrightarrow> (\<forall>op status. r \<noteq> Err (ValidateRejected op status))"

lemma not_rejected_and_then:
  "not_rejected m \<Longrightarrow> (\<And>a. not_rejected (f a)) \<Longrightarrow> not_rejected (and_then m f)"
  by (cases m) (auto simp: not_rejected_def)

lemma query_not_rejected: "not_rejected (query_config view)"
proof -
  have "not_rejected (query_loop answers ks)" for answers ks
    by (induction ks) (auto simp: not_rejected_def)
  then show ?thesis by (simp add: query_config_def)
qed

lemma source_name_not_rejected: "not_rejected (source_name view a i)"
  by (auto simp: not_rejected_def source_name_def split: sum.splits)

lemma matching_not_rejected: "not_rejected (matching_paths view n k paths)"
  by (induction paths arbitrary: k)
    (auto intro!: not_rejected_and_then source_name_not_rejected simp: not_rejected_def [of "Ok _"])

lemma find_not_rejected: "not_rejected (find_source_path view paths l n)"
  unfolding find_source_path_def
  by (rule not_rejected_and_then [OF matching_not_rejected])
    (auto simp: not_rejected_def split: list.splits)

lemma physical_not_rejected: "not_rejected (physical_active view n paths)"
proof (induction paths)
  case (Cons path paths)
  then show ?case
    by (auto intro!: not_rejected_and_then [OF source_name_not_rejected] simp: not_rejected_def [of "Err _"])
qed (simp add: not_rejected_def)

lemma verify_not_rejected: "not_rejected (verify_privacy env target l)"
  unfolding verify_privacy_def
  by (rule not_rejected_and_then [OF query_not_rejected], rule not_rejected_and_then [OF find_not_rejected])
    (auto intro!: not_rejected_and_then query_not_rejected physical_not_rejected simp: not_rejected_def [of "Err _"])

lemma apply_privacy_handed:
  assumes "apply_privacy pl ml env target file = (r, file', Some config)"
  shows "file' \<noteq> None \<and> not_rejected r"
proof -
  have "write_snapshot pl ml b wa c file = (Inr u, f) \<Longrightarrow> f \<noteq> None" for b wa c u f
    by (auto simp: write_snapshot_def split: option.splits)
  with assms verify_not_rejected show ?thesis
    unfolding apply_privacy_def
    by (auto split: sum.splits prod.splits if_splits simp: set_display_config_def not_rejected_def)
qed

lemma apply_privacy_ok:
  assumes "apply_privacy pl ml env target file = (Inr u, file', handed)"
  shows "file' \<noteq> None"
proof -
  have "write_snapshot pl ml b wa c file = (Inr u, f) \<Longrightarrow> f \<noteq> None" for b wa c u f
    by (auto simp: write_snapshot_def split: option.splits)
  with assms show ?thesis
    unfolding apply_privacy_def by (auto split: sum.splits prod.splits)
qed

lemma restore_snapshot_result:
  assumes "restore_snapshot pl ml env file = (r, file', restored)"
  shows "if is_ok r then file' = None \<and> restored else file' = file"
  using assms unfolding restore_snapshot_def
  by (auto simp: is_ok_iff split: sum.splits if_splits option.splits)

lemma viewed_set_viewers_0: "viewed (set_viewers token 0 s) \<Longrightarrow> viewed s"
proof -
  have "list_ex (\<lambda>(_, v). v > (0 :: u32)) (AList.update token 0 xs) \<Longrightarrow> list_ex (\<lambda>(_, v). v > 0) xs" for xs
    by (induction xs) (auto split: if_splits)
  then show "viewed (set_viewers token 0 s) \<Longrightarrow> viewed s" by (simp add: viewed_def set_viewers_def)
qed

lemma set_viewers_again: "pv_connections (set_viewers t a s) = pv_connections (set_viewers t a s')"
  if "pv_connections s = AList.update t b (pv_connections s')"
  using that by (simp add: set_viewers_def)

lemma viewed_cong: "pv_connections s = pv_connections s' \<Longrightarrow> viewed s = viewed s'"
  by (simp add: viewed_def)

definition privacy_ok :: "privacy_state \<Rightarrow> bool" where
  "privacy_ok s \<longleftrightarrow> (viewed s \<longrightarrow> pv_applied s) \<and> (pv_dark s \<longrightarrow> pv_applied s) \<and> (pv_applied s \<longrightarrow> pv_file s \<noteq> None)"

lemma restore_saved_result:
  assumes "restore_saved pl ml env s = (r, s')" "privacy_ok s"
  shows "pv_connections s' = pv_connections s \<and> pv_lock_on_disconnect s' = pv_lock_on_disconnect s \<and> pv_locks s' = pv_locks s
    \<and> (if is_ok r then \<not> pv_applied s' \<and> \<not> pv_dark s' \<and> pv_file s' = None
       else pv_applied s' = pv_applied s \<and> (pv_dark s' \<longrightarrow> pv_dark s) \<and> pv_file s' = pv_file s)"
  using assms restore_snapshot_result unfolding restore_saved_def
  by (auto split: prod.splits) (fastforce split: if_splits)+

lemma restore_and_lock_result:
  assumes "restore_and_lock pl ml env s = (r, s')" "privacy_ok s" "\<not> viewed s"
  shows "privacy_ok s'
    \<and> (is_ok r \<longrightarrow> \<not> pv_applied s' \<and> \<not> pv_dark s' \<and> pv_file s' = None
         \<and> pv_locks s' = pv_locks s + of_bool (pv_lock_on_disconnect s))"
proof -
  obtain r1 s1 where r1: "restore_saved pl ml (pe_restore env) s = (r1, s1)" by fastforce
  note res = restore_saved_result [OF r1 assms(2)]
  have "\<not> viewed s1" using res assms(3) viewed_cong by metis
  moreover have "\<not> viewed (s1\<lparr>pv_locks := n\<rparr>)" for n using calculation by (simp add: viewed_def)
  ultimately show ?thesis
    using res assms unfolding restore_and_lock_def r1
    by (cases r1) (auto simp: privacy_ok_def split: if_splits option.splits)
qed

lemma update_connection_ok:
  assumes ok: "privacy_ok s0" and step: "update_connection pl ml env token count s0 = (r, s')"
  shows "privacy_ok s' \<and> (viewed s0 \<and> \<not> viewed s' \<and> is_ok r \<longrightarrow> \<not> pv_applied s' \<and> \<not> pv_dark s' \<and> pv_file s' = None
      \<and> pv_locks s' = pv_locks s0 + of_bool (pv_lock_on_disconnect s0))"
proof -
  define s where "s = set_viewers token count s0"
  have same: "pv_applied s = pv_applied s0" "pv_dark s = pv_dark s0" "pv_file s = pv_file s0"
    "pv_locks s = pv_locks s0" "pv_lock_on_disconnect s = pv_lock_on_disconnect s0"
    by (simp_all add: s_def set_viewers_def)
  consider (switch_off) "\<not> viewed s0" "viewed s" "\<not> pv_applied s" | (restore) "viewed s0" "\<not> viewed s" "pv_applied s"
    | (keep) "\<not> (\<not> viewed s0 \<and> viewed s \<and> \<not> pv_applied s)" "\<not> (viewed s0 \<and> \<not> viewed s \<and> pv_applied s)"
    by blast
  then show ?thesis
  proof cases
    case switch_off
    obtain r1 f handed where a: "apply_privacy pl ml (pe_apply env) (pv_target s) (pv_file s) = (r1, f, handed)"
      by (cases "apply_privacy pl ml (pe_apply env) (pv_target s) (pv_file s)")
    have dark: "\<not> pv_dark s" using ok switch_off same by (simp add: privacy_ok_def)
    have unviewed: "privacy_ok (set_viewers token 0 x)"
      if "pv_connections x = pv_connections s" "\<not> pv_applied x" "\<not> pv_dark x" for x
    proof -
      have "viewed (set_viewers token 0 x) = viewed (set_viewers token 0 s0)"
        by (rule viewed_cong) (use that(1) in \<open>simp add: s_def set_viewers_def\<close>)
      with switch_off(1) viewed_set_viewers_0 [of token s0] have "\<not> viewed (set_viewers token 0 x)" by blast
      moreover have "\<not> pv_applied (set_viewers token 0 x)" "\<not> pv_dark (set_viewers token 0 x)"
        using that(2,3) by (simp_all add: set_viewers_def)
      ultimately show ?thesis by (simp add: privacy_ok_def)
    qed
    define s1 where "s1 = s\<lparr>pv_file := f, pv_dark := pv_dark s \<or> handed \<noteq> None\<rparr>"
    have result: "(r, s') = (case r1 of
          Inl (ValidateRejected Privacy status) \<Rightarrow>
            (r1, set_viewers token 0 (s1\<lparr>pv_applied := False, pv_file := if pe_remove env = None then None else pv_file s1\<rparr>))
        | Inl e \<Rightarrow> if pv_file s1 \<noteq> None then (r1, s1\<lparr>pv_applied := True\<rparr>) else (r1, set_viewers token 0 s1)
        | Inr _ \<Rightarrow> (Ok (), s1\<lparr>pv_applied := True\<rparr>))"
      using step switch_off a unfolding update_connection_def s_def [symmetric] Let_def s1_def by simp
    have written: "handed \<noteq> None \<Longrightarrow> f \<noteq> None" "is_ok r1 \<Longrightarrow> f \<noteq> None"
      and rejected: "r1 = Err (ValidateRejected op status) \<Longrightarrow> handed = None" for op status
      using apply_privacy_handed [of pl ml "pe_apply env" "pv_target s" "pv_file s" r1 f]
        apply_privacy_ok [of pl ml "pe_apply env" "pv_target s" "pv_file s" _ f handed] a
      by (cases handed; auto simp: not_rejected_def is_ok_iff)+
    have on: "f \<noteq> None \<Longrightarrow> privacy_ok (s1\<lparr>pv_applied := True\<rparr>)" by (simp add: privacy_ok_def s1_def)
    have off: "handed = None \<Longrightarrow> privacy_ok (set_viewers token 0 (s1\<lparr>pv_applied := False, pv_file := g\<rparr>))"
      "handed = None \<Longrightarrow> privacy_ok (set_viewers token 0 s1)" for g
      by (rule unviewed; use dark switch_off(3) in \<open>simp add: s1_def\<close>)+
    have s1: "pv_file s1 = f" by (simp add: s1_def)
    have "privacy_ok s'"
      using result on off written rejected unfolding s1
      by (cases f; cases handed) (auto split: sum.splits ccd_error.splits config_op.splits)
    with switch_off show ?thesis by simp
  next
    case restore
    moreover have "privacy_ok s" using ok restore same by (simp add: privacy_ok_def)
    ultimately show ?thesis
      using restore_and_lock_result [of pl ml env s r s'] step same unfolding update_connection_def s_def [symmetric]
      by (auto simp: Let_def)
  next
    case keep
    with ok step same show ?thesis
      unfolding update_connection_def s_def [symmetric] by (auto simp: Let_def privacy_ok_def)
  qed
qed

lemma disconnect_ok:
  assumes ok: "privacy_ok s0" and step: "privacy_disconnect pl ml env token s0 = (r, s')"
  shows "privacy_ok s' \<and> (viewed s0 \<and> \<not> viewed s' \<and> is_ok r \<longrightarrow> \<not> pv_applied s' \<and> \<not> pv_dark s' \<and> pv_file s' = None
      \<and> pv_locks s' = pv_locks s0 + of_bool (pv_lock_on_disconnect s0))"
proof -
  define s where "s = s0\<lparr>pv_connections := AList.delete token (pv_connections s0)\<rparr>"
  have v: "viewed s \<Longrightarrow> viewed s0"
    unfolding s_def viewed_def AList.delete_eq list_ex_iff by auto
  have same: "pv_applied s = pv_applied s0" "pv_dark s = pv_dark s0" "pv_file s = pv_file s0"
    "pv_locks s = pv_locks s0" "pv_lock_on_disconnect s = pv_lock_on_disconnect s0"
    by (simp_all add: s_def)
  have ok': "privacy_ok s" using ok v by (auto simp: privacy_ok_def same)
  show ?thesis
  proof (cases "viewed s0 \<and> \<not> viewed s \<and> pv_applied s")
    case True
    with step have "restore_and_lock pl ml env s = (r, s')"
      unfolding privacy_disconnect_def s_def [symmetric] Let_def by simp
    from restore_and_lock_result [OF this ok'] True same show ?thesis by simp
  next
    case False
    with step have "s' = s" unfolding privacy_disconnect_def s_def [symmetric] Let_def by (simp split: if_splits)
    with False ok ok' show ?thesis by (auto simp: privacy_ok_def same)
  qed
qed

lemma privacy_restore_ok:
  assumes ok: "privacy_ok s0" and step: "privacy_restore pl ml env s0 = (r, s')"
  shows "privacy_ok s' \<and> (viewed s0 \<and> \<not> viewed s' \<and> is_ok r \<longrightarrow> \<not> pv_applied s' \<and> \<not> pv_dark s' \<and> pv_file s' = None
      \<and> pv_locks s' = pv_locks s0)"
proof (cases "\<not> pv_applied s0 \<and> pv_file s0 = None")
  case True
  with assms show ?thesis by (auto simp: privacy_restore_def)
next
  case False
  obtain r1 s1 where r1: "restore_saved pl ml (pe_restore env) s0 = (r1, s1)" by fastforce
  have "viewed s1 = viewed s0" using restore_saved_result [OF r1 ok] by (intro viewed_cong) simp
  with restore_saved_result [OF r1 ok] step ok False show ?thesis
    unfolding privacy_restore_def r1
    by (cases r1) (auto simp: privacy_ok_def viewed_def split: if_splits)
qed

interpretation privacy: stepper "privacy_step pl ml" privacy_ok for pl ml
proof unfold_locales
  fix s and oe :: "privacy_op \<times> privacy_env"
  assume ok: "privacy_ok s"
  obtain op env where oe: "oe = (op, env)" by fastforce
  show "privacy_ok (snd (privacy_step pl ml oe s))"
  proof (cases op)
    case Connect
    have "viewed (snd (privacy_connection s)) \<Longrightarrow> viewed s"
      using viewed_set_viewers_0 [of "pv_next s" "s\<lparr>pv_next := max (pv_next s + 1) 1\<rparr>"]
      by (simp add: privacy_connection_def viewed_def)
    with ok Connect oe show ?thesis by (simp add: privacy_ok_def privacy_connection_def) (simp add: set_viewers_def)
  next
    case (Update token count)
    with update_connection_ok [OF ok prod.collapse [symmetric], of pl ml env token count] oe show ?thesis by simp
  next
    case (Disconnect token)
    with disconnect_ok [OF ok prod.collapse [symmetric], of pl ml env token] oe show ?thesis by simp
  next
    case RestoreNow
    with privacy_restore_ok [OF ok prod.collapse [symmetric], of pl ml env] oe show ?thesis by simp
  qed
qed


section \<open>Boot sessions\<close>

text \<open>A machine booted \<open>b\<close> milliseconds after the epoch, \<open>u\<close> milliseconds later.  The two roundings of the
  identifier differ by one in a part of every second.\<close>

lemma boot_session_id_at:
  "boot_session_id (b + u) u = of_nat (b div 1000 + (if 1000 \<le> b mod 1000 + u mod 1000 then 1 else 0))"
proof -
  have "(b + u) div 1000 = b div 1000 + u div 1000 + (b mod 1000 + u mod 1000) div 1000"
    by (rule div_add1_eq)
  moreover have "(b mod 1000 + u mod 1000) div 1000 = (if 1000 \<le> b mod 1000 + u mod 1000 then 1 else 0)"
    using mod_less_divisor [of 1000 b] mod_less_divisor [of 1000 u] by (auto intro: div_nat_eqI)
  ultimately show ?thesis by (simp add: boot_session_id_def)
qed

lemma boot_session_id_changes:
  assumes "0 < b mod 1000" "b < 2 ^ 63"
  shows "\<exists>v. u < v \<and> v \<le> u + 1000 \<and> boot_session_id (b + v) v \<noteq> boot_session_id (b + u) u"
proof -
  define q r t where "q = u div 1000 * 1000" and "r = u mod 1000" and "t = 1000 - b mod 1000"
  have u: "u = q + r" "r < 1000" "q mod 1000 = 0" "0 < t" "t < 1000"
    using assms(1) mod_less_divisor [of 1000 b] by (simp_all add: q_def r_def t_def)
  have neq: "(of_nat (b div 1000 + 1) :: u64) \<noteq> of_nat (b div 1000)"
    by simp
  have id: "boot_session_id (b + v) v = of_nat (b div 1000 + (if t \<le> v mod 1000 then 1 else 0))" for v
    unfolding boot_session_id_at t_def using mod_less_divisor [of 1000 b] by (simp add: le_diff_conv2 le_diff_conv add.commute)
  show ?thesis
  proof (cases "t \<le> r")
    case True
    have m: "(q + 1000) mod 1000 = 0" using u(3) by simp
    have "u < q + 1000" "q + 1000 \<le> u + 1000" using u(1,2) by simp_all
    moreover have "boot_session_id (b + (q + 1000)) (q + 1000) \<noteq> boot_session_id (b + u) u"
      using True u(4) neq unfolding id m r_def [symmetric] by simp
    ultimately show ?thesis by blast
  next
    case False
    have m: "(q + t) mod 1000 = t" using u(3,5) by (simp add: mod_add_left_eq [symmetric])
    have "u < q + t" "q + t \<le> u + 1000" using u(1,5) False by simp_all
    moreover have "boot_session_id (b + (q + t)) (q + t) \<noteq> boot_session_id (b + u) u"
      using False neq unfolding id m r_def [symmetric] by simp
    ultimately show ?thesis by blast
  qed
qed

text \<open>C20: A saved topology can be refused by the machine that saved it, without a reboot: unless the
  machine booted at a whole second, within a second of every save comes a moment at which restoring
  fails before Windows is asked, and the physical displays stay off.\<close>

theorem restore_refused_within_second:
  assumes "stored pl (dc_paths config)" "stored ml (dc_modes config)"
    and "0 < b mod 1000" "b < 2 ^ 63"
    and "saved = Some (snapshot_bytes pl ml (boot_session_id (b + u) u) config)"
  shows "\<exists>v. u < v \<and> v \<le> u + 1000
    \<and> (\<forall>env. rv_boot env = boot_session_id (b + v) v \<longrightarrow>
         (\<exists>e. restore_snapshot pl ml env saved = (Err e, saved, False)))"
proof -
  obtain v where v: "u < v" "v \<le> u + 1000" "boot_session_id (b + v) v \<noteq> boot_session_id (b + u) u"
    using boot_session_id_changes [OF assms(3,4)] by blast
  have "\<exists>e. restore_snapshot pl ml env saved = (Err e, saved, False)" if "rv_boot env = boot_session_id (b + v) v" for env
    using v(3) that parse_snapshot_bytes [OF assms(1,2)] assms(5)
    by (cases "rv_read env") (simp_all add: restore_snapshot_def read_snapshot_def)
  with v show ?thesis by blast
qed

theorem restore_refused_within_second_witness:
  "let saved = Some (snapshot_bytes example_path_layout example_mode_layout (boot_session_id (90500 + 10400) 10400) example_topology)
   in \<exists>v. 10400 < v \<and> v \<le> 11400
      \<and> (\<forall>env. rv_boot env = boot_session_id (90500 + v) v \<longrightarrow>
           (\<exists>e. restore_snapshot example_path_layout example_mode_layout env saved = (Err e, saved, False)))"
  using restore_refused_within_second [OF example_stored, of 90500 _ 10400] by (simp add: Let_def)

end
