(* ===== verification/Ccd_Config.thy ===== *)
theory Ccd_Config
  imports Ccd_Privacy
begin

text \<open>
  Placing the virtual display in the desktop of the Windows agent, \<open>flux-server/src/ccd_display.rs\<close>: a
  temporary topology that extends the desktop by the virtual source at the requested mode, handed to
  Windows and verified by a new query.  The calls to Windows are answered by the environment of an
  attempt.  The product of the pixel rate is a 64-bit one.
\<close>

section \<open>Modes of a path\<close>

definition source_mode_index :: "ccd_path \<Rightarrow> ccd_error + nat" where
  "source_mode_index path =
     (if si_mode path = DISPLAYCONFIG_PATH_MODE_IDX_INVALID then Err (Topology ''CCD path has no source mode'')
      else Ok (unat (si_mode path)))"

definition target_mode_index :: "ccd_path \<Rightarrow> ccd_error + nat" where
  "target_mode_index path =
     (if ti_mode path = DISPLAYCONFIG_PATH_MODE_IDX_INVALID then Err (Topology ''CCD path has no target mode'')
      else Ok (unat (ti_mode path)))"

definition mode_at :: "string \<Rightarrow> ccd_mode list \<Rightarrow> nat \<Rightarrow> ccd_error + ccd_mode" where
  "mode_at what modes index =
     (if index < length modes then Ok (modes ! index)
      else Err (Topology (''CCD '' @ what @ '' mode index '' @ decimal index @ '' is invalid'')))"

definition copy_path_modes ::
  "ccd_path \<Rightarrow> ccd_mode list \<Rightarrow> ccd_mode list \<Rightarrow> ccd_error + ccd_path \<times> ccd_mode list" where
  "copy_path_modes path source_modes modes =
     and_then (source_mode_index path) (\<lambda>source_index.
     and_then (target_mode_index path) (\<lambda>target_index.
     and_then (mode_at ''candidate source'' source_modes source_index) (\<lambda>source.
     and_then (mode_at ''candidate target'' source_modes target_index) (\<lambda>target.
       if mi_type source \<noteq> SourceType \<or> mi_type target \<noteq> TargetType
       then Err (Topology ''CCD candidate path has invalid source/target modes'')
       else Ok (path\<lparr>si_mode := of_nat (length modes), ti_mode := of_nat (length modes + 1)\<rparr>, modes @ [source, target])))))"

definition same_source :: "ccd_path \<Rightarrow> ccd_path \<Rightarrow> bool" where
  "same_source p q \<longleftrightarrow> si_adapter p = si_adapter q \<and> si_id p = si_id q"

definition has_duplicate_active_source :: "ccd_path list \<Rightarrow> nat \<Rightarrow> bool" where
  "has_duplicate_active_source paths index \<longleftrightarrow>
     list_ex (\<lambda>(other, candidate). other \<noteq> index \<and> path_active candidate \<and> same_source candidate (paths ! index))
       (enumerate 0 paths)"

definition saturating_add_i32 :: "int \<Rightarrow> int \<Rightarrow> int" where
  "saturating_add_i32 a b = max (- (2 ^ 31)) (min (2 ^ 31 - 1) (a + b))"

definition right_edge :: "source_mode \<Rightarrow> int" where
  "right_edge m = saturating_add_i32 (sm_x m) (sint (sm_width m))"

fun rightmost_from :: "ccd_mode list \<Rightarrow> nat \<Rightarrow> (nat \<times> ccd_path) list \<Rightarrow> int \<Rightarrow> ccd_error + int" where
  "rightmost_from modes virtual [] rightmost = Ok rightmost"
| "rightmost_from modes virtual ((index, path) # paths) rightmost =
     (if index = virtual \<or> \<not> path_active path then rightmost_from modes virtual paths rightmost
      else and_then (source_mode_index path) (\<lambda>source_index.
           and_then (mode_at ''source'' modes source_index) (\<lambda>mode.
             rightmost_from modes virtual paths (max rightmost (right_edge (mi_source mode))))))"

definition non_overlapping_position :: "display_config \<Rightarrow> nat \<Rightarrow> ccd_error + int \<times> int" where
  "non_overlapping_position config virtual =
     and_then (rightmost_from (dc_modes config) virtual (enumerate 0 (dc_paths config)) 0) (\<lambda>x. Ok (x, 0))"

section \<open>One attempt\<close>

record config_env =
  ce_before :: ccd_view
  ce_all :: ccd_view
  ce_set :: "int \<times> int"
  ce_after :: ccd_view

text \<open>A cloned source is replaced by a path from an unused source to the same target.\<close>

definition independent_path :: "display_config \<Rightarrow> ccd_path \<Rightarrow> ccd_path \<Rightarrow> bool" where
  "independent_path config active candidate \<longleftrightarrow>
     ti_adapter candidate = ti_adapter active \<and> ti_id candidate = ti_id active \<and> ti_available candidate
     \<and> \<not> list_ex (\<lambda>other. same_source other candidate) (dc_paths config)"

definition extend_path :: "config_env \<Rightarrow> nat \<Rightarrow> display_config \<Rightarrow> ccd_error + display_config" where
  "extend_path env virtual config =
     (if has_duplicate_active_source (dc_paths config) virtual
      then let active = dc_paths config ! virtual in
           and_then (query_config (ce_all env)) (\<lambda>all.
             case List.find (independent_path config active) (dc_paths all) of
               None \<Rightarrow> Err (Topology (''CCD target '' @ decimal (unat (ti_id active))
                         @ '' has no independent source path for Extend''))
             | Some replacement \<Rightarrow>
                 and_then (copy_path_modes replacement (dc_modes all) (dc_modes config)) (\<lambda>(path, modes).
                   Ok \<lparr>dc_paths = (dc_paths config)[virtual := path], dc_modes = modes\<rparr>))
      else Ok config)"

definition set_mode ::
  "nat \<Rightarrow> int \<times> int \<Rightarrow> u32 \<Rightarrow> u32 \<Rightarrow> u32 \<Rightarrow> display_config \<Rightarrow> ccd_error + display_config" where
  "set_mode virtual position w h hz config =
     (let path = (dc_paths config ! virtual)
                   \<lparr>pi_flags := pi_flags (dc_paths config ! virtual) OR DISPLAYCONFIG_PATH_ACTIVE\<rparr> in
      and_then (source_mode_index path) (\<lambda>source_index.
      and_then (target_mode_index path) (\<lambda>target_index.
      and_then (mode_at ''source'' (dc_modes config) source_index) (\<lambda>source.
        if mi_type source \<noteq> SourceType
        then Err (Topology (''CCD source mode index '' @ decimal source_index @ '' is not a source mode''))
        else let modes = (dc_modes config)[source_index := source\<lparr>mi_source :=
                           \<lparr>sm_width = w, sm_height = h, sm_x = fst position, sm_y = snd position\<rparr>\<rparr>] in
      and_then (mode_at ''target'' modes target_index) (\<lambda>target.
        if mi_type target \<noteq> TargetType
        then Err (Topology (''CCD target mode index '' @ decimal target_index @ '' is not a target mode''))
        else Ok \<lparr>dc_paths = (dc_paths config)[virtual := path\<lparr>ti_refresh := (hz, 1)\<rparr>],
                 dc_modes = modes[target_index := target\<lparr>mi_target :=
                   \<lparr>tm_active = (w, h), tm_total = (w, h), tm_vsync = (hz, 1),
                    tm_pixel_rate = ucast w * ucast h * ucast hz\<rparr>\<rparr>]\<rparr>)))))"

definition signal_refresh :: "target_mode \<Rightarrow> u32" where
  "signal_refresh m = (if snd (tm_vsync m) = 0 then 0 else fst (tm_vsync m) div snd (tm_vsync m))"

definition mismatch_detail :: "source_mode \<Rightarrow> target_mode \<Rightarrow> string" where
  "mismatch_detail s t =
     ''source='' @ decimal (unat (sm_width s)) @ ''x'' @ decimal (unat (sm_height s)) @ '' at (''
     @ show_status (sm_x s) @ '','' @ show_status (sm_y s) @ ''), target='' @ decimal (unat (fst (tm_active t)))
     @ ''x'' @ decimal (unat (snd (tm_active t))) @ ''@'' @ decimal (unat (signal_refresh t)) @ ''Hz''"

definition verify_config :: "ccd_view \<Rightarrow> string \<Rightarrow> u64 \<Rightarrow> u64 \<Rightarrow> u32 \<Rightarrow> u32 \<Rightarrow> u32 \<Rightarrow> ccd_error + unit" where
  "verify_config view name dxgi_luid ccd_luid w h hz =
     and_then (query_config view) (\<lambda>config.
     and_then (find_source_path view (dc_paths config) dxgi_luid name) (\<lambda>(index, luid).
       let path = dc_paths config ! index in
       if luid \<noteq> ccd_luid
       then Err (VerifyMismatch Mode (''source '' @ name @ '' resolved on unexpected adapter LUID 0x'' @ hex16 luid
              @ '' (expected 0x'' @ hex16 ccd_luid @ '')''))
       else if \<not> path_active path then Err (VerifyMismatch Mode ''virtual path is not active after apply'')
       else if has_duplicate_active_source (dc_paths config) index
       then Err (VerifyMismatch Mode ''virtual source remains cloned after apply'')
       else and_then (source_mode_index path) (\<lambda>source_index.
            and_then (target_mode_index path) (\<lambda>target_index.
            and_then (mode_at ''source'' (dc_modes config) source_index) (\<lambda>source.
            and_then (mode_at ''target'' (dc_modes config) target_index) (\<lambda>target.
              let s = mi_source source; t = mi_target target in
              if sm_width s \<noteq> w \<or> sm_height s \<noteq> h \<or> fst (tm_active t) \<noteq> w \<or> snd (tm_active t) \<noteq> h
                 \<or> signal_refresh t \<noteq> hz
              then Err (VerifyMismatch Mode (mismatch_detail s t))
              else Ok ()))))))"

text \<open>The result, and the topology handed to Windows, if it came to that.\<close>

definition configure_once ::
  "config_env \<Rightarrow> display_info \<Rightarrow> u64 \<Rightarrow> u32 \<Rightarrow> u32 \<Rightarrow> u32 \<Rightarrow> (ccd_error + unit) \<times> display_config option" where
  "configure_once env target luid w h hz =
     (case and_then (query_config (ce_before env)) (\<lambda>config.
           and_then (find_source_path (ce_before env) (dc_paths config) luid (di_name target)) (\<lambda>(virtual, ccd_luid).
           and_then (extend_path env virtual config) (\<lambda>config.
           and_then (non_overlapping_position config virtual) (\<lambda>position.
           and_then (set_mode virtual position w h hz config) (\<lambda>config. Ok (config, ccd_luid)))))) of
        Inl e \<Rightarrow> (Err e, None)
      | Inr (config, ccd_luid) \<Rightarrow>
          (and_then (set_display_config Mode (ce_set env)) (\<lambda>_.
             verify_config (ce_after env) (di_name target) luid ccd_luid w h hz), Some config))"

section \<open>Attempts until the deadline\<close>

definition CONFIGURATION_TIMEOUT :: nat where "CONFIGURATION_TIMEOUT = 5 * SECOND"

text \<open>Each attempt has the time at which the loop tests the deadline.\<close>

fun configure_loop ::
  "display_info \<Rightarrow> u64 \<Rightarrow> u32 \<Rightarrow> u32 \<Rightarrow> u32 \<Rightarrow> nat \<Rightarrow> ccd_error \<Rightarrow> (nat \<times> config_env) list \<Rightarrow> (ccd_error + unit) option" where
  "configure_loop target luid w h hz deadline last_error [] = None"
| "configure_loop target luid w h hz deadline last_error ((now, env) # attempts) =
     (if now \<ge> deadline then Some (Err (CcdTimeout CONFIGURATION_TIMEOUT last_error))
      else case fst (configure_once env target luid w h hz) of
             Inr _ \<Rightarrow> Some (Ok ())
           | Inl e \<Rightarrow> configure_loop target luid w h hz deadline e attempts)"

definition configure_virtual_display ::
  "display_info \<Rightarrow> u32 \<Rightarrow> u32 \<Rightarrow> u32 \<Rightarrow> nat \<Rightarrow> (nat \<times> config_env) list \<Rightarrow> (ccd_error + unit) option" where
  "configure_virtual_display target w h hz started attempts =
     (case target_luid target of
        Inl e \<Rightarrow> Some (Err e)
      | Inr luid \<Rightarrow> configure_loop target luid w h hz (started + CONFIGURATION_TIMEOUT)
                      (Topology ''CCD path never appeared'') attempts)"

section \<open>What a configured display shows\<close>

text \<open>A view in which exactly one active path has the named source, at the given mode.\<close>

definition shows_mode :: "ccd_view \<Rightarrow> string \<Rightarrow> u32 \<Rightarrow> u32 \<Rightarrow> u32 \<Rightarrow> bool" where
  "shows_mode view name w h hz \<longleftrightarrow>
     (\<exists>config index. query_config view = Ok config \<and> index < length (dc_paths config)
        \<and> (let path = dc_paths config ! index;
               s = mi_source (dc_modes config ! unat (si_mode path)); t = mi_target (dc_modes config ! unat (ti_mode path)) in
           source_name view (si_adapter path) (si_id path) = Ok name
           \<and> path_active path
           \<and> (\<forall>k < length (dc_paths config). k \<noteq> index \<and> path_active (dc_paths config ! k)
                \<longrightarrow> \<not> same_source (dc_paths config ! k) path)
           \<and> unat (si_mode path) < length (dc_modes config) \<and> unat (ti_mode path) < length (dc_modes config)
           \<and> sm_width s = w \<and> sm_height s = h \<and> tm_active t = (w, h) \<and> signal_refresh t = hz))"

lemma matching_paths_sound:
  assumes "matching_paths view name k paths = Ok ms" "(i, l) \<in> set ms"
  shows "k \<le> i \<and> i < k + length paths \<and> source_name view (si_adapter (paths ! (i - k))) (si_id (paths ! (i - k))) = Ok name
    \<and> l = luid_value (si_adapter (paths ! (i - k)))"
  using assms
proof (induction paths arbitrary: k ms)
  case (Cons path paths)
  then obtain n rest where n: "source_name view (si_adapter path) (si_id path) = Ok n"
    and r: "matching_paths view name (k + 1) paths = Ok rest"
    and ms: "ms = (if n = name then (k, luid_value (si_adapter path)) # rest else rest)"
    by auto
  show ?case
  proof (cases "(i, l) \<in> set rest")
    case True
    from Cons.IH [OF r True] show ?thesis by (auto simp: nth_Cons' Suc_diff_le)
  next
    case False
    with Cons.prems ms n show ?thesis by (auto split: if_splits)
  qed
qed simp

lemma find_source_path_sound:
  assumes "find_source_path view paths dxgi name = Ok (i, l)"
  shows "i < length paths \<and> source_name view (si_adapter (paths ! i)) (si_id (paths ! i)) = Ok name
    \<and> l = luid_value (si_adapter (paths ! i))"
proof -
  obtain ms where ms: "matching_paths view name 0 paths = Ok ms"
    using assms by (auto simp: find_source_path_def)
  have "ms = [(i, l)] \<or> filter (\<lambda>(_, luid). luid = dxgi) ms = [(i, l)]"
    using assms unfolding find_source_path_def ms and_then.simps
    by (simp only: split: list.split_asm) simp_all
  moreover have "set (filter P ms) \<subseteq> set ms" for P by auto
  ultimately have "(i, l) \<in> set ms" by (metis list.set_intros(1) subsetD)
  from matching_paths_sound [OF ms this] show ?thesis by simp
qed

lemma mode_at_Ok [simp]: "mode_at what modes i = Ok m \<longleftrightarrow> i < length modes \<and> m = modes ! i"
  by (auto simp: mode_at_def)

lemma source_mode_index_Ok: "source_mode_index p = Ok i \<Longrightarrow> i = unat (si_mode p)"
  by (simp add: source_mode_index_def split: if_splits)

lemma target_mode_index_Ok: "target_mode_index p = Ok i \<Longrightarrow> i = unat (ti_mode p)"
  by (simp add: target_mode_index_def split: if_splits)

lemma has_duplicate_active_source_iff:
  "has_duplicate_active_source paths index \<longleftrightarrow>
     (\<exists>k < length paths. k \<noteq> index \<and> path_active (paths ! k) \<and> same_source (paths ! k) (paths ! index))"
  unfolding has_duplicate_active_source_def list_ex_iff by (auto simp: in_set_enumerate_eq)

lemma verify_config_sound:
  assumes "verify_config view name dxgi ccd w h hz = Ok ()"
  shows "shows_mode view name w h hz"
proof -
  obtain config where config: "query_config view = Ok config"
    using assms by (auto simp: verify_config_def)
  obtain index luid where find: "find_source_path view (dc_paths config) dxgi name = Ok (index, luid)"
    using assms by (auto simp: verify_config_def config)
  note ok = assms [unfolded verify_config_def config find and_then.simps prod.case Let_def]
  show ?thesis
    unfolding shows_mode_def Let_def
    using ok find_source_path_sound [OF find] config
    by (intro exI [of _ config] exI [of _ index])
      (auto simp: has_duplicate_active_source_iff prod_eq_iff split: if_splits
        dest!: source_mode_index_Ok target_mode_index_Ok)
qed

lemma configure_once_sound:
  "fst (configure_once env target luid w h hz) = Ok () \<Longrightarrow> shows_mode (ce_after env) (di_name target) w h hz"
  by (auto simp: configure_once_def verify_config_sound split: sum.splits)

lemma configure_loop_sound:
  "configure_loop target luid w h hz deadline e attempts = Some (Ok ()) \<Longrightarrow>
     \<exists>now env. (now, env) \<in> set attempts \<and> now < deadline \<and> fst (configure_once env target luid w h hz) = Ok ()"
proof (induction attempts arbitrary: e)
  case (Cons a attempts)
  obtain now env where a: "a = (now, env)" by fastforce
  show ?case
  proof (cases "fst (configure_once env target luid w h hz)")
    case (Inl e')
    with Cons.prems a Cons.IH [of e'] show ?thesis by (auto split: if_splits)
  next
    case (Inr u)
    with Cons.prems a have "(now, env) \<in> set (a # attempts) \<and> now < deadline \<and> fst (configure_once env target luid w h hz) = Ok ()"
      by (simp split: if_splits)
    then show ?thesis by blast
  qed
qed simp

text \<open>The virtual source stands to the right of every other active source, unless that shares a mode
  entry with it.\<close>

definition placed_right :: "display_config \<Rightarrow> nat \<Rightarrow> bool" where
  "placed_right config virtual \<longleftrightarrow>
     (let path = dc_paths config ! virtual; m = mi_source (dc_modes config ! unat (si_mode path)) in
      sm_y m = 0 \<and> 0 \<le> sm_x m
      \<and> (\<forall>k < length (dc_paths config). let other = dc_paths config ! k in
           k \<noteq> virtual \<and> path_active other \<and> si_mode other \<noteq> si_mode path \<and> si_mode other \<noteq> ti_mode path
           \<longrightarrow> right_edge (mi_source (dc_modes config ! unat (si_mode other))) \<le> sm_x m))"

lemma rightmost_from_bound:
  "rightmost_from modes virtual ps r = Ok x \<Longrightarrow> r \<le> x
    \<and> (\<forall>(i, p) \<in> set ps. i \<noteq> virtual \<and> path_active p \<longrightarrow> right_edge (mi_source (modes ! unat (si_mode p))) \<le> x)"
proof (induction ps arbitrary: r)
  case (Cons ip ps)
  obtain i p where ip: "ip = (i, p)" by fastforce
  show ?case
  proof (cases "i = virtual \<or> \<not> path_active p")
    case True
    with Cons.prems Cons.IH ip show ?thesis by auto
  next
    case False
    with Cons.prems ip have "rightmost_from modes virtual ps (max r (right_edge (mi_source (modes ! unat (si_mode p))))) = Ok x"
      by (auto dest!: source_mode_index_Ok)
    from Cons.IH [OF this] ip show ?thesis by auto
  qed
qed simp

lemma non_overlapping_position_bound:
  assumes "non_overlapping_position config virtual = Ok (x, y)"
  shows "y = 0 \<and> 0 \<le> x \<and> (\<forall>k < length (dc_paths config). k \<noteq> virtual \<and> path_active (dc_paths config ! k)
    \<longrightarrow> right_edge (mi_source (dc_modes config ! unat (si_mode (dc_paths config ! k)))) \<le> x)"
  using assms rightmost_from_bound [of "dc_modes config" virtual "enumerate 0 (dc_paths config)" 0 x]
  by (auto simp: non_overlapping_position_def in_set_enumerate_eq)

lemma mode_index_flags [simp]:
  "source_mode_index (p\<lparr>pi_flags := x\<rparr>) = source_mode_index p" "target_mode_index (p\<lparr>pi_flags := x\<rparr>) = target_mode_index p"
  by (simp_all add: source_mode_index_def target_mode_index_def)

lemma set_mode_shape:
  assumes "set_mode virtual position w h hz config = Ok config'"
    and p: "p = dc_paths config ! virtual" and i: "i = unat (si_mode p)" and j: "j = unat (ti_mode p)"
  obtains path source target where "si_mode path = si_mode p" "ti_mode path = ti_mode p" "i < length (dc_modes config)" "i \<noteq> j"
    "mi_source source = \<lparr>sm_width = w, sm_height = h, sm_x = fst position, sm_y = snd position\<rparr>"
    "dc_paths config' = (dc_paths config)[virtual := path]" "dc_modes config' = (dc_modes config)[i := source, j := target]"
proof -
  let ?source = "(dc_modes config ! i)\<lparr>mi_source := \<lparr>sm_width = w, sm_height = h, sm_x = fst position, sm_y = snd position\<rparr>\<rparr>"
  let ?modes = "(dc_modes config)[i := ?source]"
  have "is_ok (source_mode_index p)" "is_ok (target_mode_index p)"
    using assms(1) unfolding set_mode_def Let_def p [symmetric] by (auto simp: is_ok_iff)
  then have idx: "source_mode_index p = Ok i" "target_mode_index p = Ok j"
    by (auto simp: is_ok_iff i j dest: source_mode_index_Ok target_mode_index_Ok)
  note ok = assms(1) [unfolded set_mode_def Let_def p [symmetric] mode_index_flags idx and_then.simps]
  have b: "i < length (dc_modes config)" and s: "mi_type (dc_modes config ! i) = SourceType"
    using ok by (auto split: if_splits)
  note ok' = ok [unfolded mode_at_def [of "''source''"] if_P [OF b] and_then.simps s]
  have b': "j < length (dc_modes config)" and t: "mi_type (?modes ! j) = TargetType"
    using ok' by (auto split: if_splits)
  have "i \<noteq> j" using t s b by auto
  then show ?thesis
    using ok' b' t that [of "p\<lparr>pi_flags := pi_flags p OR DISPLAYCONFIG_PATH_ACTIVE, ti_refresh := (hz, 1)\<rparr>" ?source] b
    by (auto simp: mode_at_def)
qed

lemma set_mode_placed:
  assumes set: "set_mode virtual (x, y) w h hz config = Ok config'"
    and pos: "non_overlapping_position config virtual = Ok (x, y)" and v: "virtual < length (dc_paths config)"
  shows "placed_right config' virtual"
proof -
  define p where "p = dc_paths config ! virtual"
  obtain path source target where shape: "si_mode path = si_mode p" "ti_mode path = ti_mode p"
      "unat (si_mode p) < length (dc_modes config)" "unat (si_mode p) \<noteq> unat (ti_mode p)"
      "mi_source source = \<lparr>sm_width = w, sm_height = h, sm_x = x, sm_y = y\<rparr>"
      "dc_paths config' = (dc_paths config)[virtual := path]"
      "dc_modes config' = (dc_modes config)[unat (si_mode p) := source, unat (ti_mode p) := target]"
    using set_mode_shape [OF set p_def refl refl] by auto
  have "right_edge (mi_source (dc_modes config' ! unat (si_mode other))) \<le> x"
    if "k < length (dc_paths config)" "other = dc_paths config ! k" "k \<noteq> virtual" "path_active other"
      "si_mode other \<noteq> si_mode p" "si_mode other \<noteq> ti_mode p" for k other
  proof -
    have "unat (si_mode other) \<noteq> unat (si_mode p)" "unat (si_mode other) \<noteq> unat (ti_mode p)"
      using that(5,6) by (simp_all add: word_unat_eq_iff)
    then show ?thesis
      using non_overlapping_position_bound [OF pos] that(1-4) by (simp add: shape(7))
  qed
  with non_overlapping_position_bound [OF pos] v shape show ?thesis
    by (auto simp: placed_right_def Let_def)
qed

lemma extend_path_length: "extend_path env virtual config = Ok config' \<Longrightarrow> length (dc_paths config') = length (dc_paths config)"
  by (auto simp: extend_path_def Let_def split: if_splits option.splits)

lemma configure_once_placed:
  assumes "snd (configure_once env target luid w h hz) = Some config"
  shows "\<exists>virtual < length (dc_paths config). placed_right config virtual"
proof -
  obtain config0 virtual l config1 x y where
    f: "find_source_path (ce_before env) (dc_paths config0) luid (di_name target) = Ok (virtual, l)"
    and e: "extend_path env virtual config0 = Ok config1" and p: "non_overlapping_position config1 virtual = Ok (x, y)"
    and s: "set_mode virtual (x, y) w h hz config1 = Ok config"
    using assms by (auto simp: configure_once_def split: sum.splits)
  have v: "virtual < length (dc_paths config1)"
    using find_source_path_sound [OF f] extend_path_length [OF e] by simp
  moreover have "length (dc_paths config) = length (dc_paths config1)"
    using set_mode_shape [OF s refl refl refl] by (metis length_list_update)
  ultimately show ?thesis using set_mode_placed [OF s p v] by auto
qed


text \<open>A physical display of 2560 pixels and the virtual one behind it.\<close>

definition example_mode :: "mode_type \<Rightarrow> u32 \<Rightarrow> u32 \<Rightarrow> int \<Rightarrow> ccd_mode" where
  "example_mode ty w h x =
     \<lparr>mi_type = ty, mi_source = \<lparr>sm_width = w, sm_height = h, sm_x = x, sm_y = 0\<rparr>,
      mi_target = \<lparr>tm_active = (w, h), tm_total = (w, h), tm_vsync = (60, 1), tm_pixel_rate = 0\<rparr>, mi_rest = []\<rparr>"

definition example_desktop :: "u32 \<Rightarrow> u32 \<Rightarrow> int \<Rightarrow> display_config" where
  "example_desktop w h x =
     \<lparr>dc_paths = [(example_path 1 0)\<lparr>si_mode := 0\<rparr>, (example_path 1 1)\<lparr>si_mode := 1, ti_mode := 2\<rparr>],
      dc_modes = [example_mode SourceType 2560 1440 0, example_mode SourceType w h x, example_mode TargetType w h 0]\<rparr>"

definition example_view :: "display_config \<Rightarrow> ccd_view" where
  "example_view config =
     \<lparr>cv_query = (\<lambda>_. \<lparr>qa_sizes_status = 0, qa_status = 0, qa_config = config\<rparr>),
      cv_names = (\<lambda>_ source. Ok (if source = 1 then ''virtual'' else ''physical''))\<rparr>"

definition example_attempt :: config_env where
  "example_attempt = \<lparr>ce_before = example_view (example_desktop 800 600 0), ce_all = example_view (example_desktop 800 600 0),
     ce_set = (0, 0), ce_after = example_view (example_desktop 1920 1080 2560)\<rparr>"

lemmas example_ccd_defs = example_attempt_def example_view_def example_desktop_def example_mode_def example_path_def
  query_config_def QUERY_RETRIES_def source_name_def find_source_path_def has_duplicate_active_source_def path_active_def
  DISPLAYCONFIG_PATH_ACTIVE_def DISPLAYCONFIG_PATH_MODE_IDX_INVALID_def same_source_def source_mode_index_def
  target_mode_index_def mode_at_def upt_rec


end
