(* ===== verification/Negotiation.thy ===== *)
theory Negotiation
  imports Core_Types "HOL-Library.AList"
begin

text \<open>
  The session handshake (\<open>flux-protocol\<close>) and the pairing of clients by PIN (\<open>flux-crypto/src/auth.rs\<close>).
  The handshake is not connected to the pairing yet: its steps that would need it fail.  Random bytes,
  the clock and the answers of the file system and of the JSON library are inputs.
\<close>

section \<open>Messages\<close>

datatype audio_codec = Opus | Pcm

record hello_message =
  hm_protocol_version :: u32
  hm_client_name :: string
  hm_codecs :: "video_codec list"
  hm_max_resolution :: resolution
  hm_max_fps :: nat
  hm_hdr :: bool

record welcome_message =
  wm_protocol_version :: u32
  wm_server_name :: string
  wm_codecs :: "video_codec list"
  wm_audio_codecs :: "audio_codec list"
  wm_max_resolution :: resolution
  wm_is_paired :: bool

record pin_submit_message =
  ps_pin :: string
  ps_client_name :: string

record session_request_message =
  sq_codec :: video_codec
  sq_resolution :: resolution
  sq_fps :: nat
  sq_bitrate_kbps :: nat
  sq_dynamic_range :: dynamic_range
  sq_chroma :: chroma_sampling
  sq_audio_codec :: audio_codec
  sq_audio_kbps :: nat
  sq_enable_input :: bool

record session_accepted_message =
  sa_session_id :: nat
  sa_codec :: video_codec
  sa_resolution :: resolution
  sa_fps :: nat
  sa_bitrate_kbps :: nat
  sa_video_port :: u16
  sa_audio_port :: u16
  sa_input_port :: u16
  sa_control_key :: string

datatype message_payload =
    Hello hello_message
  | Welcome welcome_message
  | PinRequired
  | PinSubmit pin_submit_message
  | PairResult bool string
  | SessionRequest session_request_message
  | SessionAccepted session_accepted_message
  | SessionRejected string
  | RequestIdr
  | BitrateUpdate nat
  | Ping u64
  | Pong u64
  | SessionEnd string

section \<open>Versions\<close>

definition PROTOCOL_VERSION :: u32 where "PROTOCOL_VERSION = 1"
definition MIN_COMPATIBLE_VERSION :: u32 where "MIN_COMPATIBLE_VERSION = 1"

definition is_compatible :: "u32 \<Rightarrow> bool" where
  "is_compatible remote \<longleftrightarrow> remote \<ge> MIN_COMPATIBLE_VERSION \<and> remote \<le> PROTOCOL_VERSION"

section \<open>Handshake\<close>

datatype negotiation_state =
    AwaitingHello
  | AwaitingPin
  | AwaitingSessionRequest hello_message
  | Established
  | NegotiationFailed string

definition negotiation_new :: negotiation_state where
  "negotiation_new = AwaitingHello"

definition welcome_for :: "hello_message \<Rightarrow> welcome_message" where
  "welcome_for hello =
     \<lparr>wm_protocol_version = PROTOCOL_VERSION, wm_server_name = ''Flux Host'', wm_codecs = hm_codecs hello,
      wm_audio_codecs = [Opus], wm_max_resolution = \<lparr>width = 3840, height = 2160\<rparr>, wm_is_paired = False\<rparr>"

definition handle_hello :: "hello_message \<Rightarrow> (flux_error + message_payload list) \<times> negotiation_state" where
  "handle_hello hello =
     (if \<not> is_compatible (hm_protocol_version hello)
      then (Ok [SessionRejected (''protocol version '' @ decimal (unat (hm_protocol_version hello))
              @ '' not compatible (need >= '' @ decimal (unat MIN_COMPATIBLE_VERSION) @ '')'')],
            NegotiationFailed ''incompatible protocol version'')
      else (Ok [Welcome (welcome_for hello)], AwaitingSessionRequest hello))"

definition fail_not_implemented :: "string \<Rightarrow> (flux_error + message_payload list) \<times> negotiation_state" where
  "fail_not_implemented step =
     (let reason = step @ '' is not implemented'' in (Err (NegotiationError reason), NegotiationFailed reason))"

text \<open>How a state is printed is a parameter: it only appears in the text of an error.\<close>

definition process_message ::
  "(negotiation_state \<Rightarrow> string) \<Rightarrow> message_payload \<Rightarrow> negotiation_state
     \<Rightarrow> (flux_error + message_payload list) \<times> negotiation_state" where
  "process_message show_state msg s =
     (case (s, msg) of
        (AwaitingHello, Hello hello) \<Rightarrow> handle_hello hello
      | (AwaitingPin, PinSubmit pin) \<Rightarrow> fail_not_implemented ''PIN pairing verification''
      | (AwaitingSessionRequest _, SessionRequest req) \<Rightarrow>
          fail_not_implemented ''session acceptance (capability validation and session key generation)''
      | _ \<Rightarrow> (Err (ProtocolError (''unexpected message in state '' @ show_state s)), s))"

definition is_established :: "negotiation_state \<Rightarrow> bool" where
  "is_established s \<longleftrightarrow> s = Established"

section \<open>Pairing\<close>

record paired_client =
  pc_name :: string
  pc_fingerprint :: string
  pc_paired_at :: string

record pin_authenticator =
  active_pin :: "string option"
  paired_clients :: "(string \<times> paired_client) list"

definition authenticator_new :: pin_authenticator where
  "authenticator_new = \<lparr>active_pin = None, paired_clients = []\<rparr>"

definition four_digits :: "nat \<Rightarrow> string" where
  "four_digits n = map (\<lambda>k. ''0123456789'' ! (n div 10 ^ k mod 10)) [3, 2, 1, 0]"

definition generate_pin :: "byte \<times> byte \<Rightarrow> pin_authenticator \<Rightarrow> string \<times> pin_authenticator" where
  "generate_pin = (\<lambda>(b0, b1) a.
     let pin = four_digits (unat (u16_of_be [b0, b1]) mod 10000) in (pin, a\<lparr>active_pin := Some pin\<rparr>))"

definition verify_pin :: "string \<Rightarrow> pin_authenticator \<Rightarrow> bool \<times> pin_authenticator" where
  "verify_pin submitted a =
     (case active_pin a of
        Some pin \<Rightarrow> if pin = submitted then (True, a\<lparr>active_pin := None\<rparr>) else (False, a)
      | None \<Rightarrow> (False, a))"

definition add_paired_client :: "string \<Rightarrow> string \<Rightarrow> string \<Rightarrow> pin_authenticator \<Rightarrow> pin_authenticator" where
  "add_paired_client now name fingerprint a =
     a\<lparr>paired_clients := AList.update fingerprint
         \<lparr>pc_name = name, pc_fingerprint = fingerprint, pc_paired_at = now\<rparr> (paired_clients a)\<rparr>"

definition is_paired :: "string \<Rightarrow> pin_authenticator \<Rightarrow> bool" where
  "is_paired fingerprint a \<longleftrightarrow> map_of (paired_clients a) fingerprint \<noteq> None"

definition remove_paired_client :: "string \<Rightarrow> pin_authenticator \<Rightarrow> bool \<times> pin_authenticator" where
  "remove_paired_client fingerprint a =
     (is_paired fingerprint a, a\<lparr>paired_clients := AList.delete fingerprint (paired_clients a)\<rparr>)"

text \<open>The file: absent, or the result of reading and parsing it.\<close>

definition load_paired_clients ::
  "(io_error + (string + (string \<times> paired_client) list)) option \<Rightarrow> pin_authenticator
     \<Rightarrow> (flux_error + unit) \<times> pin_authenticator" where
  "load_paired_clients content a =
     (case content of
        None \<Rightarrow> (Ok (), a)
      | Some (Inl e) \<Rightarrow> (Err (ConfigRead e), a)
      | Some (Inr (Inl e)) \<Rightarrow> (Err (ConfigError (''failed to parse paired clients: '' @ e)), a)
      | Some (Inr (Inr clients)) \<Rightarrow> (Ok (), a\<lparr>paired_clients := clients\<rparr>))"

section \<open>The handshake fails closed\<close>

fun reply_count :: "flux_error + message_payload list \<Rightarrow> nat" where
  "reply_count (Inl e) = 0"
| "reply_count (Inr ms) = length ms"

definition failed :: "negotiation_state \<Rightarrow> bool" where
  "failed s = (case s of NegotiationFailed _ \<Rightarrow> True | _ \<Rightarrow> False)"

definition harmless :: "message_payload \<Rightarrow> bool" where
  "harmless m = (case m of Welcome w \<Rightarrow> \<not> wm_is_paired w | SessionRejected _ \<Rightarrow> True | _ \<Rightarrow> False)"

text \<open>Reachable states: fresh, welcomed, or failed; and how many replies each has seen.\<close>

definition negotiation_ok :: "negotiation_state \<Rightarrow> bool" where
  "negotiation_ok s = (case s of AwaitingPin \<Rightarrow> False | Established \<Rightarrow> False
     | AwaitingSessionRequest h \<Rightarrow> is_compatible (hm_protocol_version h) | _ \<Rightarrow> True)"

interpretation negotiation: stepper "process_message show_state" negotiation_ok for show_state
  by unfold_locales
    (auto simp: process_message_def negotiation_ok_def handle_hello_def fail_not_implemented_def Let_def
      split: negotiation_state.splits message_payload.splits)

lemma process_once_failed: "failed s \<Longrightarrow> process_message show_state m s = (Err (ProtocolError (''unexpected message in state '' @ show_state s)), s)"
  by (auto simp: process_message_def failed_def split: negotiation_state.splits)

lemma run_failed: "failed s \<Longrightarrow> sum_list (map reply_count (fst (run (process_message show_state) ms s))) = 0"
  by (induction ms) (simp_all add: process_once_failed)

lemma run_welcomed:
  "s = AwaitingSessionRequest h \<Longrightarrow> sum_list (map reply_count (fst (run (process_message show_state) ms s))) = 0"
proof (induction ms arbitrary: s)
  case (Cons m ms)
  show ?case
  proof (cases m)
    case (SessionRequest req)
    then show ?thesis
      using Cons.prems by (simp add: process_message_def [of show_state "SessionRequest req" "AwaitingSessionRequest h"] fail_not_implemented_def Let_def run_failed failed_def
          del: sum_list_eq_0_iff)
  qed (use Cons in \<open>simp_all add: process_message_def [of show_state _ "AwaitingSessionRequest h"]\<close>)
qed simp

lemma run_replies:
  "s = AwaitingHello \<Longrightarrow> sum_list (map reply_count (fst (run (process_message show_state) ms s))) \<le> 1"
proof (induction ms arbitrary: s)
  case (Cons m ms)
  show ?case
  proof (cases m)
    case (Hello h)
    then show ?thesis
      using Cons.prems by (simp add: process_message_def [of show_state "Hello h" AwaitingHello] handle_hello_def run_welcomed run_failed failed_def)
  qed (use Cons in \<open>simp_all add: process_message_def [of show_state _ AwaitingHello]\<close>)
qed simp

lemma process_harmless:
  "case fst (process_message show_state m s) of Inl e \<Rightarrow> True | Inr rs \<Rightarrow> list_all harmless rs"
  by (auto simp: process_message_def handle_hello_def fail_not_implemented_def harmless_def welcome_for_def Let_def
      split: negotiation_state.splits message_payload.splits)

lemma run_harmless:
  "list_all (\<lambda>r. case r of Inl e \<Rightarrow> True | Inr rs \<Rightarrow> list_all harmless rs) (fst (run (process_message show_state) ms s))"
  by (induction ms arbitrary: s) (simp_all add: process_harmless)


section \<open>A PIN works once\<close>

lemma four_digits_length: "length (four_digits n) = 4"
  by (simp add: four_digits_def)

lemma verify_pin_once:
  assumes "generate_pin bytes a = (pin, a1)"
  shows "length pin = 4 \<and> fst (verify_pin pin a1) \<and> (\<forall>p. \<not> fst (verify_pin p (snd (verify_pin pin a1))))"
  using assms by (auto simp: generate_pin_def verify_pin_def four_digits_length Let_def split: prod.splits)

lemma is_paired_iff:
  "is_paired f (add_paired_client now name g a) \<longleftrightarrow> f = g \<or> is_paired f a"
  "is_paired f (snd (remove_paired_client g a)) \<longleftrightarrow> f \<noteq> g \<and> is_paired f a"
  by (simp_all add: is_paired_def add_paired_client_def remove_paired_client_def AList.update_conv' AList.delete_conv')

end
