(* ===== verification/Cipher.thy ===== *)
theory Cipher
  imports Core_Types
begin

text \<open>
  Authenticated encryption of control messages (\<open>flux-crypto/src/cipher.rs\<close>).  Sealing and opening are
  those of the cryptographic library and are parameters, given the key and the nonce.  The counter is
  64 bits wide; adding to its last value panics, or wraps in a build without overflow checks.
\<close>

datatype key_size = Aes128 | Aes256

record aead =
  aead_seal :: "key_size \<Rightarrow> byte list \<Rightarrow> byte list \<Rightarrow> byte list \<Rightarrow> byte list option"
  aead_open :: "key_size \<Rightarrow> byte list \<Rightarrow> byte list \<Rightarrow> byte list \<Rightarrow> byte list option"

record cipher =
  ci_size :: key_size
  ci_key :: "byte list"
  ci_counter :: u64

definition key_length :: "key_size \<Rightarrow> nat" where
  "key_length k = (case k of Aes128 \<Rightarrow> 16 | Aes256 \<Rightarrow> 32)"

definition size_name :: "key_size \<Rightarrow> string" where
  "size_name k = (case k of Aes128 \<Rightarrow> ''AES-128'' | Aes256 \<Rightarrow> ''AES-256'')"

text \<open>The library accepts every key of the right length.\<close>

definition cipher_new :: "byte list \<Rightarrow> flux_error + cipher" where
  "cipher_new key =
     (if length key = 16 then Ok \<lparr>ci_size = Aes128, ci_key = key, ci_counter = 0\<rparr>
      else if length key = 32 then Ok \<lparr>ci_size = Aes256, ci_key = key, ci_counter = 0\<rparr>
      else Err (CryptoError (''invalid key length '' @ decimal (length key) @ '': expected 16 or 32 bytes'')))"

definition encrypt_with_nonce :: "aead \<Rightarrow> cipher \<Rightarrow> byte list \<Rightarrow> byte list \<Rightarrow> flux_error + byte list" where
  "encrypt_with_nonce lib c nonce plaintext =
     (case aead_seal lib (ci_size c) (ci_key c) nonce plaintext of
        Some ciphertext \<Rightarrow> Ok ciphertext
      | None \<Rightarrow> Err (CryptoError (size_name (ci_size c) @ '' encrypt error'')))"

definition nonce_bytes :: "u64 \<Rightarrow> byte list" where
  "nonce_bytes n = replicate 4 0 @ u64_be n"

definition encrypt :: "aead \<Rightarrow> byte list \<Rightarrow> cipher \<Rightarrow> (flux_error + byte list \<times> byte list) \<times> cipher" where
  "encrypt lib plaintext c =
     (let nonce = nonce_bytes (ci_counter c) in
      (and_then (encrypt_with_nonce lib c nonce plaintext) (\<lambda>ciphertext. Ok (nonce, ciphertext)),
       c\<lparr>ci_counter := ci_counter c + 1\<rparr>))"

definition decrypt :: "aead \<Rightarrow> cipher \<Rightarrow> byte list \<Rightarrow> byte list \<Rightarrow> flux_error + byte list" where
  "decrypt lib c nonce ciphertext =
     (case aead_open lib (ci_size c) (ci_key c) nonce ciphertext of
        Some plaintext \<Rightarrow> Ok plaintext
      | None \<Rightarrow> Err (CryptoError (size_name (ci_size c) @ '' decrypt error'')))"

text \<open>A key is the given random bytes, of the length of its size.\<close>

definition generate_key :: "key_size \<Rightarrow> (nat \<Rightarrow> byte list) \<Rightarrow> byte list" where
  "generate_key k rng = rng (key_length k)"

section \<open>Nonces are used once\<close>

text \<open>What the library promises: opening what was sealed with the same key and nonce gives it back.\<close>

definition opens_sealed :: "aead \<Rightarrow> bool" where
  "opens_sealed lib \<longleftrightarrow> (\<forall>k key nonce p ct. aead_seal lib k key nonce p = Some ct
     \<longrightarrow> aead_open lib k key nonce ct = Some p)"

lemma nonce_bytes_inject: "nonce_bytes m = nonce_bytes n \<longleftrightarrow> m = n"
  by (metis append_eq_append_conv nonce_bytes_def u64_be.enc_inject)

lemma encrypt_run:
  "fst (run (encrypt lib) ps c) =
     map (\<lambda>(k, p). and_then (encrypt_with_nonce lib c (nonce_bytes (ci_counter c + of_nat k)) p)
                      (\<lambda>ct. Ok (nonce_bytes (ci_counter c + of_nat k), ct))) (enumerate 0 ps)"
proof (induction ps arbitrary: c)
  case (Cons p ps)
  define c' where "c' = c\<lparr>ci_counter := ci_counter c + 1\<rparr>"
  have e: "encrypt_with_nonce lib c' = encrypt_with_nonce lib c"
    by (intro ext) (simp add: encrypt_with_nonce_def c'_def split: option.split)
  have k: "ci_counter c' + of_nat n = ci_counter c + of_nat (Suc n)" for n
    by (simp add: c'_def)
  have "fst (run (encrypt lib) (p # ps) c) = fst (encrypt lib p c) # fst (run (encrypt lib) ps c')"
    by (simp add: encrypt_def c'_def Let_def)
  also have "fst (run (encrypt lib) ps c') =
      map (\<lambda>(k, p). and_then (encrypt_with_nonce lib c (nonce_bytes (ci_counter c + of_nat k)) p)
                      (\<lambda>ct. Ok (nonce_bytes (ci_counter c + of_nat k), ct))) (enumerate 1 ps)"
    unfolding Cons.IH e k by (rule nth_equalityI) (simp_all add: nth_enumerate_eq)
  finally show ?case by (simp add: encrypt_def Let_def)
qed simp

text \<open>A cipher exists exactly for keys of 16 or 32 bytes.  Of fewer than \<open>2 ^ 64\<close> messages encrypted
  with it no two get the same nonce, every nonce has twelve bytes, and each ciphertext decrypts to its
  message with its nonce and the same key.\<close>

theorem encrypt_nonces_fresh:
  assumes "cipher_new key = Ok c" "length ps < 2 ^ 64" "opens_sealed lib"
    and "fst (run (encrypt lib) ps c) = map Ok ncs"
  shows "(length key = 16 \<or> length key = 32) \<and> length ncs = length ps
    \<and> distinct (map fst ncs) \<and> list_all (\<lambda>n. length n = 12) (map fst ncs)
    \<and> list_all (\<lambda>(p, n, ct). decrypt lib c n ct = Ok p) (zip ps ncs)"
proof -
  have c: "ci_counter c = 0" "length key = 16 \<or> length key = 32"
    using assms(1) by (auto simp: cipher_new_def split: if_splits)
  have len: "length ncs = length ps"
    using arg_cong [OF assms(4), of length] by simp
  have nth: "fst (ncs ! k) = nonce_bytes (of_nat k) \<and> encrypt_with_nonce lib c (nonce_bytes (of_nat k)) (ps ! k) = Ok (snd (ncs ! k))"
    if "k < length ps" for k
  proof -
    have "\<exists>ct. encrypt_with_nonce lib c (nonce_bytes (of_nat k)) (ps ! k) = Ok ct \<and> (nonce_bytes (of_nat k), ct) = ncs ! k"
      using arg_cong [OF assms(4), of "\<lambda>xs. xs ! k"] that unfolding encrypt_run c(1) by (simp add: nth_enumerate_eq len)
    then show ?thesis by (metis fst_conv snd_conv)
  qed
  have "distinct (map fst ncs)"
    unfolding distinct_conv_nth
  proof (intro allI impI)
    fix i j assume "i < length (map fst ncs)" "j < length (map fst ncs)" "i \<noteq> j"
    then show "map fst ncs ! i \<noteq> map fst ncs ! j"
      using nth [of i] nth [of j] len assms(2)
      by (simp add: nonce_bytes_inject of_nat_eq_iff word_of_nat_eq_iff take_bit_nat_eq_self)
  qed
  moreover have "list_all (\<lambda>n. length n = 12) (map fst ncs)"
    using nth len by (auto simp: list_all_length nonce_bytes_def)
  moreover have "list_all (\<lambda>(p, n, ct). decrypt lib c n ct = Ok p) (zip ps ncs)"
    unfolding list_all_length
  proof (intro allI impI)
    fix k assume k: "k < length (zip ps ncs)"
    obtain n ct where nk: "ncs ! k = (n, ct)" by fastforce
    have "aead_seal lib (ci_size c) (ci_key c) n (ps ! k) = Some ct"
      using nth [of k] k nk by (auto simp: encrypt_with_nonce_def split: option.splits)
    with assms(3) have "aead_open lib (ci_size c) (ci_key c) n ct = Some (ps ! k)"
      unfolding opens_sealed_def by blast
    with k nk show "case zip ps ncs ! k of (p, n, ct) \<Rightarrow> decrypt lib c n ct = Ok p"
      by (simp add: decrypt_def len)
  qed
  ultimately show ?thesis using c(2) len by simp
qed

text \<open>A library that prepends the nonce and a check byte to the text.\<close>

definition example_aead :: aead where
  "example_aead = \<lparr>aead_seal = (\<lambda>k key nonce p. Some (hd key # p)),
     aead_open = (\<lambda>k key nonce ct. if ct \<noteq> [] \<and> hd ct = hd key then Some (tl ct) else None)\<rparr>"

theorem encrypt_nonces_fresh_witness:
  "case cipher_new (replicate 16 5) of
     Inr c \<Rightarrow> (case fst (run (encrypt example_aead) [[1], [2, 3]] c) of
         [Inr (n1, c1), Inr (n2, c2)] \<Rightarrow> n1 \<noteq> n2 \<and> decrypt example_aead c n2 c2 = Ok [2, 3]
       | _ \<Rightarrow> False)
   | Inl _ \<Rightarrow> False"
proof -
  define c where "c = \<lparr>ci_size = Aes128, ci_key = replicate 16 5, ci_counter = 0\<rparr>"
  have c: "cipher_new (replicate 16 5) = Ok c" by (simp add: cipher_new_def c_def)
  have r: "fst (run (encrypt example_aead) [[1], [2, 3]] c) = map Ok [(nonce_bytes 0, [5, 1]), (nonce_bytes 1, [5, 2, 3])]"
    by (simp add: encrypt_def encrypt_with_nonce_def example_aead_def c_def Let_def)
  have "opens_sealed example_aead" by (auto simp: opens_sealed_def example_aead_def)
  from encrypt_nonces_fresh [OF c _ this r] c r show ?thesis by simp
qed

end
