(* ===== verification/Audio.thy ===== *)
theory Audio
  imports Core_Types
begin

text \<open>
  Desktop audio (\<open>flux-audio/src/framer.rs\<close>, \<open>flux-audio/src/encoder.rs\<close>, \<open>flux-server/src/audio.rs\<close>): capture
  buffers of any size are cut into frames of the encoder's size, encoded and sent.  Samples are values
  of any type.  The duration of a number of samples, a rounded floating-point quotient, is a parameter;
  so are the answers of the capture backend and of the Opus library.  A loop that does not end has no
  result, \<open>None\<close>.
\<close>

section \<open>Framing\<close>

record 'a audio_samples =
  as_data :: "'a list"
  as_rate :: nat
  as_channels :: nat
  as_sequence :: nat
  as_timestamp :: nat

record 'a audio_framer =
  fr_frame_samples :: nat
  fr_channels :: nat
  fr_rate :: nat
  fr_pending :: "'a list"
  fr_start :: "nat option"
  fr_sequence :: nat

definition framer_new :: "nat \<Rightarrow> nat \<Rightarrow> nat \<Rightarrow> 'a audio_framer" where
  "framer_new frame_samples channels rate =
     \<lparr>fr_frame_samples = frame_samples, fr_channels = channels, fr_rate = rate, fr_pending = [],
      fr_start = None, fr_sequence = 0\<rparr>"

definition frame_len :: "'a audio_framer \<Rightarrow> nat" where
  "frame_len f = fr_frame_samples f * fr_channels f"

text \<open>Time of the sample at an offset of a buffer; a division by zero channels panics.\<close>

definition time_at :: "(nat \<Rightarrow> nat \<Rightarrow> nat) \<Rightarrow> 'a audio_framer \<Rightarrow> 'a audio_samples \<Rightarrow> nat \<Rightarrow> nat outcome" where
  "time_at duration f b offset =
     (if fr_channels f = 0 then Panicked
      else Done (as_timestamp b + duration (offset div fr_channels f) (fr_rate f)))"

partial_function (option) push_loop ::
  "(nat \<Rightarrow> nat \<Rightarrow> nat) \<Rightarrow> 'a audio_samples \<Rightarrow> nat \<Rightarrow> 'a audio_samples list \<Rightarrow> 'a audio_framer
     \<Rightarrow> (nat \<times> 'a audio_samples list \<times> 'a audio_framer) outcome option" where
  "push_loop duration b offset out f =
     (if frame_len f \<le> length (fr_pending f) + (length (as_data b) - offset)
      then (case (case fr_start f of Some t \<Rightarrow> Done t | None \<Rightarrow> time_at duration f b offset) of
              Panicked \<Rightarrow> Some Panicked
            | Done start \<Rightarrow>
                let n = frame_len f - length (fr_pending f);
                    chunk = \<lparr>as_data = fr_pending f @ take n (drop offset (as_data b)), as_rate = fr_rate f,
                             as_channels = fr_channels f, as_sequence = fr_sequence f + 1, as_timestamp = start\<rparr>
                in push_loop duration b (offset + n) (out @ [chunk])
                     (f\<lparr>fr_pending := [], fr_start := None, fr_sequence := fr_sequence f + 1\<rparr>))
      else Some (Done (offset, out, f)))"

definition keep_rest ::
  "(nat \<Rightarrow> nat \<Rightarrow> nat) \<Rightarrow> 'a audio_samples \<Rightarrow> nat \<Rightarrow> 'a audio_framer \<Rightarrow> 'a audio_framer outcome" where
  "keep_rest duration b offset f =
     (if offset < length (as_data b)
      then (case (if fr_pending f = [] then time_at duration f b offset else Done 0) of
              Panicked \<Rightarrow> Panicked
            | Done t \<Rightarrow> Done (f\<lparr>fr_start := if fr_pending f = [] then Some t else fr_start f,
                              fr_pending := fr_pending f @ drop offset (as_data b)\<rparr>))
      else Done f)"

definition framer_push ::
  "(nat \<Rightarrow> nat \<Rightarrow> nat) \<Rightarrow> 'a audio_samples \<Rightarrow> 'a audio_framer \<Rightarrow> ('a audio_samples list \<times> 'a audio_framer) outcome option" where
  "framer_push duration b f =
     (case push_loop duration b 0 [] f of
        None \<Rightarrow> None
      | Some Panicked \<Rightarrow> Some Panicked
      | Some (Done (offset, out, f)) \<Rightarrow>
          Some (case keep_rest duration b offset f of Panicked \<Rightarrow> Panicked | Done f \<Rightarrow> Done (out, f)))"

section \<open>Encoding\<close>

datatype opus_application = Voip | Audio | LowDelay

text \<open>Frame durations are whole milliseconds here, so that the product with a supported rate is exact.\<close>

record opus_config =
  oc_rate :: nat
  oc_channels :: nat
  oc_bitrate :: nat
  oc_frame_ms :: nat
  oc_application :: opus_application

definition opus_config_default :: opus_config where
  "opus_config_default =
     \<lparr>oc_rate = 48000, oc_channels = 2, oc_bitrate = 128000, oc_frame_ms = 20, oc_application = Audio\<rparr>"

record opus_encoder =
  oe_config :: opus_config
  oe_sequence :: nat
  oe_samples_per_frame :: nat

text \<open>The library's answers: to the creation of an encoder and to its two settings, and to a frame.\<close>

record 'a opus_library =
  lib_create :: "string + unit"
  lib_bitrate :: "string + unit"
  lib_fec :: "string + unit"
  lib_encode :: "'a list \<Rightarrow> string + byte list"

fun labelled :: "string \<Rightarrow> string + unit \<Rightarrow> flux_error + unit" where
  "labelled label (Inl e) = Err (AudioEncode (label @ e))"
| "labelled label (Inr _) = Ok ()"

definition opus_new :: "'a opus_library \<Rightarrow> opus_config \<Rightarrow> flux_error + opus_encoder" where
  "opus_new lib config =
     (if oc_rate config \<notin> {8000, 12000, 16000, 24000, 48000}
      then Err (AudioEncode (''unsupported Opus sample rate: '' @ decimal (oc_rate config)))
      else if oc_channels config \<notin> {1, 2}
      then Err (AudioEncode (''unsupported Opus channel count: '' @ decimal (oc_channels config)))
      else and_then (labelled ''opus_encoder_create: '' (lib_create lib)) (\<lambda>_.
           and_then (labelled ''OPUS_SET_BITRATE: '' (lib_bitrate lib)) (\<lambda>_.
           and_then (labelled ''OPUS_SET_INBAND_FEC: '' (lib_fec lib)) (\<lambda>_.
           Ok \<lparr>oe_config = config, oe_sequence = 0,
               oe_samples_per_frame = oc_rate config * oc_frame_ms config div 1000\<rparr>))))"

record encoded_audio =
  ea_sequence :: nat
  ea_timestamp :: nat
  ea_data :: "byte list"

definition opus_encode ::
  "'a opus_library \<Rightarrow> 'a audio_samples \<Rightarrow> opus_encoder \<Rightarrow> (flux_error + encoded_audio) \<times> opus_encoder" where
  "opus_encode lib b e =
     (let expected = oe_samples_per_frame e * oc_channels (oe_config e) in
      if length (as_data b) \<noteq> expected
      then (Err (AudioEncode (''expected '' @ decimal expected @ '' interleaved samples, got ''
                 @ decimal (length (as_data b)))), e)
      else case lib_encode lib (as_data b) of
             Inl err \<Rightarrow> (Err (AudioEncode (''opus_encode_float: '' @ err)), e)
           | Inr bytes \<Rightarrow>
               let n = oe_sequence e + 1 in
               (Ok \<lparr>ea_sequence = n, ea_timestamp = n * oe_samples_per_frame e, ea_data = bytes\<rparr>,
                e\<lparr>oe_sequence := n\<rparr>))"

section \<open>The pipeline\<close>

text \<open>The payload is the sequence number in four bytes and the Opus packet; its time is that of the frame
  since the start of the stream, in microseconds (instants are nanoseconds).\<close>

definition audio_packet :: "nat \<Rightarrow> nat \<Rightarrow> nat \<Rightarrow> byte list \<Rightarrow> u64 \<times> byte list" where
  "audio_packet epoch t n bytes = (of_nat ((t - epoch) div 1000), u32_be (of_nat n) @ bytes)"

text \<open>One frame: skipped when nobody listens, dropped when it cannot be encoded, else sent.\<close>

definition send_chunk ::
  "'a opus_library \<Rightarrow> nat \<Rightarrow> (nat \<Rightarrow> bool) \<Rightarrow> 'a audio_samples \<Rightarrow> opus_encoder
     \<Rightarrow> (u64 \<times> byte list) list \<times> opus_encoder" where
  "send_chunk lib epoch listening chunk e =
     (if \<not> listening (as_sequence chunk) then ([], e)
      else case opus_encode lib chunk e of
             (Inl err, e) \<Rightarrow> ([], e)
           | (Inr p, e) \<Rightarrow> ([audio_packet epoch (as_timestamp chunk) (ea_sequence p) (ea_data p)], e))"

fun pump ::
  "(nat \<Rightarrow> nat \<Rightarrow> nat) \<Rightarrow> 'a opus_library \<Rightarrow> nat \<Rightarrow> (nat \<Rightarrow> bool) \<Rightarrow> 'a audio_samples list
     \<Rightarrow> opus_encoder \<Rightarrow> 'a audio_framer \<Rightarrow> (u64 \<times> byte list) list outcome option" where
  "pump duration lib epoch listening [] e f = Some (Done [])"
| "pump duration lib epoch listening (b # bs) e f =
     (case framer_push duration b f of
        None \<Rightarrow> None
      | Some Panicked \<Rightarrow> Some Panicked
      | Some (Done (chunks, f)) \<Rightarrow>
          (case run (send_chunk lib epoch listening) chunks e of
             (sent, e) \<Rightarrow>
               map_option (\<lambda>r. case r of Panicked \<Rightarrow> Panicked | Done later \<Rightarrow> Done (concat sent @ later))
                 (pump duration lib epoch listening bs e f)))"

record audio_config =
  au_rate :: nat
  au_channels :: nat
  au_kbps :: nat

definition audio_opus_config :: "audio_config \<Rightarrow> opus_config" where
  "audio_opus_config config =
     opus_config_default\<lparr>oc_rate := au_rate config, oc_channels := au_channels config,
       oc_bitrate := min (au_kbps config * 1000) (2 ^ 32 - 1), oc_application := Audio\<rparr>"

text \<open>\<open>captured\<close>: no capture, or the buffers delivered until capture ends.\<close>

definition audio_loop ::
  "(nat \<Rightarrow> nat \<Rightarrow> nat) \<Rightarrow> 'a opus_library \<Rightarrow> nat \<Rightarrow> (nat \<Rightarrow> bool) \<Rightarrow> audio_config
     \<Rightarrow> flux_error + 'a audio_samples list \<Rightarrow> (u64 \<times> byte list) list outcome option" where
  "audio_loop duration lib epoch listening config captured =
     (case captured of
        Inl e \<Rightarrow> Some (Done [])
      | Inr bufs \<Rightarrow>
          (case opus_new lib (audio_opus_config config) of
             Inl e \<Rightarrow> Some (Done [])
           | Inr e \<Rightarrow>
               pump duration lib epoch listening bufs e
                 (framer_new (oe_samples_per_frame e) (au_channels config) (au_rate config))))"

section \<open>Frames carry the captured samples\<close>

text \<open>The whole recording, the time of a sample of it, and the frame a recording has at an index.\<close>

definition recording :: "'a audio_samples list \<Rightarrow> 'a list" where
  "recording bs = concat (map as_data bs)"

fun sample_time :: "(nat \<Rightarrow> nat \<Rightarrow> nat) \<Rightarrow> nat \<Rightarrow> nat \<Rightarrow> 'a audio_samples list \<Rightarrow> nat \<Rightarrow> nat" where
  "sample_time duration channels rate [] k = 0"
| "sample_time duration channels rate (b # bs) k =
     (if k < length (as_data b) then as_timestamp b + duration (k div channels) rate
      else sample_time duration channels rate bs (k - length (as_data b)))"

definition frame_at :: "(nat \<Rightarrow> nat \<Rightarrow> nat) \<Rightarrow> 'a audio_framer \<Rightarrow> 'a audio_samples list \<Rightarrow> nat \<Rightarrow> 'a audio_samples" where
  "frame_at duration f bs i =
     \<lparr>as_data = take (frame_len f) (drop (i * frame_len f) (recording bs)), as_rate = fr_rate f,
      as_channels = fr_channels f, as_sequence = i + 1,
      as_timestamp = sample_time duration (fr_channels f) (fr_rate f) bs (i * frame_len f)\<rparr>"

lemma recording_simps [simp]:
  "recording [] = []" "recording (b # bs) = as_data b @ recording bs"
  "recording (bs @ cs) = recording bs @ recording cs"
  by (simp_all add: recording_def)

lemma sample_time_append:
  "sample_time duration c r (bs @ cs) k =
     (if k < length (recording bs) then sample_time duration c r bs k
      else sample_time duration c r cs (k - length (recording bs)))"
  by (induction bs arbitrary: k) auto

lemma frame_at_append:
  "(i + 1) * frame_len f \<le> length (recording bs) \<Longrightarrow> 0 < frame_len f \<Longrightarrow>
     frame_at duration f (bs @ cs) i = frame_at duration f bs i"
  by (simp add: frame_at_def sample_time_append)

text \<open>The state of the framer after the buffers \<open>bs\<close>, and inside a push after \<open>n\<close> frames.\<close>

definition same_format :: "'a audio_framer \<Rightarrow> 'a audio_framer \<Rightarrow> bool" where
  "same_format f g \<longleftrightarrow> fr_frame_samples f = fr_frame_samples g \<and> fr_channels f = fr_channels g \<and> fr_rate f = fr_rate g"

definition pending_from :: "(nat \<Rightarrow> nat \<Rightarrow> nat) \<Rightarrow> 'a audio_samples list \<Rightarrow> nat \<Rightarrow> 'a audio_framer \<Rightarrow> bool" where
  "pending_from duration bs n f \<longleftrightarrow>
     fr_sequence f = n \<and> length (fr_pending f) < frame_len f
     \<and> fr_start f = (if fr_pending f = [] then None
          else Some (sample_time duration (fr_channels f) (fr_rate f) bs (n * frame_len f)))"

definition framer_after :: "(nat \<Rightarrow> nat \<Rightarrow> nat) \<Rightarrow> 'a audio_samples list \<Rightarrow> 'a audio_framer \<Rightarrow> bool" where
  "framer_after duration bs f \<longleftrightarrow>
     pending_from duration bs (length (recording bs) div frame_len f) f
     \<and> fr_pending f = drop (length (recording bs) div frame_len f * frame_len f) (recording bs)"

definition pushing ::
  "(nat \<Rightarrow> nat \<Rightarrow> nat) \<Rightarrow> 'a audio_samples list \<Rightarrow> 'a audio_samples \<Rightarrow> nat \<Rightarrow> nat \<Rightarrow> 'a audio_framer \<Rightarrow> bool" where
  "pushing duration bs b offset n f \<longleftrightarrow>
     pending_from duration (bs @ [b]) n f
     \<and> offset \<le> length (as_data b) \<and> n * frame_len f \<le> length (recording (bs @ [b]))
     \<and> fr_pending f @ drop offset (as_data b) = drop (n * frame_len f) (recording (bs @ [b]))"

lemma pushing_channels: "pushing duration bs b offset n f \<Longrightarrow> 0 < fr_channels f \<and> 0 < frame_len f"
  by (auto simp: pushing_def pending_from_def frame_len_def intro!: Nat.gr0I)

lemma pushing_length:
  assumes "pushing duration bs b offset n f"
  shows "length (fr_pending f) + (length (as_data b) - offset) + n * frame_len f
    = length (recording bs) + length (as_data b)"
proof -
  have "length (fr_pending f @ drop offset (as_data b)) = length (drop (n * frame_len f) (recording (bs @ [b])))"
    using assms unfolding pushing_def by metis
  then show ?thesis
    using assms unfolding pushing_def length_append length_drop by simp
qed

lemma pushing_time:
  assumes p: "pushing duration bs b offset n f" and "fr_pending f = []" "offset < length (as_data b)"
  shows "time_at duration f b offset
    = Done (sample_time duration (fr_channels f) (fr_rate f) (bs @ [b]) (n * frame_len f))"
proof -
  have "n * frame_len f = length (recording bs) + offset"
    using pushing_length [OF p] assms by (auto simp: pushing_def)
  then show ?thesis
    using assms pushing_channels [OF p] by (simp add: time_at_def sample_time_append)
qed

lemma pushing_start:
  assumes p: "pushing duration bs b offset n f"
    and more: "frame_len f \<le> length (fr_pending f) + (length (as_data b) - offset)"
  shows "(case fr_start f of Some t \<Rightarrow> Done t | None \<Rightarrow> time_at duration f b offset)
    = Done (sample_time duration (fr_channels f) (fr_rate f) (bs @ [b]) (n * frame_len f))"
proof (cases "fr_pending f = []")
  case True
  then have "offset < length (as_data b)" using more pushing_channels [OF p] by auto
  then show ?thesis
    using p True pushing_time [OF p] by (simp add: pushing_def pending_from_def)
next
  case False
  then show ?thesis using p by (simp add: pushing_def pending_from_def)
qed

lemma pushing_step:
  assumes p: "pushing duration bs b offset n f"
    and more: "frame_len f \<le> length (fr_pending f) + (length (as_data b) - offset)"
  shows "pushing duration bs b (offset + (frame_len f - length (fr_pending f))) (n + 1)
           (f\<lparr>fr_pending := [], fr_start := None, fr_sequence := fr_sequence f + 1\<rparr>)"
    and "fr_pending f @ take (frame_len f - length (fr_pending f)) (drop offset (as_data b))
           = take (frame_len f) (drop (n * frame_len f) (recording (bs @ [b])))"
proof -
  have eq: "drop (n * frame_len f) (recording (bs @ [b])) = fr_pending f @ drop offset (as_data b)"
    and short: "length (fr_pending f) < frame_len f"
    using p by (simp_all add: pushing_def pending_from_def)
  show "fr_pending f @ take (frame_len f - length (fr_pending f)) (drop offset (as_data b))
           = take (frame_len f) (drop (n * frame_len f) (recording (bs @ [b])))"
    unfolding eq using short by simp
  have "drop ((n + 1) * frame_len f) (recording (bs @ [b])) = drop (frame_len f) (drop (n * frame_len f) (recording (bs @ [b])))"
    by (simp add: drop_drop del: recording_simps)
  then have "drop ((n + 1) * frame_len f) (recording (bs @ [b])) = drop (offset + (frame_len f - length (fr_pending f))) (as_data b)"
    unfolding eq using short by (simp add: add.commute)
  moreover have "frame_len (f\<lparr>fr_pending := [], fr_start := None, fr_sequence := fr_sequence f + 1\<rparr>) = frame_len f"
    by (simp add: frame_len_def)
  ultimately show "pushing duration bs b (offset + (frame_len f - length (fr_pending f))) (n + 1)
           (f\<lparr>fr_pending := [], fr_start := None, fr_sequence := fr_sequence f + 1\<rparr>)"
    using p more short pushing_length [OF p] pushing_channels [OF p]
    by (simp add: pushing_def pending_from_def del: recording_simps) auto
qed

lemma push_loop_frames:
  assumes "pushing duration bs b offset n f"
  shows "\<exists>offset' f'. push_loop duration b offset out f
           = Some (Done (offset', out @ map (frame_at duration f (bs @ [b])) [n..<length (recording (bs @ [b])) div frame_len f], f'))
         \<and> same_format f' f \<and> pushing duration bs b offset' (length (recording (bs @ [b])) div frame_len f) f'"
  using assms
proof (induction "length (as_data b) - offset" arbitrary: offset n out f rule: less_induct)
  case less
  note p = less.prems
  let ?fl = "frame_len f" let ?N = "length (recording (bs @ [b])) div frame_len f"
  show ?case
  proof (cases "?fl \<le> length (fr_pending f) + (length (as_data b) - offset)")
    case False
    then have "n = ?N"
      using pushing_length [OF p] pushing_channels [OF p] by (intro div_nat_eqI [symmetric]) (simp_all add: mult.commute [of _ n])
    then show ?thesis
      using False p by (subst push_loop.simps) (auto simp: same_format_def)
  next
    case True
    define g where "g = f\<lparr>fr_pending := [], fr_start := None, fr_sequence := fr_sequence f + 1\<rparr>"
    define offset' where "offset' = offset + (?fl - length (fr_pending f))"
    have fl: "frame_len g = ?fl" and fmt: "same_format g f" and at: "frame_at duration g = frame_at duration f"
      by (simp_all add: g_def frame_len_def same_format_def frame_at_def fun_eq_iff)
    have q: "pushing duration bs b offset' (n + 1) g"
      unfolding offset'_def g_def by (rule pushing_step(1) [OF p True])
    have smaller: "length (as_data b) - offset' < length (as_data b) - offset"
      using True p unfolding offset'_def by (auto simp: pushing_def pending_from_def)
    have "n + 1 \<le> ?N"
      using pushing_channels [OF p] q by (simp add: pushing_def fl less_eq_div_iff_mult_less_eq)
    then have split: "[n..<?N] = n # [n + 1..<?N]" by (simp add: upt_conv_Cons)
    have "fr_sequence f = n" using p by (simp add: pushing_def pending_from_def)
    then have step: "push_loop duration b offset out f = push_loop duration b offset' (out @ [frame_at duration f (bs @ [b]) n]) g"
      using True by (subst push_loop.simps)
        (simp add: pushing_start [OF p True] pushing_step(2) [OF p True] frame_at_def g_def offset'_def Let_def del: recording_simps)
    show ?thesis
      using less.hyps [OF smaller q, of "out @ [frame_at duration f (bs @ [b]) n]"] fmt
      unfolding step fl at split same_format_def by auto
  qed
qed

lemma push_loop_stuck: "frame_len f = 0 \<Longrightarrow> 0 < fr_channels f \<Longrightarrow> push_loop duration b offset out f = None"
proof -
  have "frame_len f = 0 \<longrightarrow> 0 < fr_channels f \<longrightarrow> False" if "push_loop duration b offset out f = Some r" for r
    by (rule push_loop.raw_induct [where P = "\<lambda>_ _ _ _ f _. frame_len f = 0 \<longrightarrow> 0 < fr_channels f \<longrightarrow> False", OF _ that])
      (fastforce simp: Let_def time_at_def frame_len_def split: if_splits outcome.splits option.splits)
  then show "frame_len f = 0 \<Longrightarrow> 0 < fr_channels f \<Longrightarrow> push_loop duration b offset out f = None"
    by (cases "push_loop duration b offset out f") auto
qed

lemma framer_after_pushing: "framer_after duration bs f \<Longrightarrow> pushing duration bs b 0 (length (recording bs) div frame_len f) f"
  by (auto simp: framer_after_def pushing_def pending_from_def sample_time_append intro: trans_le_add1)

lemma keep_rest_after:
  assumes p: "pushing duration bs b offset (length (recording (bs @ [b])) div frame_len f) f"
  shows "\<exists>f'. keep_rest duration b offset f = Done f' \<and> same_format f' f \<and> framer_after duration (bs @ [b]) f'"
proof (cases "offset < length (as_data b)")
  case True
  let ?n = "length (recording (bs @ [b])) div frame_len f"
  let ?t = "sample_time duration (fr_channels f) (fr_rate f) (bs @ [b]) (?n * frame_len f)"
  define f' where "f' = f\<lparr>fr_start := Some ?t, fr_pending := fr_pending f @ drop offset (as_data b)\<rparr>"
  have k: "keep_rest duration b offset f = Done f'"
    using True p pushing_time [OF p]
    by (cases "fr_pending f = []") (simp_all add: keep_rest_def f'_def pushing_def pending_from_def del: recording_simps)
  have fl: "frame_len f' = frame_len f" "same_format f' f" "fr_channels f' = fr_channels f" "fr_rate f' = fr_rate f"
    by (simp_all add: f'_def frame_len_def same_format_def)
  have "length (drop (?n * frame_len f) (recording (bs @ [b]))) < frame_len f"
    using pushing_channels [OF p] unfolding length_drop by (simp add: minus_div_mult_eq_mod)
  then have "framer_after duration (bs @ [b]) f'"
    using p True unfolding framer_after_def pending_from_def fl
    by (auto simp: f'_def pushing_def pending_from_def simp del: recording_simps)
  then show ?thesis using k fl by auto
next
  case False
  then show ?thesis
    using p by (auto simp: keep_rest_def framer_after_def pushing_def same_format_def simp del: recording_simps)
qed

lemma framer_push_frames:
  assumes "framer_after duration bs f"
  shows "\<exists>f'. framer_push duration b f = Some (Done (map (frame_at duration f (bs @ [b]))
             [length (recording bs) div frame_len f..<length (recording (bs @ [b])) div frame_len f], f'))
           \<and> same_format f' f \<and> framer_after duration (bs @ [b]) f'"
proof -
  obtain offset' f' where l: "push_loop duration b 0 [] f
           = Some (Done (offset', map (frame_at duration f (bs @ [b])) [length (recording bs) div frame_len f..<length (recording (bs @ [b])) div frame_len f], f'))"
    "same_format f' f" "pushing duration bs b offset' (length (recording (bs @ [b])) div frame_len f) f'"
    using push_loop_frames [OF framer_after_pushing [OF assms], where out = "[]" and b = b] by auto
  moreover have "frame_len f' = frame_len f" using l(2) by (simp add: same_format_def frame_len_def)
  ultimately show ?thesis
    using keep_rest_after [of duration bs b offset' f'] unfolding framer_push_def by (auto simp: same_format_def)
qed

section \<open>The pipeline sends the recording\<close>

lemma frame_len_same: "same_format f g \<Longrightarrow> frame_len f = frame_len g"
  by (simp add: same_format_def frame_len_def)

lemma frame_at_same: "same_format f g \<Longrightarrow> frame_at duration f = frame_at duration g"
  by (simp add: same_format_def frame_len_def frame_at_def fun_eq_iff)

text \<open>The packet of the frame at an index, for a library that encodes every frame.\<close>

definition packet_at ::
  "(nat \<Rightarrow> nat \<Rightarrow> nat) \<Rightarrow> ('a list \<Rightarrow> byte list) \<Rightarrow> nat \<Rightarrow> 'a audio_framer \<Rightarrow> 'a audio_samples list \<Rightarrow> nat \<Rightarrow> u64 \<times> byte list" where
  "packet_at duration enc epoch f bs i =
     audio_packet epoch (as_timestamp (frame_at duration f bs i)) (i + 1) (enc (as_data (frame_at duration f bs i)))"

definition encoder_fits :: "'a audio_framer \<Rightarrow> opus_encoder \<Rightarrow> bool" where
  "encoder_fits f e \<longleftrightarrow> oe_samples_per_frame e * oc_channels (oe_config e) = frame_len f"

lemma send_chunk_at:
  assumes "lib_encode lib = Inr \<circ> enc" "encoder_fits f e" "oe_sequence e = i"
    "(i + 1) * frame_len f \<le> length (recording bs)"
  shows "send_chunk lib epoch (\<lambda>_. True) (frame_at duration f bs i) e
    = ([packet_at duration enc epoch f bs i], e\<lparr>oe_sequence := i + 1\<rparr>)"
  using assms by (auto simp: send_chunk_def opus_encode_def encoder_fits_def frame_at_def packet_at_def Let_def)

lemma next_frame_le: "i < n \<Longrightarrow> n * l \<le> k \<Longrightarrow> (i + 1) * l \<le> (k :: nat)"
  using mult_le_mono1 [of "i + 1" n l] by simp

lemma upt_join: "i \<le> j \<Longrightarrow> j \<le> k \<Longrightarrow> [i..<j] @ [j..<k] = [i..<k]"
  using upt_add_eq_append [of i j "k - j"] by simp

lemma send_chunks_at:
  assumes "lib_encode lib = Inr \<circ> enc" "encoder_fits f e" "oe_sequence e = m"
    "n * frame_len f \<le> length (recording bs)" "m \<le> n"
  shows "\<exists>sent. run (send_chunk lib epoch (\<lambda>_. True)) (map (frame_at duration f bs) [m..<n]) e
    = (sent, e\<lparr>oe_sequence := n\<rparr>) \<and> concat sent = map (packet_at duration enc epoch f bs) [m..<n]"
  using assms
proof (induction "n - m" arbitrary: m e)
  case 0
  then show ?case by simp
next
  case (Suc k)
  then have "m < n" by simp
  then have split: "[m..<n] = m # [Suc m..<n]" by (simp add: upt_conv_Cons)
  have "(m + 1) * frame_len f \<le> length (recording bs)"
    using \<open>m < n\<close> Suc.prems(4) by (rule next_frame_le)
  note one = send_chunk_at [OF Suc.prems(1-3) this, where epoch = epoch and duration = duration]
  have "encoder_fits f (e\<lparr>oe_sequence := m + 1\<rparr>)" using Suc.prems(2) by (simp add: encoder_fits_def)
  moreover have "k = n - Suc m" using Suc.hyps(2) by simp
  ultimately show ?case
    using Suc.hyps(1) [of "Suc m" "e\<lparr>oe_sequence := m + 1\<rparr>"] Suc.prems(1,4) \<open>m < n\<close>
    unfolding split by (auto simp: one)
qed

lemma send_chunks_fit: "encoder_fits f e \<Longrightarrow> encoder_fits f (snd (run (send_chunk lib epoch listening) chunks e))"
proof (induction chunks arbitrary: e)
  case (Cons c cs)
  have "encoder_fits f (snd (send_chunk lib epoch listening c e))"
    using Cons.prems by (auto simp: send_chunk_def opus_encode_def encoder_fits_def Let_def split: sum.splits prod.splits)
  from Cons.IH [OF this] show ?case by (simp add: split_beta)
qed simp

lemma pump_total:
  assumes "framer_after duration bs f"
  shows "\<exists>sent. pump duration lib epoch listening cs e f = Some (Done sent)"
  using assms
proof (induction cs arbitrary: bs e f)
  case (Cons c cs)
  from framer_push_frames [OF Cons.prems] obtain chunks f' where
    "framer_push duration c f = Some (Done (chunks, f'))" "framer_after duration (bs @ [c]) f'" by blast
  with Cons.IH [OF this(2), of "snd (run (send_chunk lib epoch listening) chunks e)"] show ?case
    by (auto simp: split_beta)
qed simp

lemma pump_packets:
  assumes "lib_encode lib = Inr \<circ> enc" "framer_after duration bs f" "encoder_fits f e"
    "oe_sequence e = length (recording bs) div frame_len f" "0 < frame_len f"
  shows "pump duration lib epoch (\<lambda>_. True) cs e f
    = Some (Done (map (packet_at duration enc epoch f (bs @ cs))
        [length (recording bs) div frame_len f..<length (recording (bs @ cs)) div frame_len f]))"
  using assms
proof (induction cs arbitrary: bs e f)
  case (Cons c cs)
  let ?m = "length (recording bs) div frame_len f" and ?n = "length (recording (bs @ [c])) div frame_len f"
    and ?k = "length (recording (bs @ c # cs)) div frame_len f"
  from framer_push_frames [OF Cons.prems(2)] obtain f' where
    push: "framer_push duration c f = Some (Done (map (frame_at duration f (bs @ [c])) [?m..<?n], f'))"
    and fmt: "same_format f' f" and after: "framer_after duration (bs @ [c]) f'" by blast
  have mn: "?m \<le> ?n" "?n \<le> ?k" by (simp_all add: div_le_mono)
  have whole: "?n * frame_len f \<le> length (recording (bs @ [c]))" by (rule div_times_less_eq_dividend)
  from send_chunks_at [OF Cons.prems(1,3,4) whole mn(1)] obtain sent where
    sent: "run (send_chunk lib epoch (\<lambda>_. True)) (map (frame_at duration f (bs @ [c])) [?m..<?n]) e = (sent, e\<lparr>oe_sequence := ?n\<rparr>)"
      "concat sent = map (packet_at duration enc epoch f (bs @ [c])) [?m..<?n]" by blast
  have early: "map (packet_at duration enc epoch f (bs @ [c])) [?m..<?n] = map (packet_at duration enc epoch f (bs @ c # cs)) [?m..<?n]"
  proof (rule map_cong [OF refl])
    fix i assume "i \<in> set [?m..<?n]"
    then have "(i + 1) * frame_len f \<le> length (recording (bs @ [c]))"
      using whole by (intro next_frame_le [of i ?n]) auto
    from frame_at_append [OF this Cons.prems(5), of duration cs]
    show "packet_at duration enc epoch f (bs @ [c]) i = packet_at duration enc epoch f (bs @ c # cs) i"
      by (simp add: packet_at_def)
  qed
  have later: "pump duration lib epoch (\<lambda>_. True) cs (e\<lparr>oe_sequence := ?n\<rparr>) f'
      = Some (Done (map (packet_at duration enc epoch f (bs @ c # cs)) [?n..<?k]))"
    using Cons.IH [OF Cons.prems(1) after, of "e\<lparr>oe_sequence := ?n\<rparr>"] Cons.prems(3,5)
    by (simp add: encoder_fits_def frame_len_same [OF fmt] packet_at_def [abs_def] frame_at_same [OF fmt])
  show ?case
    using upt_join [OF mn] by (simp add: push sent early later flip: map_append del: recording_simps)
qed simp

lemma opus_new_ok:
  "opus_new lib (audio_opus_config config) = Ok e \<Longrightarrow>
     encoder_fits (framer_new (oe_samples_per_frame e) (au_channels config) (au_rate config)) e
     \<and> framer_after duration [] (framer_new (oe_samples_per_frame e) (au_channels config) (au_rate config))
     \<and> oe_sequence e = 0 \<and> oe_samples_per_frame e = au_rate config div 50 \<and> 0 < oe_samples_per_frame e * au_channels config"
  by (auto simp: opus_new_def audio_opus_config_def opus_config_default_def encoder_fits_def framer_after_def pending_from_def
      framer_new_def frame_len_def elim!: labelled.elims split: if_splits)

text \<open>C24: The audio pipeline never panics and never hangs, whatever is captured, whoever listens and whatever
  the codec answers.  When the codec accepts every frame and someone listens throughout, the packets
  sent are exactly the 20 ms frames of the concatenated recording, in order: packet number \<open>i\<close> carries
  sequence number \<open>i + 1\<close>, the encoding of the \<open>i\<close>-th stretch of samples, and the capture time of the
  first sample of that stretch, however the recording was cut into buffers.  An unsupported rate or
  channel count sends nothing.\<close>

theorem audio_loop_packets:
  "(\<exists>sent. audio_loop duration lib epoch listening config captured = Some (Done sent))
   \<and> (case captured of Inl e \<Rightarrow> True | Inr bufs \<Rightarrow>
        if opus_new lib (audio_opus_config config) = Ok e \<and> lib_encode lib = Inr \<circ> enc
        then (let n = au_rate config div 50 * au_channels config in
              audio_loop duration lib epoch (\<lambda>_. True) config captured
                = Some (Done (map (\<lambda>i. audio_packet epoch
                     (sample_time duration (au_channels config) (au_rate config) bufs (i * n)) (i + 1)
                     (enc (take n (drop (i * n) (recording bufs)))))
                   [0..<length (recording bufs) div n])))
        else True)
   \<and> (if au_rate config \<notin> {8000, 12000, 16000, 24000, 48000} \<or> au_channels config \<notin> {1, 2}
      then audio_loop duration lib epoch listening config captured = Some (Done []) else True)"
proof (intro conjI)
  show "\<exists>sent. audio_loop duration lib epoch listening config captured = Some (Done sent)"
    using opus_new_ok [of lib config _ duration] pump_total
    by (fastforce simp: audio_loop_def split: sum.splits)
  show "if au_rate config \<notin> {8000, 12000, 16000, 24000, 48000} \<or> au_channels config \<notin> {1, 2}
      then audio_loop duration lib epoch listening config captured = Some (Done []) else True"
    by (auto simp: audio_loop_def opus_new_def audio_opus_config_def split: sum.splits)
next
  show "case captured of Inl e \<Rightarrow> True | Inr bufs \<Rightarrow>
        if opus_new lib (audio_opus_config config) = Ok e \<and> lib_encode lib = Inr \<circ> enc
        then (let n = au_rate config div 50 * au_channels config in
              audio_loop duration lib epoch (\<lambda>_. True) config captured
                = Some (Done (map (\<lambda>i. audio_packet epoch
                     (sample_time duration (au_channels config) (au_rate config) bufs (i * n)) (i + 1)
                     (enc (take n (drop (i * n) (recording bufs)))))
                   [0..<length (recording bufs) div n])))
        else True"
  proof (cases captured)
    case (Inr bufs)
    have "audio_loop duration lib epoch (\<lambda>_. True) config captured = Some (Done (map
        (packet_at duration enc epoch (framer_new (au_rate config div 50) (au_channels config) (au_rate config)) bufs)
        [0..<length (recording bufs) div (au_rate config div 50 * au_channels config)]))"
      if new: "opus_new lib (audio_opus_config config) = Ok e" and lib: "lib_encode lib = Inr \<circ> enc"
    proof -
      note ok = opus_new_ok [OF new, of duration]
      have fl: "frame_len (framer_new (au_rate config div 50) (au_channels config) (au_rate config) :: 'a audio_framer)
          = au_rate config div 50 * au_channels config" by (simp add: frame_len_def framer_new_def)
      have "pump duration lib epoch (\<lambda>_. True) bufs e (framer_new (au_rate config div 50) (au_channels config) (au_rate config))
        = Some (Done (map (packet_at duration enc epoch (framer_new (au_rate config div 50) (au_channels config) (au_rate config)) ([] @ bufs))
          [length (recording ([] :: 'a audio_samples list)) div (au_rate config div 50 * au_channels config)..<
           length (recording ([] @ bufs)) div (au_rate config div 50 * au_channels config)]))"
        using ok pump_packets [OF lib, of duration "[]" "framer_new (au_rate config div 50) (au_channels config) (au_rate config)" e epoch bufs]
        by (auto simp: fl)
      with ok show ?thesis by (auto simp: audio_loop_def Inr new)
    qed
    then show ?thesis
      by (simp add: Inr Let_def packet_at_def [abs_def] frame_at_def frame_len_def framer_new_def)
  qed simp
qed

definition example_audio :: "nat audio_samples list" where
  "example_audio =
     [\<lparr>as_data = replicate 100 7, as_rate = 8000, as_channels = 1, as_sequence = 0, as_timestamp = 5000\<rparr>,
      \<lparr>as_data = replicate 300 8, as_rate = 8000, as_channels = 1, as_sequence = 1, as_timestamp = 12505000\<rparr>]"

definition example_library :: "nat opus_library" where
  "example_library = \<lparr>lib_create = Inr (), lib_bitrate = Inr (), lib_fec = Inr (), lib_encode = Inr \<circ> (\<lambda>xs. [of_nat (sum_list xs)])\<rparr>"

theorem audio_loop_packets_witness:
  "\<exists>e. opus_new example_library (audio_opus_config \<lparr>au_rate = 8000, au_channels = 1, au_kbps = 64\<rparr>) = Ok e
     \<and> audio_loop (\<lambda>n rate. n * 1000000000 div rate) example_library 0 (\<lambda>_. True)
         \<lparr>au_rate = 8000, au_channels = 1, au_kbps = 64\<rparr> (Inr example_audio)
       = Some (Done [(5, [0, 0, 0, 1, 156]), (20005, [0, 0, 0, 2, 0])])"
proof -
  let ?config = "\<lparr>au_rate = 8000, au_channels = 1, au_kbps = 64\<rparr>"
  obtain e where e: "opus_new example_library (audio_opus_config ?config) = Ok e"
    by (simp add: opus_new_def audio_opus_config_def opus_config_default_def example_library_def)
  have n: "[0..<2] = [0, Suc 0]" by (simp add: upt_rec)
  have rec: "recording example_audio = replicate 100 7 @ replicate 300 8"
    by (simp add: example_audio_def)
  have "take 160 (recording example_audio) = replicate 100 7 @ replicate 60 8"
    "take 160 (drop 160 (recording example_audio)) = replicate 160 8" unfolding rec by simp_all
  moreover have "u32_be 1 = [0, 0, 0, 1]" "u32_be 2 = [0, 0, 0, 2]" by code_simp+
  ultimately show ?thesis
    using e audio_loop_packets [of "\<lambda>n rate. n * 1000000000 div rate" example_library 0 "\<lambda>_. True" ?config "Inr example_audio" e
        "\<lambda>xs. [of_nat (sum_list xs)]"]
    by (simp add: Let_def rec n sum_list_replicate audio_packet_def example_library_def example_audio_def)
qed

end
