(* ===== verification/Cursor.thy ===== *)
theory Cursor
  imports Core_Types
begin

text \<open>
  Mouse cursors (\<open>flux-capture/src/cursor.rs\<close>, the cursor parts of \<open>pipewire_source.rs\<close> and of
  \<open>flux-server/src/capture_loop.rs\<close>): decoding the PipeWire cursor region, converting a DXGI pointer shape,
  scaling a shape to the stream, and handing updates on.  The 32-bit arithmetic of the scaler wraps,
  \<open>usize\<close> has 64 bits, and the byte order is little-endian.  The results of the \<open>f32\<close> arithmetic are
  parameters.
\<close>

unbundle bit_operations_syntax

section \<open>The PipeWire cursor region\<close>

definition CURSOR_HEADER_LEN :: nat where "CURSOR_HEADER_LEN = 28"
definition BITMAP_HEADER_LEN :: nat where "BITMAP_HEADER_LEN = 20"

definition get_range :: "'a list \<Rightarrow> nat \<Rightarrow> nat \<Rightarrow> 'a list option" where
  "get_range buf from len = (if from + len \<le> length buf then Some (take len (drop from buf)) else None)"

definition read_u32 :: "byte list \<Rightarrow> nat \<Rightarrow> u32 option" where
  "read_u32 buf at = map_option u32_of_le (get_range buf at 4)"

definition read_i32 :: "byte list \<Rightarrow> nat \<Rightarrow> int option" where
  "read_i32 buf at = map_option (\<lambda>bs. sint (u32_of_le bs)) (get_range buf at 4)"

text \<open>No sum or product of the 32-bit fields exceeds 64 bits, so the checked operations succeed.\<close>

definition parse_bitmap :: "byte list \<Rightarrow> nat \<Rightarrow> cursor_bitmap option" where
  "parse_bitmap buf base =
     Option.bind (get_range buf base BITMAP_HEADER_LEN) (\<lambda>header.
     Option.bind (read_u32 header 0) (\<lambda>fmt.
     if fmt = 0 then None else
     Option.bind (read_u32 header 4) (\<lambda>w.
     Option.bind (read_u32 header 8) (\<lambda>h.
     Option.bind (read_i32 header 12) (\<lambda>str.
     Option.bind (read_u32 header 16) (\<lambda>pixels_offset.
     if str < 0 then None else
     Option.bind (get_range buf (base + unat pixels_offset) (nat str * unat h)) (\<lambda>pixels.
     Some \<lparr>cb_width = w, cb_height = h, cb_stride = word_of_int str, cb_format = fmt, cb_pixels = pixels\<rparr>)))))))"

definition parse_spa_meta_cursor :: "byte list \<Rightarrow> cursor_metadata option" where
  "parse_spa_meta_cursor buf =
     (if length buf < CURSOR_HEADER_LEN then None else
      Option.bind (read_u32 buf 0) (\<lambda>id.
      if id = 0 then Some cursor_hidden else
      Option.bind (read_i32 buf 8) (\<lambda>px.
      Option.bind (read_i32 buf 12) (\<lambda>py.
      Option.bind (read_i32 buf 16) (\<lambda>hx.
      Option.bind (read_i32 buf 20) (\<lambda>hy.
      Option.bind (read_u32 buf 24) (\<lambda>bitmap_offset.
      Some \<lparr>cm_position = Some (px, py), cm_hotspot = (hx, hy),
            cm_bitmap = if bitmap_offset = 0 then None else parse_bitmap buf (unat bitmap_offset)\<rparr>)))))))"

text \<open>The layout: a header, then a bitmap header and the pixels.\<close>

definition i32_le :: "int \<Rightarrow> byte list" where
  "i32_le i = u32_le (word_of_int i)"

definition cursor_bytes ::
  "u32 \<Rightarrow> int \<times> int \<Rightarrow> int \<times> int \<Rightarrow> (u32 \<times> u32 \<times> u32 \<times> int \<times> byte list) option \<Rightarrow> byte list" where
  "cursor_bytes cid pos hotspot bitmap =
     u32_le cid @ u32_le 0 @ i32_le (fst pos) @ i32_le (snd pos) @ i32_le (fst hotspot) @ i32_le (snd hotspot)
     @ (case bitmap of
          None \<Rightarrow> u32_le 0
        | Some (fmt, w, h, str, pixels) \<Rightarrow>
            u32_le (word_of_nat CURSOR_HEADER_LEN) @ u32_le fmt @ u32_le w @ u32_le h @ i32_le str
            @ u32_le (word_of_nat BITMAP_HEADER_LEN) @ pixels)"

section \<open>Painting\<close>

text \<open>Four bytes are written at a place of the target, for each pixel of a picture, row by row.\<close>

definition put4 :: "nat \<Rightarrow> byte list \<Rightarrow> byte list \<Rightarrow> byte list outcome" where
  "put4 dst colour buf =
     (if dst + 4 \<le> length buf then Done (take dst buf @ colour @ drop (dst + 4) buf) else Panicked)"

fun paint ::
  "(nat \<times> nat \<Rightarrow> byte list outcome) \<Rightarrow> (nat \<times> nat \<Rightarrow> nat) \<Rightarrow> (nat \<times> nat) list \<Rightarrow> byte list \<Rightarrow> byte list outcome" where
  "paint colour dst [] buf = Done buf"
| "paint colour dst (p # ps) buf =
     (case colour p of
        Panicked \<Rightarrow> Panicked
      | Done c \<Rightarrow> (case put4 (dst p) c buf of Panicked \<Rightarrow> Panicked | Done buf \<Rightarrow> paint colour dst ps buf))"

section \<open>DXGI pointer shapes\<close>

definition MONOCHROME :: u32 where "MONOCHROME = 1"
definition COLOR :: u32 where "COLOR = 2"
definition MASKED_COLOR :: u32 where "MASKED_COLOR = 4"

definition color_pixel :: "u32 \<Rightarrow> nat \<Rightarrow> byte list \<Rightarrow> nat \<times> nat \<Rightarrow> byte list outcome" where
  "color_pixel shape_type pitch data = (\<lambda>(y, x).
     let src = y * pitch + x * 4 in
     if src + 3 < length data
     then Done [data ! (src + 2), data ! (src + 1), data ! src, if shape_type = COLOR then data ! (src + 3) else 255]
     else Panicked)"

definition mono_pixel :: "nat \<Rightarrow> nat \<Rightarrow> byte list \<Rightarrow> nat \<times> nat \<Rightarrow> byte list outcome" where
  "mono_pixel pitch mask_len data = (\<lambda>(y, x).
     let byte = drop_bit (x mod 8) 0x80; offset = y * pitch + x div 8 in
     if mask_len + offset < length data
     then (let and_bit = data ! offset AND byte \<noteq> 0; xor_bit = data ! (mask_len + offset) AND byte \<noteq> 0 in
           Done (if and_bit \<and> \<not> xor_bit then [0, 0, 0, 0]
                 else if xor_bit then [255, 255, 255, 255] else [0, 0, 0, 255]))
     else Panicked)"

text \<open>\<open>checked_mul\<close> of \<open>usize\<close>.\<close>

definition fits64 :: "nat \<Rightarrow> bool" where
  "fits64 n \<longleftrightarrow> n < 2 ^ 64"

definition convert_dxgi_pointer_shape ::
  "u32 \<Rightarrow> u32 \<Rightarrow> u32 \<Rightarrow> u32 \<Rightarrow> byte list \<Rightarrow> cursor_bitmap option outcome" where
  "convert_dxgi_pointer_shape shape_type w_word h_word pitch_word data =
     (let w = unat w_word; h = unat h_word; pitch = unat pitch_word; output_stride = w * 4;
          positions = List.product [0..<h] [0..<w]; dst = (\<lambda>(y, x). y * output_stride + x * 4);
          result = map_outcome (\<lambda>pixels. Some \<lparr>cb_width = w_word, cb_height = h_word, cb_stride = word_of_nat output_stride,
                     cb_format = CURSOR_FORMAT_RGBA8888, cb_pixels = pixels\<rparr>) in
      if w = 0 \<or> h = 0 \<or> pitch = 0 then Done None
      else if \<not> fits64 (output_stride * h) then Done None
      else if shape_type = COLOR \<or> shape_type = MASKED_COLOR
      then (if \<not> fits64 (pitch * h) \<or> length data < pitch * h \<or> pitch < output_stride then Done None
            else result (paint (color_pixel shape_type pitch data) dst positions (replicate (output_stride * h) 0)))
      else if shape_type = MONOCHROME
      then (if pitch < (w + 7) div 8 then Done None
            else if \<not> fits64 (pitch * h * 2) \<or> length data < pitch * h * 2 then Done None
            else result (paint (mono_pixel pitch (pitch * h) data) dst positions (replicate (output_stride * h) 0)))
      else Done None)"

section \<open>Scaling\<close>

text \<open>An axis: whether its factor is one, the rounded target size of a size, and the source coordinate
  of a target coordinate before it is limited to the source.\<close>

record axis =
  ax_unit :: bool
  ax_size :: "nat \<Rightarrow> nat"
  ax_source :: "nat \<Rightarrow> nat"

definition wrap32 :: "nat \<Rightarrow> nat" where
  "wrap32 n = n mod 2 ^ 32"

definition pred32 :: "nat \<Rightarrow> nat" where
  "pred32 n = wrap32 (n + (2 ^ 32 - 1))"

definition source_pixel :: "axis \<Rightarrow> axis \<Rightarrow> cursor_bitmap \<Rightarrow> nat \<times> nat \<Rightarrow> byte list outcome" where
  "source_pixel sx sy b = (\<lambda>(y, x).
     let source_x = min (ax_source sx x) (pred32 (unat (cb_width b)));
         source_y = min (ax_source sy y) (pred32 (unat (cb_height b)));
         src = wrap32 (source_y * unat (cb_stride b) + source_x * 4)
     in if src + 4 \<le> length (cb_pixels b) then Done (take 4 (drop src (cb_pixels b))) else Panicked)"

definition scale_cursor_bitmap :: "axis \<Rightarrow> axis \<Rightarrow> cursor_bitmap \<Rightarrow> cursor_bitmap outcome" where
  "scale_cursor_bitmap sx sy b =
     (if ax_unit sx \<and> ax_unit sy then Done b
      else let w = max 1 (ax_size sx (unat (cb_width b))); h = max 1 (ax_size sy (unat (cb_height b)));
               str = wrap32 (w * 4) in
           map_outcome (\<lambda>pixels. \<lparr>cb_width = word_of_nat w, cb_height = word_of_nat h, cb_stride = word_of_nat str,
                         cb_format = cb_format b, cb_pixels = pixels\<rparr>)
             (paint (source_pixel sx sy b) (\<lambda>(y, x). wrap32 (y * str + x * 4)) (List.product [0..<h] [0..<w])
                (replicate (wrap32 (str * h)) 0)))"

section \<open>Updates\<close>

text \<open>The sink of the capture loop: positions and shapes are scaled from the captured size to the encoded
  one.  \<open>ax_x\<close> and \<open>ax_y\<close> round a scaled coordinate.\<close>

definition cursor_sink ::
  "axis \<Rightarrow> axis \<Rightarrow> (int \<Rightarrow> int) \<Rightarrow> (int \<Rightarrow> int) \<Rightarrow> cursor_metadata \<Rightarrow> cursor_metadata outcome" where
  "cursor_sink sx sy ax_x ax_y m =
     (let m = m\<lparr>cm_position := map_option (\<lambda>(x, y). (ax_x x, ax_y y)) (cm_position m)\<rparr> in
      case cm_bitmap m of
        None \<Rightarrow> Done m
      | Some b \<Rightarrow> map_outcome (\<lambda>b. m\<lparr>cm_bitmap := Some b\<rparr>) (scale_cursor_bitmap sx sy b))"

definition cursor_changed :: "cursor_metadata option \<Rightarrow> cursor_metadata \<Rightarrow> bool" where
  "cursor_changed prev new \<longleftrightarrow>
     cm_bitmap new \<noteq> None
     \<or> (case prev of None \<Rightarrow> True | Some l \<Rightarrow> cm_position l \<noteq> cm_position new \<or> cm_hotspot l \<noteq> cm_hotspot new)"

text \<open>The cursor of one PipeWire buffer: parsed, compared, and handed to the sink.\<close>

definition process_cursor ::
  "byte list option \<Rightarrow> cursor_metadata option \<Rightarrow> cursor_metadata option \<times> cursor_metadata option" where
  "process_cursor meta prev =
     (case Option.bind meta parse_spa_meta_cursor of
        None \<Rightarrow> (None, prev)
      | Some update \<Rightarrow> if cursor_changed prev update then (Some update, Some update) else (None, prev))"

section \<open>Painted pictures\<close>

lemma paint_pixels:
  assumes "\<And>p. p \<in> set ps \<Longrightarrow> colour p = Done (c p) \<and> length (c p) = 4"
    "\<And>i. i < length ps \<Longrightarrow> dst (ps ! i) = 4 * (j + i)" "length pre = 4 * j" "4 * length ps \<le> length post"
  shows "paint colour dst ps (pre @ post) = Done (pre @ concat (map c ps) @ drop (4 * length ps) post)"
  using assms
proof (induction ps arbitrary: j pre post)
  case (Cons p ps)
  have c: "colour p = Done (c p)" "length (c p) = 4" using Cons.prems(1) by simp_all
  have d: "dst p = 4 * j" using Cons.prems(2) [of 0] by simp
  have "put4 (dst p) (c p) (pre @ post) = Done ((pre @ c p) @ drop 4 post)"
    using Cons.prems(3,4) by (simp add: put4_def d)
  moreover have "paint colour dst ps ((pre @ c p) @ drop 4 post)
      = Done ((pre @ c p) @ concat (map c ps) @ drop (4 * length ps) (drop 4 post))"
  proof (rule Cons.IH [where j = "j + 1"])
    show "dst (ps ! i) = 4 * (j + 1 + i)" if "i < length ps" for i
      using Cons.prems(2) [of "Suc i"] that by simp
  qed (use Cons.prems c in auto)
  ultimately show ?case by (simp add: c add.commute)
qed simp

lemma paint_picture:
  assumes "\<And>y x. y < h \<Longrightarrow> x < w \<Longrightarrow> colour (y, x) = Done (c (y, x)) \<and> length (c (y, x)) = 4"
    "\<And>y x. y < h \<Longrightarrow> x < w \<Longrightarrow> dst (y, x) = y * (w * 4) + x * 4" "n = w * 4 * h"
  shows "paint colour dst (List.product [0..<h] [0..<w]) (replicate n 0)
    = Done (concat (map c (List.product [0..<h] [0..<w])))"
proof -
  let ?ps = "List.product [0..<h] [0..<w]"
  have "dst (?ps ! i) = 4 * (0 + i)" if "i < length ?ps" for i
  proof -
    from that have i: "i < h * w" by simp
    then have "0 < w" by (cases w) auto
    then have "i div w < h" "i mod w < w" using i by (simp_all add: less_mult_imp_div_less)
    then have "dst (?ps ! i) = i div w * (w * 4) + i mod w * 4"
      using i assms(2) by (simp add: List.product_nth)
    also have "\<dots> = 4 * (i div w * w + i mod w)" by (simp only: add_mult_distrib2 mult.assoc mult.commute [of 4] mult.left_commute)
    finally show ?thesis by simp
  qed
  from paint_pixels [of ?ps colour c dst 0 "[]" "replicate n 0", OF _ this] assms show ?thesis by auto
qed

lemma nth_piece:
  assumes "\<And>p. p \<in> set ps \<Longrightarrow> length (c p) = 4" "i < length ps"
  shows "take 4 (drop (4 * i) (concat (map c ps))) = c (ps ! i)"
  using assms
proof (induction ps arbitrary: i)
  case (Cons p ps)
  then show ?case by (cases i) simp_all
qed simp

lemma length_pieces: "(\<And>p. p \<in> set ps \<Longrightarrow> length (c p) = 4) \<Longrightarrow> length (concat (map c ps)) = 4 * length ps"
  by (induction ps) simp_all

text \<open>A bitmap whose rows hold their pixels, and a pixel of it.\<close>

definition picture :: "cursor_bitmap \<Rightarrow> bool" where
  "picture b \<longleftrightarrow> 0 < unat (cb_width b) \<and> 0 < unat (cb_height b) \<and> 4 * unat (cb_width b) \<le> unat (cb_stride b)
     \<and> length (cb_pixels b) = unat (cb_stride b) * unat (cb_height b) \<and> length (cb_pixels b) < 2 ^ 32"

definition pixel :: "cursor_bitmap \<Rightarrow> nat \<Rightarrow> nat \<Rightarrow> byte list" where
  "pixel b x y = take 4 (drop (y * unat (cb_stride b) + x * 4) (cb_pixels b))"

lemma painted_picture:
  fixes fmt :: u32
  assumes "\<And>y x. y < unat h \<Longrightarrow> x < unat w \<Longrightarrow> length (c (y, x)) = 4" "0 < unat w" "0 < unat h" "unat w * 4 * unat h < 2 ^ 32"
  defines "b \<equiv> \<lparr>cb_width = w, cb_height = h, cb_stride = word_of_nat (unat w * 4), cb_format = fmt,
     cb_pixels = concat (map c (List.product [0..<unat h] [0..<unat w]))\<rparr>"
  shows "picture b" and "x < unat w \<Longrightarrow> y < unat h \<Longrightarrow> pixel b x y = c (y, x)"
proof -
  let ?ps = "List.product [0..<unat h] [0..<unat w]"
  have "unat w * 4 * 1 \<le> unat w * 4 * unat h" using assms(3) by (intro mult_le_mono2) simp
  then have small: "unat w * 4 < 2 ^ 32" using assms(4) by linarith
  then have str: "unat (word_of_nat (unat w * 4) :: u32) = unat w * 4" unfolding unat_of_nat by simp
  then have str: "unat (w * 4) = unat w * 4" by simp
  have four: "length (c p) = 4" if "p \<in> set ?ps" for p using that assms(1) by auto
  show "picture b"
    using assms(2-4) length_pieces [of ?ps c, OF four] by (simp add: picture_def b_def str mult.commute)
  assume x: "x < unat w" and y: "y < unat h"
  have "y * unat w + x < unat h * unat w"
    using x y by (metis add.commute mult.commute nat_add_left_cancel_less mult_Suc less_le_trans Suc_leI mult_le_mono1 add_less_mono1)
  then have i: "y * unat w + x < length ?ps" and "?ps ! (y * unat w + x) = (y, x)"
    using x y by (simp_all add: List.product_nth)
  then show "pixel b x y = c (y, x)"
    using nth_piece [of ?ps c "y * unat w + x", OF four i] by (simp add: pixel_def b_def str algebra_simps)
qed

lemma wrap32_small [simp]: "n < 2 ^ 32 \<Longrightarrow> wrap32 n = n"
  by (simp add: wrap32_def)

lemma pred32_pos [simp]: "0 < unat w \<Longrightarrow> pred32 (unat (w :: u32)) = unat w - 1"
proof -
  assume "0 < unat w"
  then have e: "unat w + (2 ^ 32 - 1) = unat w - 1 + 2 ^ 32" by simp
  have "unat w < 2 ^ 32" using unsigned_less [of w, where ?'a = nat] by simp
  then show ?thesis
    unfolding pred32_def wrap32_def e mod_add_self2 by (intro mod_less) linarith
qed

lemma inside_picture:
  "y < h \<Longrightarrow> x < w \<Longrightarrow> 4 * w \<le> (s :: nat) \<Longrightarrow> y * s + x * 4 + 4 \<le> s * h"
proof -
  assume "y < h" "x < w" "4 * w \<le> s"
  then have "s + y * s \<le> h * s" by (metis Suc_leI mult_Suc mult_le_mono1)
  moreover have "x * 4 + 4 \<le> s" using \<open>x < w\<close> \<open>4 * w \<le> s\<close> by linarith
  ultimately show ?thesis unfolding mult.commute [of s h] by linarith
qed

lemma source_pixel_picture:
  assumes "picture b"
  shows "source_pixel sx sy b (y, x)
      = Done (pixel b (min (ax_source sx x) (unat (cb_width b) - 1)) (min (ax_source sy y) (unat (cb_height b) - 1)))
    \<and> length (pixel b (min (ax_source sx x) (unat (cb_width b) - 1)) (min (ax_source sy y) (unat (cb_height b) - 1))) = 4"
proof -
  define i where "i = min (ax_source sx x) (unat (cb_width b) - 1)"
  define j where "j = min (ax_source sy y) (unat (cb_height b) - 1)"
  have "i < unat (cb_width b)" "j < unat (cb_height b)" using assms by (auto simp: i_def j_def picture_def)
  from inside_picture [OF this(2,1)] have in_range: "j * unat (cb_stride b) + i * 4 + 4 \<le> length (cb_pixels b)"
    using assms by (simp add: picture_def)
  then have w: "wrap32 (j * unat (cb_stride b) + i * 4) = j * unat (cb_stride b) + i * 4"
    using assms by (intro wrap32_small) (simp add: picture_def)
  have p: "pred32 (unat (cb_width b)) = unat (cb_width b) - 1" "pred32 (unat (cb_height b)) = unat (cb_height b) - 1"
    using assms by (simp_all add: picture_def)
  show ?thesis
    using in_range unfolding source_pixel_def prod.case Let_def p i_def [symmetric] j_def [symmetric] w by (simp add: pixel_def)
qed

lemma scale_picture:
  assumes b: "picture b" and unit: "\<not> (ax_unit sx \<and> ax_unit sy)"
  defines "w \<equiv> max 1 (ax_size sx (unat (cb_width b)))" and "h \<equiv> max 1 (ax_size sy (unat (cb_height b)))"
  assumes small: "w * 4 * h < 2 ^ 32"
  shows "\<exists>b'. scale_cursor_bitmap sx sy b = Done b' \<and> picture b' \<and> unat (cb_width b') = w \<and> unat (cb_height b') = h
     \<and> (\<forall>x y. x < w \<longrightarrow> y < h \<longrightarrow> pixel b' x y =
          pixel b (min (ax_source sx x) (unat (cb_width b) - 1)) (min (ax_source sy y) (unat (cb_height b) - 1)))"
proof -
  define c where "c = (\<lambda>(y, x). pixel b (min (ax_source sx x) (unat (cb_width b) - 1)) (min (ax_source sy y) (unat (cb_height b) - 1)))"
  have pos: "0 < w" "0 < h" by (simp_all add: w_def h_def)
  then have "w * 4 * 1 \<le> w * 4 * h" "w * 1 \<le> w * 4" "1 * h \<le> w * 4 * h" by (simp_all del: mult_1_right)
  then have lt: "w * 4 < 2 ^ 32" "w < 2 ^ 32" "h < 2 ^ 32" using small by linarith+
  then have u: "unat (word_of_nat w :: u32) = w" "unat (word_of_nat h :: u32) = h" by (simp_all add: unat_of_nat)
  have in_range: "y * (w * 4) + x * 4 < 2 ^ 32" if "y < h" "x < w" for x y
    using inside_picture [OF that, of "w * 4"] by (intro le_less_trans [OF _ small]) linarith
  have four: "length (c (y, x)) = 4" for y x using source_pixel_picture [OF b, of sx sy y x] by (simp add: c_def)
  have "paint (source_pixel sx sy b) (\<lambda>(y, x). wrap32 (y * (w * 4) + x * 4)) (List.product [0..<h] [0..<w])
      (replicate (w * 4 * h) 0) = Done (concat (map c (List.product [0..<h] [0..<w])))"
    using source_pixel_picture [OF b, of sx sy] in_range by (intro paint_picture) (simp_all add: c_def)
  then have "scale_cursor_bitmap sx sy b = Done \<lparr>cb_width = word_of_nat w, cb_height = word_of_nat h,
      cb_stride = word_of_nat (w * 4), cb_format = cb_format b, cb_pixels = concat (map c (List.product [0..<h] [0..<w]))\<rparr>"
    using unit small lt unfolding scale_cursor_bitmap_def w_def [symmetric] h_def [symmetric] by (auto simp: Let_def)
  then show ?thesis
    using painted_picture [where c = c and w = "word_of_nat w" and h = "word_of_nat h" and fmt = "cb_format b"] four pos small
    by (simp add: u c_def)
qed

lemma scale_without_pixels:
  assumes "cb_pixels b = []" "\<not> (ax_unit sx \<and> ax_unit sy)"
  shows "scale_cursor_bitmap sx sy b = Panicked"
proof -
  define w where "w = max 1 (ax_size sx (unat (cb_width b)))"
  define h where "h = max 1 (ax_size sy (unat (cb_height b)))"
  have "[0..<h] = 0 # [1..<h]" "[0..<w] = 0 # [1..<w]" by (auto simp: w_def h_def upt_conv_Cons)
  then obtain rest where "List.product [0..<h] [0..<w] = (0, 0) # rest" by simp
  moreover have "source_pixel sx sy b p = Panicked" for p
    using assms(1) by (cases p) (simp add: source_pixel_def)
  ultimately show ?thesis
    using assms(2) unfolding scale_cursor_bitmap_def w_def [symmetric] h_def [symmetric] by (auto simp: Let_def)
qed

lemma convert_painted:
  assumes ok: "\<And>y x. y < unat h \<Longrightarrow> x < unat w \<Longrightarrow> \<exists>c. colour (y, x) = Done c \<and> length c = 4"
    and pos: "0 < unat w" "0 < unat h" and small: "unat w * 4 * unat h < 2 ^ 32"
  shows "\<exists>b. map_outcome (\<lambda>pixels. Some \<lparr>cb_width = w, cb_height = h, cb_stride = word_of_nat (unat w * 4),
        cb_format = CURSOR_FORMAT_RGBA8888, cb_pixels = pixels\<rparr>)
      (paint colour (\<lambda>(y, x). y * (unat w * 4) + x * 4) (List.product [0..<unat h] [0..<unat w]) (replicate (unat w * 4 * unat h) 0))
        = Done (Some b) \<and> picture b \<and> cb_width b = w \<and> cb_height b = h \<and> cb_format b = CURSOR_FORMAT_RGBA8888
     \<and> (\<forall>x y. x < unat w \<longrightarrow> y < unat h \<longrightarrow> Done (pixel b x y) = colour (y, x))"
proof -
  define c where "c p = (case colour p of Done c \<Rightarrow> c)" for p
  have c: "colour (y, x) = Done (c (y, x)) \<and> length (c (y, x)) = 4" if "y < unat h" "x < unat w" for y x
    using ok [OF that] by (auto simp: c_def)
  note paint_picture [of "unat h" "unat w" colour c "\<lambda>(y, x). y * (unat w * 4) + x * 4" "unat w * 4 * unat h", OF c _ refl]
  then show ?thesis
    using painted_picture [where c = c and w = w and h = h and fmt = CURSOR_FORMAT_RGBA8888] c pos small by simp
qed

lemma color_pixel_inside:
  assumes "y < h" "x < w" "4 * w \<le> pitch" "pitch * h \<le> length data"
  shows "\<exists>c. color_pixel ty pitch data (y, x) = Done c \<and> length c = 4"
  using inside_picture [OF assms(1-3)] assms(4) by (simp add: color_pixel_def Let_def)

lemma mono_pixel_inside:
  assumes "y < h" "x < w" "(w + 7) div 8 \<le> pitch" "pitch * h * 2 \<le> length data"
  shows "\<exists>c. mono_pixel pitch (pitch * h) data (y, x) = Done c \<and> length c = 4"
proof -
  have "Suc y * pitch \<le> h * pitch" using assms(1) by (intro mult_le_mono1) simp
  moreover have "x div 8 < pitch" using assms(2,3) by linarith
  ultimately have "y * pitch + x div 8 < pitch * h" by (simp add: mult.commute)
  then show ?thesis using assms(4) by (simp add: mono_pixel_def Let_def)
qed

lemma converted_size:
  assumes "length data \<le> 2 ^ 20" "pitch * h * k \<le> length data" "w \<le> 8 * pitch" "0 < k"
  shows "w * 4 * h \<le> (2 :: nat) ^ 25"
proof -
  have "w * 4 * h \<le> 8 * pitch * 4 * h" using assms(3) by (intro mult_le_mono1) auto
  also have "\<dots> = 32 * (pitch * h * 1)" by simp
  also have "\<dots> \<le> 32 * (pitch * h * k)" using assms(4) by (intro mult_le_mono2) simp
  also have "\<dots> \<le> 32 * 2 ^ 20" using assms(1,2) by (intro mult_le_mono2) simp
  finally show ?thesis by simp
qed

lemma convert_picture:
  assumes data: "length data \<le> 2 ^ 20"
  shows "\<exists>r. convert_dxgi_pointer_shape ty w h pitch data = Done r \<and> (case r of None \<Rightarrow> True | Some b \<Rightarrow>
     picture b \<and> cb_width b = w \<and> cb_height b = h \<and> cb_format b = CURSOR_FORMAT_RGBA8888
     \<and> unat w * 4 * unat h \<le> 2 ^ 25
     \<and> (\<forall>x y. x < unat w \<longrightarrow> y < unat h \<longrightarrow>
          Done (pixel b x y) = (if ty = MONOCHROME then mono_pixel (unat pitch) (unat pitch * unat h) data (y, x)
                               else color_pixel ty (unat pitch) data (y, x))))"
proof -
  let ?color = "(ty = COLOR \<or> ty = MASKED_COLOR) \<and> unat pitch * unat h \<le> length data \<and> unat w * 4 \<le> unat pitch \<and> fits64 (unat pitch * unat h)"
  let ?mono = "ty = MONOCHROME \<and> (unat w + 7) div 8 \<le> unat pitch \<and> unat pitch * unat h * 2 \<le> length data \<and> fits64 (unat pitch * unat h * 2)"
  let ?sized = "0 < unat w \<and> 0 < unat h \<and> 0 < unat pitch \<and> fits64 (unat w * 4 * unat h)"
  consider (color) "?sized \<and> ?color" | (mono) "?sized \<and> ?mono" | (none) "\<not> (?sized \<and> ?color)" "\<not> (?sized \<and> ?mono)" by blast
  then show ?thesis
  proof cases
    case color
    have size: "unat w * 4 * unat h \<le> 2 ^ 25"
      using converted_size [OF data, of "unat pitch" "unat h" 1 "unat w"] color by simp
    then have "unat w * 4 * unat h < 2 ^ 32" by (rule le_less_trans) simp
    then show ?thesis
      using size convert_painted [of h w "color_pixel ty (unat pitch) data"] color color_pixel_inside [of _ "unat h" _ "unat w" "unat pitch" data ty]
      unfolding convert_dxgi_pointer_shape_def Let_def
      by (auto simp: MONOCHROME_def COLOR_def MASKED_COLOR_def mult.commute [of 4])
  next
    case mono
    have size: "unat w * 4 * unat h \<le> 2 ^ 25"
      using converted_size [OF data, of "unat pitch" "unat h" 2 "unat w"] mono by auto
    then have "unat w * 4 * unat h < 2 ^ 32" by (rule le_less_trans) simp
    then show ?thesis
      using size convert_painted [of h w "mono_pixel (unat pitch) (unat pitch * unat h) data"] mono
        mono_pixel_inside [of _ "unat h" _ "unat w" "unat pitch" data]
      unfolding convert_dxgi_pointer_shape_def Let_def
      by (auto simp: MONOCHROME_def COLOR_def MASKED_COLOR_def)
  next
    case none
    then have "convert_dxgi_pointer_shape ty w h pitch data = Done None"
      unfolding convert_dxgi_pointer_shape_def Let_def
      by (cases ?sized; cases "ty = COLOR \<or> ty = MASKED_COLOR"; simp only: not_less [symmetric] not_le; (simp; fail)?) auto
    then show ?thesis by simp
  qed
qed

section \<open>Properties\<close>


end
