(* ===== verification/Dxgi.thy ===== *)
theory Dxgi
  imports Cursor
begin

text \<open>
  Desktop duplication on Windows: the pacing of deliveries (\<open>flux-capture/src/pacing.rs\<close>) and the
  capture session (\<open>flux-capture/src/backend/dxgi.rs\<close>) with its ring of shared textures, heartbeats and
  pointer updates.  Times are nanoseconds.  The answers of the graphics interfaces and the times at
  which the code reads the clock are inputs; what the session does to the world, writing a surface,
  handing a frame out, sending a pointer update, is a list of effects.
\<close>

section \<open>Pacing\<close>

record capture_pacer =
  cp_interval :: nat
  cp_next_due :: "nat option"

definition pacer_new :: "nat \<Rightarrow> capture_pacer" where
  "pacer_new interval = \<lparr>cp_interval = interval, cp_next_due = None\<rparr>"

definition tolerance :: "capture_pacer \<Rightarrow> nat" where
  "tolerance p = cp_interval p div 10"

definition is_due :: "nat \<Rightarrow> capture_pacer \<Rightarrow> bool" where
  "is_due now p = (case cp_next_due p of Some due \<Rightarrow> due \<le> now + tolerance p | None \<Rightarrow> True)"

definition time_until_due :: "nat \<Rightarrow> capture_pacer \<Rightarrow> nat" where
  "time_until_due now p =
     (if is_due now p then 0
      else case cp_next_due p of None \<Rightarrow> 0 | Some due \<Rightarrow> due - tolerance p - now)"

definition mark_delivered :: "nat \<Rightarrow> capture_pacer \<Rightarrow> capture_pacer" where
  "mark_delivered now p =
     (let grid = (case cp_next_due p of Some due \<Rightarrow> due | None \<Rightarrow> now) + cp_interval p in
      p\<lparr>cp_next_due := Some (if grid \<le> now then now + cp_interval p else max grid (now + cp_interval p div 2))\<rparr>)"

section \<open>The session\<close>

definition DXGI_HEARTBEAT_INTERVAL :: nat where "DXGI_HEARTBEAT_INTERVAL = 250 * 10 ^ 6"
definition IN_FLIGHT_DEPTH :: nat where "IN_FLIGHT_DEPTH = 2"
definition DXGI_SHARED_TEXTURE_RING_SIZE :: nat where "DXGI_SHARED_TEXTURE_RING_SIZE = 3"

text \<open>The surfaces are given by whether they have a scaler view; the pointer scaling by two axes and the
  rounding of a scaled coordinate.\<close>

record pointer_scale =
  ps_x :: axis
  ps_y :: axis
  ps_round_x :: "int \<Rightarrow> int"
  ps_round_y :: "int \<Rightarrow> int"

record dxgi_session =
  dx_surfaces :: "bool list"
  dx_delivered :: "nat option list"
  dx_pending :: "nat option"
  dx_resolution :: resolution
  dx_scaler :: bool
  dx_pacer :: capture_pacer
  dx_sequence :: nat
  dx_running :: bool
  dx_last_delivery :: nat
  dx_has_copied :: bool
  dx_cursor_sink :: bool
  dx_cursor_bitmap :: "cursor_bitmap option"
  dx_cursor_hotspot :: "int \<times> int"
  dx_cursor_scale :: pointer_scale

datatype dxgi_effect =
    AskedFrame nat
  | SentCursor cursor_metadata
  | WroteSurface nat
  | GaveFrame nat nat

text \<open>\<open>desktop\<close>: the mode of the duplicated output, or the error of one of the creation calls.\<close>

definition dxgi_session_new ::
  "flux_error + resolution \<Rightarrow> (resolution \<Rightarrow> resolution \<Rightarrow> pointer_scale) \<Rightarrow> resolution \<Rightarrow> nat \<Rightarrow> bool \<Rightarrow> nat
     \<Rightarrow> (flux_error + dxgi_session) outcome" where
  "dxgi_session_new created scale requested framerate sink now =
     (case created of
        Inl e \<Rightarrow> Done (Err e)
      | Inr desktop \<Rightarrow>
          let output = (if 0 < width requested \<and> 0 < height requested
                          \<and> (width requested < width desktop \<or> height requested < height desktop)
                        then requested else desktop);
              scaler = (output \<noteq> desktop)
          in if framerate = 0 then Panicked
             else Done (Ok
               \<lparr>dx_surfaces = replicate DXGI_SHARED_TEXTURE_RING_SIZE scaler,
                dx_delivered = replicate IN_FLIGHT_DEPTH None, dx_pending = None, dx_resolution = output,
                dx_scaler = scaler, dx_pacer = pacer_new (1000000 div framerate * 1000), dx_sequence = 0,
                dx_running = True, dx_last_delivery = now, dx_has_copied = False, dx_cursor_sink = sink,
                dx_cursor_bitmap = None, dx_cursor_hotspot = (0, 0), dx_cursor_scale = scale output desktop\<rparr>))"

subsection \<open>Pointer updates\<close>

record frame_info =
  fi_mouse_time :: nat
  fi_shape_size :: nat
  fi_visible :: bool
  fi_position :: "int \<times> int"
  fi_present_time :: nat

text \<open>The shape call: its error, or the filled buffer, the size it reports and the description.\<close>

record pointer_shape =
  sh_data :: "byte list"
  sh_required :: nat
  sh_type :: u32
  sh_width :: u32
  sh_height :: u32
  sh_pitch :: u32
  sh_hotspot :: "int \<times> int"

definition round_point :: "pointer_scale \<Rightarrow> int \<times> int \<Rightarrow> int \<times> int" where
  "round_point sc = (\<lambda>(x, y). (ps_round_x sc x, ps_round_y sc y))"

definition take_shape :: "frame_info \<Rightarrow> string + pointer_shape \<Rightarrow> dxgi_session \<Rightarrow> dxgi_session outcome" where
  "take_shape info got s =
     (if fi_shape_size info = 0 \<or> fi_shape_size info > 1024 * 1024 then Done s
      else case got of
             Inl e \<Rightarrow> Done s
           | Inr shape \<Rightarrow>
               let size' = fi_shape_size info;
                   data = take (if sh_required shape = 0 then size' else min (sh_required shape) size') (sh_data shape)
               in case convert_dxgi_pointer_shape (sh_type shape) (sh_width shape) (sh_height shape) (sh_pitch shape) data of
                    Panicked \<Rightarrow> Panicked
                  | Done None \<Rightarrow> Done s
                  | Done (Some bitmap) \<Rightarrow>
                      map_outcome (\<lambda>b. s\<lparr>dx_cursor_bitmap := Some b,
                           dx_cursor_hotspot := round_point (dx_cursor_scale s) (sh_hotspot shape)\<rparr>)
                        (scale_cursor_bitmap (ps_x (dx_cursor_scale s)) (ps_y (dx_cursor_scale s)) bitmap))"

definition pointer_metadata :: "frame_info \<Rightarrow> dxgi_session \<Rightarrow> cursor_metadata" where
  "pointer_metadata info s =
     (if fi_visible info
      then \<lparr>cm_position = Some (round_point (dx_cursor_scale s) (fi_position info)), cm_hotspot = dx_cursor_hotspot s,
            cm_bitmap = if fi_shape_size info \<noteq> 0 then dx_cursor_bitmap s else None\<rparr>
      else cursor_hidden)"

definition process_pointer_update ::
  "frame_info \<Rightarrow> string + pointer_shape \<Rightarrow> dxgi_session \<Rightarrow> (dxgi_effect list \<times> dxgi_session) outcome" where
  "process_pointer_update info got s =
     (if fi_mouse_time info = 0 then Done ([], s)
      else map_outcome (\<lambda>s. (if dx_cursor_sink s then [SentCursor (pointer_metadata info s)] else [], s))
             (take_shape info got s))"

subsection \<open>Surfaces and frames\<close>

definition spare_slot :: "dxgi_session \<Rightarrow> nat outcome" where
  "spare_slot s =
     (case dx_pending s of
        Some slot \<Rightarrow> Done slot
      | None \<Rightarrow>
          (case find (\<lambda>slot. list_all (\<lambda>delivered. delivered \<noteq> Some slot) (dx_delivered s)) [0..<length (dx_surfaces s)] of
             Some slot \<Rightarrow> Done slot
           | None \<Rightarrow> Panicked))"

definition dxgi_frame :: "nat \<Rightarrow> dxgi_session \<Rightarrow> captured_frame" where
  "dxgi_frame now s =
     \<lparr>sequence = of_nat (dx_sequence s), timestamp = now, format = Bgra8, frame_res = dx_resolution s,
      frame_stride = 0, frame_data = [], gpu_resident = True\<rparr>"

text \<open>A frame with the surface it stands for.\<close>

definition deliver :: "nat \<Rightarrow> nat \<Rightarrow> dxgi_session \<Rightarrow> (dxgi_effect list \<times> dxgi_session \<times> captured_frame) outcome" where
  "deliver now slot s =
     (let s = s\<lparr>dx_delivered := Some slot # butlast (dx_delivered s), dx_pending := None,
                dx_pacer := mark_delivered now (dx_pacer s), dx_sequence := dx_sequence s + 1,
                dx_last_delivery := now\<rparr> in
      if slot < length (dx_surfaces s) then Done ([GaveFrame slot now], s, dxgi_frame now s) else Panicked)"

definition make_heartbeat_frame :: "nat \<Rightarrow> dxgi_session \<Rightarrow> (dxgi_effect list \<times> dxgi_session \<times> captured_frame) outcome" where
  "make_heartbeat_frame now s =
     (case hd (dx_delivered s) of
        None \<Rightarrow> (case dx_pending s of None \<Rightarrow> Panicked | Some slot \<Rightarrow> deliver now slot s)
      | Some slot \<Rightarrow>
          let s = s\<lparr>dx_sequence := dx_sequence s + 1, dx_last_delivery := now\<rparr> in
          if slot < length (dx_surfaces s) then Done ([GaveFrame slot now], s, dxgi_frame now s) else Panicked)"

datatype acquired = Copied | Heartbeat | Nothing

datatype release_answer = ReleaseOk | ReleaseLost | ReleaseFailed string

definition release_result :: "release_answer \<Rightarrow> flux_error + unit" where
  "release_result r = (case r of
       ReleaseOk \<Rightarrow> Ok ()
     | ReleaseLost \<Rightarrow> Err (CaptureSessionLost ''Desktop Duplication access lost while releasing frame'')
     | ReleaseFailed e \<Rightarrow> Err (CaptureError (''ReleaseFrame: '' @ e)))"

text \<open>An acquired frame: whether it has a resource, its description, the answers to the shape call, the
  cast, the scaler and the release.\<close>

record acquired_frame =
  af_resource :: bool
  af_info :: frame_info
  af_shape :: "string + pointer_shape"
  af_cast :: "string + unit"
  af_scale :: "flux_error + unit"
  af_release :: release_answer

datatype acquire_answer =
    WaitTimeout
  | AccessLost
  | InvalidCall
  | AcquireFailed string
  | Acquired acquired_frame

definition copy_frame :: "acquired_frame \<Rightarrow> nat \<Rightarrow> dxgi_session \<Rightarrow> flux_error + unit" where
  "copy_frame f slot s =
     (if dx_scaler s
      then (if dx_surfaces s ! slot then af_scale f else Err (CaptureError ''Scaler output view is missing''))
      else Ok ())"

text \<open>From an acquired frame on: the pointer, the suppression of unchanged images, and the copy.  The time
  is that of the elapsed-time test.  A frame that is not released on the way is released when its guard is dropped, which
  has no effect on the session.\<close>

definition use_frame ::
  "nat \<Rightarrow> acquired_frame \<Rightarrow> dxgi_session \<Rightarrow> (dxgi_effect list \<times> dxgi_session \<times> (flux_error + acquired)) outcome" where
  "use_frame now f s =
     (if \<not> af_resource f then Done ([], s, Err (CaptureError ''Frame resource is null''))
      else case process_pointer_update (af_info f) (af_shape f) s of
             Panicked \<Rightarrow> Panicked
           | Done (es, s) \<Rightarrow>
               if fi_present_time (af_info f) = 0 \<and> now - dx_last_delivery s < DXGI_HEARTBEAT_INTERVAL
               then Done (es, s, and_then (release_result (af_release f)) (\<lambda>_. Ok Nothing))
               else case af_cast f of
                 Inl e \<Rightarrow> Done (es, s, Err (CaptureError (''Cast to ID3D11Texture2D: '' @ e)))
               | Inr _ \<Rightarrow>
                   (case spare_slot s of
                      Panicked \<Rightarrow> Panicked
                    | Done slot \<Rightarrow>
                        if length (dx_surfaces s) \<le> slot then Panicked
                        else case copy_frame f slot s of
                          Inl e \<Rightarrow> Done (es, s, and_then (release_result (af_release f)) (\<lambda>_. Err e))
                        | Inr _ \<Rightarrow>
                            Done (es @ [WroteSurface slot], s\<lparr>dx_pending := Some slot, dx_has_copied := True\<rparr>,
                                  and_then (release_result (af_release f)) (\<lambda>_. Ok Copied))))"

definition acquire_frame ::
  "nat \<Rightarrow> acquire_answer \<Rightarrow> nat \<Rightarrow> dxgi_session \<Rightarrow> (dxgi_effect list \<times> dxgi_session \<times> (flux_error + acquired)) outcome" where
  "acquire_frame timeout answer now s =
     (case answer of
        WaitTimeout \<Rightarrow>
          Done ([AskedFrame timeout], s,
            Ok (if dx_has_copied s \<and> DXGI_HEARTBEAT_INTERVAL \<le> now - dx_last_delivery s then Heartbeat else Nothing))
      | AccessLost \<Rightarrow>
          Done ([AskedFrame timeout], s, Err (CaptureSessionLost ''Desktop Duplication access lost - display mode changed''))
      | InvalidCall \<Rightarrow>
          Done ([AskedFrame timeout], s,
            Err (CaptureSessionLost ''Desktop Duplication frame was not released before the next acquisition''))
      | AcquireFailed e \<Rightarrow> Done ([AskedFrame timeout], s, Err (CaptureError (''AcquireNextFrame: '' @ e)))
      | Acquired f \<Rightarrow> map_outcome (\<lambda>(es, r). (AskedFrame timeout # es, r)) (use_frame now f s))"

definition ceil_ms :: "nat \<Rightarrow> nat" where
  "ceil_ms d = min ((d + 999999) div 1000000) (2 ^ 32 - 1)"

text \<open>One turn of a call: the answer of the acquisition and the readings of the clock, at the head of the
  loop, at the elapsed-time test, after the copy and at a delivery.\<close>

record turn =
  tu_head :: nat
  tu_answer :: acquire_answer
  tu_elapsed :: nat
  tu_due :: nat
  tu_deliver :: nat

text \<open>A call returns a frame, an error or, from the polling call, nothing; it panics; or it is still
  waiting when the given turns are used up.\<close>

datatype call_end = Gives captured_frame | Fails flux_error | GivesNothing | StillWaiting

type_synonym call_result = "(dxgi_effect list \<times> dxgi_session \<times> call_end) outcome"

definition hand_out :: "(dxgi_effect list \<times> dxgi_session \<times> captured_frame) outcome \<Rightarrow> call_result" where
  "hand_out r = map_outcome (\<lambda>(es, s, f). (es, s, Gives f)) r"

definition after_effects :: "dxgi_effect list \<Rightarrow> call_result \<Rightarrow> call_result" where
  "after_effects es r = map_outcome (\<lambda>(es', r). (es @ es', r)) r"

text \<open>A pending frame that is due at the given time, if any.\<close>

definition due_slot :: "nat \<Rightarrow> dxgi_session \<Rightarrow> nat option" where
  "due_slot now s = (case dx_pending s of Some slot \<Rightarrow> if is_due now (dx_pacer s) then Some slot else None | None \<Rightarrow> None)"

fun next_frame_loop :: "turn list \<Rightarrow> dxgi_session \<Rightarrow> call_result" where
  "next_frame_loop [] s = Done ([], s, StillWaiting)"
| "next_frame_loop (t # ts) s =
     (case due_slot (tu_head t) s of
        Some slot \<Rightarrow> hand_out (deliver (tu_deliver t) slot s)
      | None \<Rightarrow>
          let timeout = (if dx_pending s \<noteq> None then max 1 (ceil_ms (time_until_due (tu_head t) (dx_pacer s))) else 100) in
          (case acquire_frame timeout (tu_answer t) (tu_elapsed t) s of
             Panicked \<Rightarrow> Panicked
           | Done (es, s, Inl e) \<Rightarrow> Done (es, s, Fails e)
           | Done (es, s, Inr Copied) \<Rightarrow>
               after_effects es (case due_slot (tu_due t) s of
                   Some slot \<Rightarrow> hand_out (deliver (tu_deliver t) slot s)
                 | None \<Rightarrow> next_frame_loop ts s)
           | Done (es, s, Inr Heartbeat) \<Rightarrow>
               after_effects es (hand_out (case dx_pending s of
                   Some slot \<Rightarrow> deliver (tu_deliver t) slot s
                 | None \<Rightarrow> make_heartbeat_frame (tu_deliver t) s))
           | Done (es, s, Inr Nothing) \<Rightarrow> after_effects es (next_frame_loop ts s)))"

definition dxgi_next_frame :: "turn list \<Rightarrow> dxgi_session \<Rightarrow> call_result" where
  "dxgi_next_frame ts s =
     (if \<not> dx_running s then Done ([], s, Fails (CaptureError ''session stopped'')) else next_frame_loop ts s)"

definition dxgi_try_next_frame :: "turn \<Rightarrow> dxgi_session \<Rightarrow> call_result" where
  "dxgi_try_next_frame t s =
     (if \<not> dx_running s then Done ([], s, GivesNothing)
      else case acquire_frame 0 (tu_answer t) (tu_elapsed t) s of
             Panicked \<Rightarrow> Panicked
           | Done (es, s, Inl e) \<Rightarrow> Done (es, s, Fails e)
           | Done (es, s, Inr a) \<Rightarrow>
               after_effects es (case due_slot (tu_due t) s of
                   Some slot \<Rightarrow> hand_out (deliver (tu_deliver t) slot s)
                 | None \<Rightarrow> (case a of
                     Heartbeat \<Rightarrow> hand_out (make_heartbeat_frame (tu_deliver t) s)
                   | _ \<Rightarrow> Done ([], s, GivesNothing))))"

definition dxgi_stop :: "dxgi_session \<Rightarrow> call_result" where
  "dxgi_stop s = Done ([], s\<lparr>dx_running := False\<rparr>, GivesNothing)"

datatype dxgi_call = NextFrame "turn list" | TryNextFrame turn | StopCapture

fun perform_call :: "dxgi_call \<Rightarrow> dxgi_session \<Rightarrow> call_result" where
  "perform_call (NextFrame ts) s = dxgi_next_frame ts s"
| "perform_call (TryNextFrame t) s = dxgi_try_next_frame t s"
| "perform_call StopCapture s = dxgi_stop s"

text \<open>A sequence of calls, until one panics.\<close>

fun dxgi_run :: "dxgi_call list \<Rightarrow> dxgi_session \<Rightarrow> (dxgi_effect list \<times> dxgi_session) outcome" where
  "dxgi_run [] s = Done ([], s)"
| "dxgi_run (c # cs) s =
     (case perform_call c s of
        Panicked \<Rightarrow> Panicked
      | Done (es, s, _) \<Rightarrow> map_outcome (\<lambda>(es', s). (es @ es', s)) (dxgi_run cs s))"

section \<open>The ring\<close>

text \<open>Reading a trace with the surfaces of the last two different frames given out: no write goes to one
  of them.\<close>

fun recent_after :: "nat list \<Rightarrow> dxgi_effect list \<Rightarrow> nat list" where
  "recent_after recent [] = recent"
| "recent_after recent (GaveFrame k t # es) =
     recent_after (if recent \<noteq> [] \<and> k = hd recent then recent else take 2 (k # recent)) es"
| "recent_after recent (e # es) = recent_after recent es"

fun ring_safe :: "nat list \<Rightarrow> dxgi_effect list \<Rightarrow> bool" where
  "ring_safe recent [] = True"
| "ring_safe recent (WroteSurface k # es) \<longleftrightarrow> k \<notin> set recent \<and> ring_safe recent es"
| "ring_safe recent (e # es) \<longleftrightarrow> ring_safe (recent_after recent [e]) es"

lemma recent_after_append: "recent_after recent (es @ es') = recent_after (recent_after recent es) es'"
  by (induction recent es rule: recent_after.induct) simp_all

lemma ring_safe_append: "ring_safe recent (es @ es') \<longleftrightarrow> ring_safe recent es \<and> ring_safe (recent_after recent es) es'"
  by (induction recent es rule: ring_safe.induct) simp_all

definition recent_of :: "dxgi_session \<Rightarrow> nat list" where
  "recent_of s = List.map_filter id (dx_delivered s)"

text \<open>A pointer scale that keeps shapes of 32 MiB below 4 GiB.\<close>

definition bounded_scale :: "pointer_scale \<Rightarrow> bool" where
  "bounded_scale sc \<longleftrightarrow> (\<forall>w h. 0 < w \<longrightarrow> 0 < h \<longrightarrow> w * 4 * h \<le> 2 ^ 25 \<longrightarrow> max 1 (ax_size (ps_x sc) w) * 4 * max 1 (ax_size (ps_y sc) h) < 2 ^ 32)"

definition dxgi_ok :: "dxgi_session \<Rightarrow> bool" where
  "dxgi_ok s \<longleftrightarrow> length (dx_surfaces s) = 3 \<and> bounded_scale (dx_cursor_scale s)
     \<and> (\<exists>a b. dx_delivered s = [a, b] \<and> (a = None \<longrightarrow> b = None))
     \<and> (\<forall>k. Some k \<in> set (dx_delivered s) \<longrightarrow> k < 3)
     \<and> (\<forall>k. dx_pending s = Some k \<longrightarrow> k < 3 \<and> Some k \<notin> set (dx_delivered s))
     \<and> (dx_has_copied s \<longrightarrow> dx_pending s \<noteq> None \<or> hd (dx_delivered s) \<noteq> None)"

definition keeps_ring :: "dxgi_session \<Rightarrow> (dxgi_effect list \<times> dxgi_session \<times> 'r) outcome \<Rightarrow> bool" where
  "keeps_ring s r = (case r of Panicked \<Rightarrow> False
     | Done (es, s', _) \<Rightarrow> dxgi_ok s' \<and> ring_safe (recent_of s) es \<and> recent_after (recent_of s) es = recent_of s')"

lemma keeps_ring_then:
  "keeps_ring s (Done (es, s', x)) \<Longrightarrow> keeps_ring s' r \<Longrightarrow> keeps_ring s (after_effects es r)"
  by (auto simp: keeps_ring_def after_effects_def ring_safe_append recent_after_append split: outcome.splits)

lemma keeps_ring_hand_out [simp]: "keeps_ring s (hand_out r) = keeps_ring s r"
  by (auto simp: keeps_ring_def hand_out_def split: outcome.splits)

lemma keeps_ring_result: "keeps_ring s (Done (es, s', x)) \<Longrightarrow> keeps_ring s (Done (es, s', y))"
  by (simp add: keeps_ring_def)

lemma scale_bounded:
  assumes "bounded_scale sc" "picture b" "unat (cb_width b) * 4 * unat (cb_height b) \<le> 2 ^ 25"
  shows "\<exists>b'. scale_cursor_bitmap (ps_x sc) (ps_y sc) b = Done b'"
proof (cases "ax_unit (ps_x sc) \<and> ax_unit (ps_y sc)")
  case True
  then show ?thesis by (simp add: scale_cursor_bitmap_def)
next
  case False
  have "max 1 (ax_size (ps_x sc) (unat (cb_width b))) * 4 * max 1 (ax_size (ps_y sc) (unat (cb_height b))) < 2 ^ 32"
    using assms unfolding bounded_scale_def picture_def by blast
  then show ?thesis using scale_picture [OF assms(2) False] by blast
qed

lemma take_shape_done:
  assumes "bounded_scale (dx_cursor_scale s)"
  shows "\<exists>b h. take_shape info got s = Done (s\<lparr>dx_cursor_bitmap := b, dx_cursor_hotspot := h\<rparr>)"
proof -
  have same: "\<exists>b h. Done s = Done (s\<lparr>dx_cursor_bitmap := b, dx_cursor_hotspot := h\<rparr>)"
    by (intro exI [of _ "dx_cursor_bitmap s"] exI [of _ "dx_cursor_hotspot s"]) simp
  show ?thesis
  proof (cases "fi_shape_size info = 0 \<or> fi_shape_size info > 1024 * 1024 \<or> (\<exists>e. got = Inl e)")
    case True
    then have "take_shape info got s = Done s" by (auto simp: take_shape_def)
    then show ?thesis using same by simp
  next
    case False
    then obtain shape where got: "got = Inr shape" by (cases got) auto
    define data where "data = take (if sh_required shape = 0 then fi_shape_size info else min (sh_required shape) (fi_shape_size info)) (sh_data shape)"
    have "length data \<le> 2 ^ 20" using False by (auto simp: data_def)
    from convert_picture [OF this, of "sh_type shape" "sh_width shape" "sh_height shape" "sh_pitch shape"]
    obtain r where r: "convert_dxgi_pointer_shape (sh_type shape) (sh_width shape) (sh_height shape) (sh_pitch shape) data = Done r"
      "r = None \<or> (\<exists>b. r = Some b \<and> picture b \<and> unat (cb_width b) * 4 * unat (cb_height b) \<le> 2 ^ 25)"
      by (cases "convert_dxgi_pointer_shape (sh_type shape) (sh_width shape) (sh_height shape) (sh_pitch shape) data")
        (auto split: option.splits)
    show ?thesis
    proof (cases r)
      case None
      then have "take_shape info got s = Done s"
        using False r(1) unfolding take_shape_def got Let_def sum.case data_def [symmetric] by simp
      then show ?thesis using same by simp
    next
      case (Some b)
      then obtain b' where "scale_cursor_bitmap (ps_x (dx_cursor_scale s)) (ps_y (dx_cursor_scale s)) b = Done b'"
        using scale_bounded [OF assms] r(2) by blast
      then have "take_shape info got s = Done (s\<lparr>dx_cursor_bitmap := Some b', dx_cursor_hotspot := round_point (dx_cursor_scale s) (sh_hotspot shape)\<rparr>)"
        using False r(1) Some unfolding take_shape_def got Let_def sum.case data_def [symmetric] by simp
      then show ?thesis by blast
    qed
  qed
qed

lemma pointer_update_done:
  assumes "bounded_scale (dx_cursor_scale s)"
  shows "\<exists>es b h. process_pointer_update info got s = Done (es, s\<lparr>dx_cursor_bitmap := b, dx_cursor_hotspot := h\<rparr>)
    \<and> (es = [] \<or> (\<exists>m. es = [SentCursor m]))"
proof (cases "fi_mouse_time info = 0")
  case True
  then show ?thesis
    by (intro exI [of _ "[]"] exI [of _ "dx_cursor_bitmap s"] exI [of _ "dx_cursor_hotspot s"]) (simp add: process_pointer_update_def)
next
  case False
  obtain b h where t: "take_shape info got s = Done (s\<lparr>dx_cursor_bitmap := b, dx_cursor_hotspot := h\<rparr>)"
    using take_shape_done [OF assms, of info got] by blast
  show ?thesis
    by (rule exI [of _ "if dx_cursor_sink s then [SentCursor (pointer_metadata info (s\<lparr>dx_cursor_bitmap := b, dx_cursor_hotspot := h\<rparr>))] else []"],
        rule exI [of _ b], rule exI [of _ h]) (simp add: process_pointer_update_def False t)
qed

lemma spare_slot_free:
  assumes "dxgi_ok s"
  shows "\<exists>k. spare_slot s = Done k \<and> k < 3 \<and> Some k \<notin> set (dx_delivered s)"
proof (cases "dx_pending s")
  case None
  obtain a b where d: "dx_delivered s = [a, b]" and n: "length (dx_surfaces s) = 3" using assms by (auto simp: dxgi_ok_def)
  have "[0..<3] = [0, 1, 2 :: nat]" by (simp add: upt_rec)
  then show ?thesis using None by (auto simp: spare_slot_def d n)
next
  case (Some k)
  then show ?thesis using assms by (simp add: spare_slot_def dxgi_ok_def)
qed

lemma recent_of_iff: "k \<in> set (recent_of s) \<longleftrightarrow> Some k \<in> set (dx_delivered s)"
  by (auto simp: recent_of_def map_filter_def image_iff)

lemma deliver_keeps:
  assumes "dxgi_ok s" "dx_pending s = Some k"
  shows "keeps_ring s (deliver now k s)"
proof -
  obtain a b where d: "dx_delivered s = [a, b]" "a = None \<longrightarrow> b = None" using assms by (auto simp: dxgi_ok_def)
  have k: "k < 3" "Some k \<notin> set (dx_delivered s)" using assms by (auto simp: dxgi_ok_def)
  then show ?thesis
    using assms d by (cases a; cases b) (auto simp: keeps_ring_def deliver_def Let_def dxgi_ok_def recent_of_def map_filter_def)
qed

lemma heartbeat_keeps:
  assumes "dxgi_ok s" "dx_has_copied s"
  shows "keeps_ring s (make_heartbeat_frame now s)"
proof (cases "hd (dx_delivered s)")
  case None
  then obtain k where "dx_pending s = Some k" using assms by (auto simp: dxgi_ok_def)
  then show ?thesis using deliver_keeps [OF assms(1)] None by (simp add: make_heartbeat_frame_def)
next
  case (Some k)
  obtain a b where d: "dx_delivered s = [a, b]" using assms by (auto simp: dxgi_ok_def)
  then have "k < 3" using assms Some by (auto simp: dxgi_ok_def)
  then show ?thesis
    using assms Some d by (auto simp: keeps_ring_def make_heartbeat_frame_def Let_def dxgi_ok_def recent_of_def map_filter_def)
qed

lemma use_frame_keeps:
  assumes ok: "dxgi_ok s"
  shows "keeps_ring s (use_frame now f s)"
proof -
  have "bounded_scale (dx_cursor_scale s)" using ok by (simp add: dxgi_ok_def)
  from pointer_update_done [OF this, of "af_info f" "af_shape f"]
  obtain es b h where p: "process_pointer_update (af_info f) (af_shape f) s = Done (es, s\<lparr>dx_cursor_bitmap := b, dx_cursor_hotspot := h\<rparr>)"
    "es = [] \<or> (\<exists>m. es = [SentCursor m])"
    by blast
  define s1 where "s1 = s\<lparr>dx_cursor_bitmap := b, dx_cursor_hotspot := h\<rparr>"
  have ok1: "dxgi_ok s1" and rec: "recent_of s1 = recent_of s"
    using ok by (simp_all add: s1_def dxgi_ok_def recent_of_def)
  have quiet: "ring_safe r es" "recent_after r es = r" for r using p(2) by auto
  obtain k where k: "spare_slot s1 = Done k" "k < 3" "Some k \<notin> set (dx_delivered s1)"
    using spare_slot_free [OF ok1] by blast
  have n: "length (dx_surfaces s1) = 3" using ok1 by (simp add: dxgi_ok_def)
  have ok2: "dxgi_ok (s1\<lparr>dx_pending := Some k, dx_has_copied := True\<rparr>)"
    "recent_of (s1\<lparr>dx_pending := Some k, dx_has_copied := True\<rparr>) = recent_of s"
    using ok1 k rec by (auto simp: dxgi_ok_def recent_of_def)
  have free: "k \<notin> set (recent_of s)" using k(3) rec recent_of_iff [of k s1] by simp
  have ends: "keeps_ring s (Done ([], s, x))" "keeps_ring s (Done (es, s1, x))"
    "keeps_ring s (Done (es @ [WroteSurface k], s1\<lparr>dx_pending := Some k, dx_has_copied := True\<rparr>, x))" for x :: "flux_error + acquired"
    by (simp_all add: keeps_ring_def ring_safe_append recent_after_append ok ok1 ok2 rec quiet free)
  have "\<not> length (dx_surfaces s1) \<le> k" using k(2) n by simp
  then show ?thesis
    unfolding use_frame_def p(1) s1_def [symmetric] outcome.case prod.case k(1)
    by (simp only: ends if_False split: sum.split if_split) blast
qed

lemma acquire_keeps:
  assumes "dxgi_ok s"
  shows "keeps_ring s (acquire_frame timeout answer now s)"
proof (cases answer)
  case (Acquired f)
  then show ?thesis
    using use_frame_keeps [OF assms, of now f] by (auto simp: acquire_frame_def keeps_ring_def split: outcome.splits)
qed (use assms in \<open>auto simp: acquire_frame_def keeps_ring_def\<close>)

lemma acquire_heartbeat:
  "acquire_frame timeout answer now s = Done (es, s', Inr Heartbeat) \<Longrightarrow> dx_has_copied s'"
  by (auto simp: acquire_frame_def use_frame_def split: acquire_answer.splits if_splits outcome.splits sum.splits prod.splits)

lemma next_frame_keeps: "dxgi_ok s \<Longrightarrow> keeps_ring s (next_frame_loop ts s)"
proof (induction ts arbitrary: s)
  case Nil
  then show ?case by (simp add: keeps_ring_def)
next
  case (Cons t ts)
  show ?case
  proof (cases "due_slot (tu_head t) s")
    case (Some slot)
    then have "dx_pending s = Some slot" by (auto simp: due_slot_def split: option.splits if_splits)
    then show ?thesis using deliver_keeps [OF Cons.prems] Some by simp
  next
    case None
    define timeout where "timeout = (if dx_pending s \<noteq> None then max 1 (ceil_ms (time_until_due (tu_head t) (dx_pacer s))) else 100)"
    have a: "keeps_ring s (acquire_frame timeout (tu_answer t) (tu_elapsed t) s)" by (rule acquire_keeps [OF Cons.prems])
    then obtain es s' r where acq: "acquire_frame timeout (tu_answer t) (tu_elapsed t) s = Done (es, s', r)"
      by (auto simp: keeps_ring_def split: outcome.splits)
    note a = a [unfolded acq]
    then have ok': "dxgi_ok s'" by (simp add: keeps_ring_def)
    have due: "keeps_ring s' (hand_out (deliver now slot s'))" if "dx_pending s' = Some slot" for now slot
      using deliver_keeps [OF ok' that] by simp
    have beat: "keeps_ring s' (hand_out (make_heartbeat_frame now s'))" if "r = Inr Heartbeat" for now
      using acquire_heartbeat acq heartbeat_keeps [OF ok'] that by simp
    have step: "next_frame_loop (t # ts) s = (case r of
          Inl e \<Rightarrow> Done (es, s', Fails e)
        | Inr Copied \<Rightarrow> after_effects es (case due_slot (tu_due t) s' of
                   Some slot \<Rightarrow> hand_out (deliver (tu_deliver t) slot s') | None \<Rightarrow> next_frame_loop ts s')
        | Inr Heartbeat \<Rightarrow> after_effects es (hand_out (case dx_pending s' of
                   Some slot \<Rightarrow> deliver (tu_deliver t) slot s' | None \<Rightarrow> make_heartbeat_frame (tu_deliver t) s'))
        | Inr Nothing \<Rightarrow> after_effects es (next_frame_loop ts s'))"
      by (simp only: next_frame_loop.simps None option.case Let_def timeout_def [symmetric] acq outcome.case prod.case)
    have "keeps_ring s' (case due_slot (tu_due t) s' of Some slot \<Rightarrow> hand_out (deliver (tu_deliver t) slot s') | None \<Rightarrow> next_frame_loop ts s')"
      using due Cons.IH [OF ok'] by (auto simp: due_slot_def split: option.splits)
    moreover have "keeps_ring s' (hand_out (case dx_pending s' of Some slot \<Rightarrow> deliver (tu_deliver t) slot s' | None \<Rightarrow> make_heartbeat_frame (tu_deliver t) s'))"
      if "r = Inr Heartbeat" using due beat [OF that] by (auto split: option.splits)
    moreover have "keeps_ring s (Done (es, s', Fails e))" for e by (rule keeps_ring_result [OF a])
    ultimately show ?thesis
      unfolding step using keeps_ring_then [OF a] Cons.IH [OF ok']
      by (simp split: sum.split acquired.split)
  qed
qed

lemma try_next_frame_keeps:
  assumes "dxgi_ok s"
  shows "keeps_ring s (dxgi_try_next_frame t s)"
proof (cases "dx_running s")
  case True
  have a: "keeps_ring s (acquire_frame 0 (tu_answer t) (tu_elapsed t) s)" by (rule acquire_keeps [OF assms])
  then obtain es s' r where acq: "acquire_frame 0 (tu_answer t) (tu_elapsed t) s = Done (es, s', r)"
    by (auto simp: keeps_ring_def split: outcome.splits)
  note a = a [unfolded acq]
  then have ok': "dxgi_ok s'" by (simp add: keeps_ring_def)
  have due: "keeps_ring s' (hand_out (deliver now slot s'))" if "dx_pending s' = Some slot" for now slot
    using deliver_keeps [OF ok' that] by simp
  have beat: "keeps_ring s' (hand_out (make_heartbeat_frame now s'))" if "r = Inr Heartbeat" for now
    using acquire_heartbeat acq heartbeat_keeps [OF ok'] that by simp
  have idle: "keeps_ring s' (Done ([], s', GivesNothing))" using ok' by (simp add: keeps_ring_def)
  have "keeps_ring s' (case due_slot (tu_due t) s' of
                   Some slot \<Rightarrow> hand_out (deliver (tu_deliver t) slot s')
                 | None \<Rightarrow> (case a of Heartbeat \<Rightarrow> hand_out (make_heartbeat_frame (tu_deliver t) s')
                   | _ \<Rightarrow> Done ([], s', GivesNothing)))" if "r = Inr a" for a
    using due beat that idle by (auto simp: due_slot_def split: option.splits acquired.splits)
  moreover have "keeps_ring s (Done (es, s', Fails e))" for e by (rule keeps_ring_result [OF a])
  ultimately show ?thesis
    using True acq keeps_ring_then [OF a]
    by (simp add: dxgi_try_next_frame_def split: sum.split)
qed (use assms in \<open>simp add: dxgi_try_next_frame_def keeps_ring_def\<close>)

lemma call_keeps: "dxgi_ok s \<Longrightarrow> keeps_ring s (perform_call c s)"
proof (cases c)
  case StopCapture
  then show "dxgi_ok s \<Longrightarrow> keeps_ring s (perform_call c s)"
    by (simp add: dxgi_stop_def keeps_ring_def dxgi_ok_def recent_of_def)
next
  case (NextFrame ts)
  then show "dxgi_ok s \<Longrightarrow> keeps_ring s (perform_call c s)"
    using next_frame_keeps [of s ts] by (simp add: dxgi_next_frame_def) (simp add: keeps_ring_def)
qed (simp add: try_next_frame_keeps)

lemma run_keeps:
  "dxgi_ok s \<Longrightarrow> \<exists>es s'. dxgi_run cs s = Done (es, s') \<and> dxgi_ok s' \<and> ring_safe (recent_of s) es
     \<and> recent_after (recent_of s) es = recent_of s'"
proof (induction cs arbitrary: s)
  case (Cons c cs)
  obtain es s' r where c: "perform_call c s = Done (es, s', r)" "dxgi_ok s'" "ring_safe (recent_of s) es"
    "recent_after (recent_of s) es = recent_of s'"
    using call_keeps [OF Cons.prems, of c] by (auto simp: keeps_ring_def split: outcome.splits)
  from Cons.IH [OF c(2)] c show ?case by (auto simp: ring_safe_append recent_after_append)
qed simp

lemma new_session_ok:
  "dxgi_session_new created scale requested framerate sink now = Done (Ok s) \<Longrightarrow> (\<And>a b. bounded_scale (scale a b)) \<Longrightarrow>
     dxgi_ok s \<and> recent_of s = []"
  by (auto simp: dxgi_session_new_def dxgi_ok_def recent_of_def map_filter_def DXGI_SHARED_TEXTURE_RING_SIZE_def
      IN_FLIGHT_DEPTH_def Let_def numeral_2_eq_2 split: sum.splits if_splits)

text \<open>C26: Over every sequence of calls to a capture session, whatever the graphics interfaces answer and
  whenever the clock is read, nothing panics: there is always a spare surface, a heartbeat always has a
  frame to repeat and pointer shapes are always converted.  The desktop is never copied into a surface of one of the
  last two different frames given out, which the encoder may still be reading.  The hypothesis is that
  the scale to the stream keeps a pointer shape below 4 GiB.\<close>

theorem dxgi_ring_never_overwritten:
  assumes "dxgi_session_new created scale requested framerate sink now = Done (Ok s)" "\<And>a b. bounded_scale (scale a b)"
  shows "case dxgi_run calls s of Panicked \<Rightarrow> False | Done (es, s') \<Rightarrow> ring_safe [] es"
  using new_session_ok [OF assms] run_keeps [of s calls] by auto

definition same_scale :: "resolution \<Rightarrow> resolution \<Rightarrow> pointer_scale" where
  "same_scale output desktop =
     (let a = \<lparr>ax_unit = True, ax_size = (\<lambda>n. n), ax_source = (\<lambda>n. n)\<rparr> in
      \<lparr>ps_x = a, ps_y = a, ps_round_x = (\<lambda>i. i), ps_round_y = (\<lambda>i. i)\<rparr>)"

definition example_update :: "nat \<Rightarrow> turn" where
  "example_update t =
     \<lparr>tu_head = t,
      tu_answer = Acquired \<lparr>af_resource = True,
        af_info = \<lparr>fi_mouse_time = 0, fi_shape_size = 0, fi_visible = True, fi_position = (0, 0), fi_present_time = 1\<rparr>,
        af_shape = Inl [], af_cast = Inr (), af_scale = Inr (), af_release = ReleaseOk\<rparr>,
      tu_elapsed = t, tu_due = t, tu_deliver = t\<rparr>"

lemma same_scale_bounded: "bounded_scale (same_scale a b)"
proof -
  have "w * 4 * h < 2 ^ 32" if "w * 4 * h \<le> 2 ^ 25" for w h :: nat
    using that by (rule le_less_trans) simp
  moreover have "max 1 n = n" if "0 < n" for n :: nat using that by simp
  ultimately show ?thesis unfolding bounded_scale_def same_scale_def Let_def by simp
qed

definition example_calls :: "dxgi_call list" where
  "example_calls = [TryNextFrame (example_update 20000000), NextFrame [example_update 40000000], TryNextFrame (example_update 60000000)]"

definition example_run :: "dxgi_effect list outcome" where
  "example_run =
     (case dxgi_session_new (Inr \<lparr>width = 1920, height = 1080\<rparr>) same_scale \<lparr>width = 0, height = 0\<rparr> 60 True 0 of
        Done (Inr s) \<Rightarrow> map_outcome fst (dxgi_run example_calls s)
      | _ \<Rightarrow> Panicked)"

lemmas session_simps =
  example_update_def acquire_frame_def use_frame_def process_pointer_update_def spare_slot_def copy_frame_def
  release_result_def due_slot_def is_due_def mark_delivered_def tolerance_def deliver_def hand_out_def
  after_effects_def dxgi_try_next_frame_def dxgi_next_frame_def time_until_due_def

lemma example_run_effects:
  "example_run = Done [AskedFrame 0, WroteSurface 0, GaveFrame 0 20000000, AskedFrame 100, WroteSurface 1, GaveFrame 1 40000000,
      AskedFrame 0, WroteSurface 2, GaveFrame 2 60000000]"
proof -
  have "[0..<3] = [0, 1, 2 :: nat]" "replicate 2 None = [None, None :: nat option]" "replicate 3 False = [False, False, False]"
    by code_simp+
  then show ?thesis
    by (simp add: example_run_def dxgi_session_new_def Let_def example_calls_def session_simps pacer_new_def
        DXGI_SHARED_TEXTURE_RING_SIZE_def IN_FLIGHT_DEPTH_def)
qed

theorem dxgi_ring_never_overwritten_witness:
  "\<exists>s es s'. dxgi_session_new (Inr \<lparr>width = 1920, height = 1080\<rparr>) same_scale \<lparr>width = 0, height = 0\<rparr> 60 True 0 = Done (Ok s)
     \<and> dxgi_run example_calls s = Done (es, s')
     \<and> ring_safe [] es \<and> length es = 9"
proof -
  obtain s where s: "dxgi_session_new (Inr \<lparr>width = 1920, height = 1080\<rparr>) same_scale \<lparr>width = 0, height = 0\<rparr> 60 True 0 = Done (Ok s)"
    by (simp add: dxgi_session_new_def Let_def)
  from dxgi_ring_never_overwritten [OF s same_scale_bounded, of example_calls]
  obtain es s' where r: "dxgi_run example_calls s = Done (es, s')" "ring_safe [] es" by (auto split: outcome.splits)
  moreover have "length es = 9" using example_run_effects by (simp add: example_run_def s r)
  ultimately show ?thesis using s by auto
qed

section \<open>The rate of deliveries\<close>

fun pacer_deliveries :: "nat list \<Rightarrow> capture_pacer \<Rightarrow> bool" where
  "pacer_deliveries [] p = True"
| "pacer_deliveries (t # ts) p \<longleftrightarrow> is_due t p \<and> pacer_deliveries ts (mark_delivered t p)"

lemma pacer_due_bound:
  "pacer_deliveries ts p \<Longrightarrow> cp_next_due p = Some d \<Longrightarrow> i < length ts \<Longrightarrow> d + i * cp_interval p \<le> ts ! i + tolerance p"
proof (induction ts arbitrary: p d i)
  case (Cons t ts)
  define p' where "p' = mark_delivered t p"
  obtain d' where d': "cp_next_due p' = Some d'" "d + cp_interval p \<le> d'" "cp_interval p' = cp_interval p"
    using Cons.prems(2) by (auto simp: p'_def mark_delivered_def Let_def)
  show ?case
  proof (cases i)
    case 0
    then show ?thesis using Cons.prems by (simp add: is_due_def)
  next
    case (Suc j)
    have "d' + j * cp_interval p' \<le> ts ! j + tolerance p'"
      using Cons.prems Suc by (intro Cons.IH [OF _ d'(1)]) (simp_all add: p'_def)
    then show ?thesis using d' Suc by (simp add: tolerance_def)
  qed
qed simp

theorem pacer_rate:
  assumes "pacer_deliveries (t # ts) (pacer_new interval)" "i < length ts"
  shows "t + (i + 1) * interval \<le> ts ! i + interval div 10"
proof -
  have "cp_next_due (mark_delivered t (pacer_new interval)) = Some (t + interval) \<or> interval = 0"
    by (auto simp: mark_delivered_def pacer_new_def Let_def)
  with pacer_due_bound [of ts "mark_delivered t (pacer_new interval)" "t + interval" i] assms show ?thesis
    by (auto simp: pacer_new_def mark_delivered_def tolerance_def Let_def)
qed

section \<open>Shapes that arrive while the pointer is hidden\<close>

fun pointer_updates :: "(frame_info \<times> (string + pointer_shape)) list \<Rightarrow> dxgi_session \<Rightarrow> (dxgi_effect list \<times> dxgi_session) outcome" where
  "pointer_updates [] s = Done ([], s)"
| "pointer_updates ((info, got) # us) s =
     (case process_pointer_update info got s of
        Panicked \<Rightarrow> Panicked
      | Done (es, s) \<Rightarrow> map_outcome (\<lambda>(es', s). (es @ es', s)) (pointer_updates us s))"

fun carries_shape :: "dxgi_effect \<Rightarrow> bool" where
  "carries_shape (SentCursor m) \<longleftrightarrow> cm_bitmap m \<noteq> None"
| "carries_shape _ \<longleftrightarrow> False"

lemma update_sent:
  "process_pointer_update info got s = Done (es, s') \<Longrightarrow> es = [] \<or> es = [SentCursor (pointer_metadata info s')]"
  by (cases "take_shape info got s") (auto simp: process_pointer_update_def split: if_splits)

lemma metadata_without_shape:
  "fi_shape_size info = 0 \<or> \<not> fi_visible info \<Longrightarrow> cm_bitmap (pointer_metadata info s) = None"
  by (auto simp: pointer_metadata_def cursor_hidden_def)

lemma updates_without_shape:
  "list_all (\<lambda>(info, got). fi_shape_size info = 0) us \<Longrightarrow> pointer_updates us s = Done (es, s') \<Longrightarrow> \<not> list_ex carries_shape es"
proof (induction us arbitrary: s es)
  case (Cons u us)
  obtain info got where u: "u = (info, got)" by (cases u)
  obtain es1 s1 where p: "process_pointer_update info got s = Done (es1, s1)"
    using Cons.prems u by (auto split: outcome.splits)
  obtain es2 where r: "pointer_updates us s1 = Done (es2, s')" "es = es1 @ es2"
    using Cons.prems p u by (cases "pointer_updates us s1") auto
  have "\<not> list_ex carries_shape es1"
    using update_sent [OF p] Cons.prems(1) u by (auto simp: metadata_without_shape)
  then show ?case using Cons.IH [OF _ r(1)] Cons.prems(1) r(2) by simp
qed simp

text \<open>C27: A pointer shape that arrives while the pointer is hidden is lost: the update is sent as hidden,
  and although the session keeps the new shape, no later update carries it until the shape changes
  again, so a viewer keeps drawing the old one when the pointer is shown.\<close>

theorem hidden_shape_never_sent:
  assumes "process_pointer_update info got s = Done (es, s')" "\<not> fi_visible info" "0 < fi_shape_size info"
    and "list_all (\<lambda>(info, got). fi_shape_size info = 0) later" "pointer_updates later s' = Done (es', s'')"
  shows "\<not> list_ex carries_shape (es @ es')"
  using update_sent [OF assms(1)] assms(2) updates_without_shape [OF assms(4,5)]
  by (auto simp: metadata_without_shape)

definition example_pointer :: "nat \<Rightarrow> bool \<Rightarrow> frame_info" where
  "example_pointer shape_size visible =
     \<lparr>fi_mouse_time = 1, fi_shape_size = shape_size, fi_visible = visible, fi_position = (3, 4), fi_present_time = 0\<rparr>"

definition example_shape :: pointer_shape where
  "example_shape = \<lparr>sh_data = [1, 2, 3, 4], sh_required = 0, sh_type = COLOR, sh_width = 1, sh_height = 1, sh_pitch = 4, sh_hotspot = (0, 0)\<rparr>"

lemma example_shape_converted:
  "convert_dxgi_pointer_shape COLOR 1 1 4 [1, 2, 3, 4]
     = Done (Some \<lparr>cb_width = 1, cb_height = 1, cb_stride = 4, cb_format = 1, cb_pixels = [3, 2, 1, 4]\<rparr>)"
proof -
  have "replicate 4 (0 :: byte) = [0, 0, 0, 0]" by code_simp
  then show ?thesis
    by (simp add: convert_dxgi_pointer_shape_def Let_def COLOR_def fits64_def color_pixel_def put4_def CURSOR_FORMAT_RGBA8888_def)
qed

theorem hidden_shape_never_sent_witness:
  "\<exists>s es s' es' s''. dxgi_session_new (Inr \<lparr>width = 1920, height = 1080\<rparr>) same_scale \<lparr>width = 0, height = 0\<rparr> 60 True 0 = Done (Ok s)
     \<and> process_pointer_update (example_pointer 4 False) (Inr example_shape) s = Done (es, s')
     \<and> dx_cursor_bitmap s' = Some \<lparr>cb_width = 1, cb_height = 1, cb_stride = 4, cb_format = 1, cb_pixels = [3, 2, 1, 4]\<rparr>
     \<and> pointer_updates [(example_pointer 0 True, Inl [])] s' = Done (es', s'')
     \<and> length (es @ es') = 2 \<and> \<not> list_ex carries_shape (es @ es')"
proof -
  obtain s where s: "dxgi_session_new (Inr \<lparr>width = 1920, height = 1080\<rparr>) same_scale \<lparr>width = 0, height = 0\<rparr> 60 True 0 = Done (Ok s)"
    by (simp add: dxgi_session_new_def Let_def)
  then have scale: "dx_cursor_scale s = same_scale \<lparr>width = 1920, height = 1080\<rparr> \<lparr>width = 1920, height = 1080\<rparr>" "dx_cursor_sink s"
    by (auto simp: dxgi_session_new_def Let_def)
  let ?b = "\<lparr>cb_width = 1, cb_height = 1, cb_stride = 4, cb_format = 1, cb_pixels = [3, 2, 1, 4]\<rparr> :: cursor_bitmap"
  define s' where "s' = s\<lparr>dx_cursor_bitmap := Some ?b, dx_cursor_hotspot := (0, 0)\<rparr>"
  have "scale_cursor_bitmap (ps_x (dx_cursor_scale s)) (ps_y (dx_cursor_scale s)) ?b = Done ?b"
    "round_point (dx_cursor_scale s) (0, 0) = (0, 0)"
    by (simp_all add: scale scale_cursor_bitmap_def same_scale_def round_point_def Let_def)
  then have t: "take_shape (example_pointer 4 False) (Inr example_shape) s = Done s'"
    by (simp add: take_shape_def example_pointer_def example_shape_def example_shape_converted s'_def)
  define es where "es = [SentCursor (pointer_metadata (example_pointer 4 False) s')]"
  have u: "process_pointer_update (example_pointer 4 False) (Inr example_shape) s = Done (es, s')"
    using t scale(2) by (simp add: process_pointer_update_def es_def example_pointer_def s'_def)
  define es' where "es' = [SentCursor (pointer_metadata (example_pointer 0 True) s')]"
  have l: "pointer_updates [(example_pointer 0 True, Inl [])] s' = Done (es', s')"
    using scale(2) by (simp add: process_pointer_update_def take_shape_def example_pointer_def es'_def s'_def)
  have "\<not> list_ex carries_shape (es @ es')"
    by (rule hidden_shape_never_sent [OF u _ _ _ l]) (simp_all add: example_pointer_def)
  then show ?thesis
    using s u l by (intro exI [of _ s] exI [of _ es] exI [of _ s'] exI [of _ es'] conjI) (simp_all add: s'_def es_def es'_def)
qed

end
