(* ===== verification/Relay_Proto.thy ===== *)
theory Relay_Proto
  imports Frame_Server Host_Login Host_Quic
begin

text \<open>
  The wire protocol of the web relay (\<open>flux-web/proto.go\<close>, the readers of \<open>upstream.go\<close> and the
  encoders of \<open>webtransport.go\<close>): the commands it sends to a host, the frames it reads from one, and
  the streams it writes to a viewer.  Bytes, integer codecs and byte streams are those of the host side,
  so that the two ends of the link can be compared.
\<close>

section \<open>Commands to a host\<close>

definition cmdIDR :: byte where "cmdIDR = 0x01"
definition cmdInput :: byte where "cmdInput = 0x02"
definition cmdBitrate :: byte where "cmdBitrate = 0x03"
definition cmdViewers :: byte where "cmdViewers = 0x04"
definition cmdQuality :: byte where "cmdQuality = 0x05"
definition cmdResolution :: byte where "cmdResolution = 0x06"
definition cmdClipboard :: byte where "cmdClipboard = 0x07"
definition cmdLoginResponse :: byte where "cmdLoginResponse = 0x08"
definition cmdLock :: byte where "cmdLock = 0x09"
definition cmdHello :: byte where "cmdHello = 0x0A"

definition commandFrame :: "byte \<Rightarrow> byte list \<Rightarrow> byte list" where
  "commandFrame ty payload = ty # u32_be (word_of_nat (length payload)) @ payload"

definition u32Command :: "byte \<Rightarrow> u32 \<Rightarrow> byte list" where
  "u32Command ty value = ty # u32_be value"

definition resolutionCommand :: "u32 \<Rightarrow> u32 \<Rightarrow> byte list" where
  "resolutionCommand w h =
     [cmdResolution, ucast (drop_bit 8 w), ucast w, ucast (drop_bit 8 h), ucast h]"

definition helloCommand :: "byte list \<Rightarrow> byte list option" where
  "helloCommand token = (if token = [] then None else Some (commandFrame cmdHello token))"

definition validateResolution :: "u32 \<Rightarrow> u32 \<Rightarrow> bool" where
  "validateResolution w h \<longleftrightarrow>
     \<not> (w < 640 \<or> w > 2560 \<or> h < 480 \<or> h > 1440 \<or> w mod 2 \<noteq> 0 \<or> h mod 2 \<noteq> 0)"

text \<open>Everything the relay queues for a host.\<close>

datatype upstream_command =
    SendIDR
  | SendInput "byte list"
  | SendBitrate u32
  | SendViewers u32
  | SendQuality byte byte
  | SendResolution u32 u32
  | SendClipboard "byte list"
  | SendLoginResponse "byte list"
  | SendLock
  | SendHello "byte list"

fun upstream_bytes :: "upstream_command \<Rightarrow> byte list" where
  "upstream_bytes SendIDR = [cmdIDR]"
| "upstream_bytes (SendInput p) = commandFrame cmdInput p"
| "upstream_bytes (SendBitrate k) = u32Command cmdBitrate k"
| "upstream_bytes (SendViewers n) = u32Command cmdViewers n"
| "upstream_bytes (SendQuality l f) = [cmdQuality, l, f]"
| "upstream_bytes (SendResolution w h) = resolutionCommand w h"
| "upstream_bytes (SendClipboard p) = commandFrame cmdClipboard p"
| "upstream_bytes (SendLoginResponse p) = commandFrame cmdLoginResponse p"
| "upstream_bytes SendLock = commandFrame cmdLock []"
| "upstream_bytes (SendHello t) = commandFrame cmdHello t"

section \<open>Frames from a host\<close>

definition msgVideo :: byte where "msgVideo = 0x01"
definition msgCursor :: byte where "msgCursor = 0x02"
definition msgResolutionStatus :: byte where "msgResolutionStatus = 0x03"
definition msgAudio :: byte where "msgAudio = 0x04"
definition msgClipboard :: byte where "msgClipboard = 0x05"
definition msgLogin :: byte where "msgLogin = 0x06"
definition maxFramePayloadSize :: nat where "maxFramePayloadSize = 10 * 1024 * 1024"

record upstream_header =
  uh_type :: byte
  uh_ts :: u64
  uh_len :: nat

datatype frame_error = ReadHeader io_error | InvalidFrameLength nat | ReadFrameData io_error | UnknownType byte

definition readFrame :: "stream \<Rightarrow> frame_error + ((upstream_header \<times> byte list) \<times> stream)" where
  "readFrame s =
     (case read_exact 13 s of
        Inl e \<Rightarrow> Err (ReadHeader e)
      | Inr (hdr, s) \<Rightarrow>
          let header = \<lparr>uh_type = hd hdr, uh_ts = u64_of_be (take 8 (drop 1 hdr)),
                        uh_len = unat (u32_of_be (take 4 (drop 9 hdr)))\<rparr>
          in if uh_len header = 0 \<or> uh_len header > maxFramePayloadSize
             then Err (InvalidFrameLength (uh_len header))
             else case read_exact (uh_len header) s of
                    Inl e \<Rightarrow> Err (ReadFrameData e)
                  | Inr (data, s) \<Rightarrow> Ok ((header, data), s))"

lemma readFrame_shorter: "readFrame s = Ok (r, s') \<Longrightarrow> length (pending s') < length (pending s)"
  by (auto simp: readFrame_def Let_def dest!: read_exact_OkD split: sum.splits prod.splits if_splits)

text \<open>What \<open>dispatchFrame\<close> does with a message; an unknown type ends the connection.\<close>

datatype routed =
    RouteVideo u64 "byte list"
  | RouteCursor u64 "byte list"
  | RouteResolutionStatus "byte list"
  | RouteAudio u64 "byte list"
  | RouteClipboard "byte list"
  | RouteLogin "byte list"

definition dispatchFrame :: "(byte list \<Rightarrow> bool) \<Rightarrow> upstream_header \<Rightarrow> byte list \<Rightarrow> frame_error + routed option" where
  "dispatchFrame json_valid header data =
     (if uh_type header = msgVideo then Ok (Some (RouteVideo (uh_ts header) data))
      else if uh_type header = msgCursor
        then Ok (if json_valid data then Some (RouteCursor (uh_ts header) data) else None)
      else if uh_type header = msgResolutionStatus then Ok (Some (RouteResolutionStatus data))
      else if uh_type header = msgAudio then Ok (Some (RouteAudio (uh_ts header) data))
      else if uh_type header = msgClipboard then Ok (Some (RouteClipboard data))
      else if uh_type header = msgLogin then Ok (Some (RouteLogin data))
      else Err (UnknownType (uh_type header)))"

text \<open>The loop over a connection, until an error.\<close>

function readFrames :: "(byte list \<Rightarrow> bool) \<Rightarrow> stream \<Rightarrow> routed list \<times> frame_error" where
  "readFrames json_valid s =
     (case readFrame s of
        Inl e \<Rightarrow> ([], e)
      | Inr ((header, data), s') \<Rightarrow>
          (case dispatchFrame json_valid header data of
             Inl e \<Rightarrow> ([], e)
           | Inr r \<Rightarrow>
               (case readFrames json_valid s' of
                  (rs, e) \<Rightarrow> ((case r of None \<Rightarrow> rs | Some x \<Rightarrow> x # rs), e))))"
  by pat_completeness auto
termination
  by (relation "measure (\<lambda>(j, s). length (pending s))") (auto dest: readFrame_shorter)

declare readFrames.simps [simp del]

section \<open>Streams to a viewer\<close>

definition streamVideo :: byte where "streamVideo = 0x01"
definition streamCursor :: byte where "streamCursor = 0x02"
definition streamResolutionStatus :: byte where "streamResolutionStatus = 0x03"
definition streamAudio :: byte where "streamAudio = 0x04"

definition encodeVideoFrameHeader :: "u32 \<Rightarrow> u64 \<Rightarrow> byte list \<Rightarrow> bool \<Rightarrow> byte list" where
  "encodeVideoFrameHeader seq ts data keyframe =
     [streamVideo] @ u32_be seq @ u64_be ts @ [if keyframe then 1 else 0] @ u32_be (word_of_nat (length data))"

definition metadataStream :: "byte \<Rightarrow> byte list \<Rightarrow> byte list" where
  "metadataStream kind payload = [kind] @ u32_be (word_of_nat (length payload)) @ payload"

definition audioStream :: "u64 \<Rightarrow> u32 \<Rightarrow> byte list \<Rightarrow> byte list" where
  "audioStream ts seq payload =
     [streamAudio] @ u64_be ts @ u32_be seq @ u32_be (word_of_nat (length payload)) @ payload"

text \<open>An audio message of the host is the sequence number and the packet; shorter ones are dropped.\<close>

definition forwardAudio :: "bool \<Rightarrow> u64 \<times> byte list \<Rightarrow> byte list option" where
  "forwardAudio enabled = (\<lambda>(ts, data).
     if \<not> enabled \<or> length data < 4 then None
     else Some (audioStream ts (u32_of_be (take 4 data)) (drop 4 data)))"

definition writeControl :: "byte list \<Rightarrow> byte list option" where
  "writeControl payload =
     (if length payload > 2 ^ 20 then None else Some (u32_be (word_of_nat (length payload)) @ payload))"

section \<open>The two ends agree\<close>

fun agent_command :: "upstream_command \<Rightarrow> relay_command option" where
  "agent_command SendIDR = Some RelayIdr"
| "agent_command (SendInput p) = Some (RelayInput p)"
| "agent_command (SendBitrate k) = Some (RelayBitrate k)"
| "agent_command (SendViewers n) = Some (RelayViewers n)"
| "agent_command (SendQuality l f) = Some (RelayQuality l f)"
| "agent_command (SendResolution w h) = Some (RelayResolution (ucast w) (ucast h))"
| "agent_command (SendClipboard p) = Some (RelayClipboard p)"
| "agent_command _ = None"

lemmas relay_cmd_defs = cmdIDR_def cmdInput_def cmdBitrate_def cmdViewers_def cmdQuality_def cmdResolution_def
  cmdClipboard_def cmdLoginResponse_def cmdLock_def cmdHello_def

lemma u16_be_bytes: "u16_be w = [ucast (drop_bit 8 w), ucast w]"
proof -
  have "(word_of_nat (unat w div 256 mod 256) :: byte) = ucast (drop_bit 8 w)"
    by (rule word_unat_eq_iff [THEN iffD2])
      (simp add: unat_of_nat unsigned_ucast_eq unsigned_drop_bit_eq drop_bit_eq_div take_bit_eq_mod unat_div_distrib)
  moreover have "(word_of_nat (unat w mod 256) :: byte) = ucast w"
    by (rule word_unat_eq_iff [THEN iffD2]) (simp add: unat_of_nat unsigned_ucast_eq take_bit_eq_mod)
  ultimately show ?thesis by (simp add: u16_be_def be_bytes_2)
qed

lemma upstream_bytes_agent: "agent_command c = Some a \<Longrightarrow> upstream_bytes c = encode_relay a"
proof (cases c)
  case (SendResolution w h)
  have "ucast (drop_bit 8 (ucast x :: u16)) = (ucast (drop_bit 8 x) :: byte)" "ucast (ucast x :: u16) = (ucast x :: byte)" for x :: u32
    by (rule bit_word_eqI; auto simp: bit_simps)+
  then show "agent_command c = Some a \<Longrightarrow> upstream_bytes c = encode_relay a"
    using SendResolution by (auto simp: resolutionCommand_def u16_be_bytes relay_cmd_defs)
qed (auto simp: commandFrame_def u32Command_def relay_cmd_defs)

text \<open>Within the size the daemon accepts.\<close>

fun upstream_fits :: "upstream_command \<Rightarrow> bool" where
  "upstream_fits (SendInput p) \<longleftrightarrow> length p \<le> MAX_COMMAND_PAYLOAD"
| "upstream_fits (SendClipboard p) \<longleftrightarrow> length p \<le> MAX_COMMAND_PAYLOAD"
| "upstream_fits (SendLoginResponse p) \<longleftrightarrow> length p \<le> MAX_COMMAND_PAYLOAD"
| "upstream_fits (SendHello t) \<longleftrightarrow> length t \<le> MAX_COMMAND_PAYLOAD"
| "upstream_fits _ \<longleftrightarrow> True"

lemma upstream_wire:
  assumes "upstream_fits c"
  shows "command_wire MAX_COMMAND_PAYLOAD (hd (upstream_bytes c)) (upstream_bytes c)"
proof -
  have prefixed: "command_wire MAX_COMMAND_PAYLOAD ty (commandFrame ty p)"
    if "command_frame_spec ty = Some LengthPrefixed" "length p \<le> MAX_COMMAND_PAYLOAD" for ty p
    unfolding commandFrame_def using that by (intro wire_prefixed) (simp_all add: unat_of_nat MAX_COMMAND_PAYLOAD_def)
  have spec: "command_frame_spec 1 = Some Bare" "command_frame_spec 2 = Some LengthPrefixed" "command_frame_spec 3 = Some (Fixed 4)"
    "command_frame_spec 4 = Some (Fixed 4)" "command_frame_spec 5 = Some (Fixed 2)" "command_frame_spec 6 = Some (Fixed 4)"
    "command_frame_spec 7 = Some LengthPrefixed" "command_frame_spec 8 = Some LengthPrefixed" "command_frame_spec 9 = Some LengthPrefixed"
    "command_frame_spec 10 = Some LengthPrefixed"
    by (simp_all add: command_frame_spec_def cmd_defs)
  show ?thesis
  proof (cases c)
    case SendIDR
    then show ?thesis using wire_bare [OF spec(1)] by (simp add: relay_cmd_defs)
  next
    case (SendBitrate k)
    then show ?thesis using wire_fixed [OF spec(3), of "u32_be k"] by (simp add: relay_cmd_defs u32Command_def)
  next
    case (SendViewers k)
    then show ?thesis using wire_fixed [OF spec(4), of "u32_be k"] by (simp add: relay_cmd_defs u32Command_def)
  next
    case (SendQuality l f)
    then show ?thesis using wire_fixed [OF spec(5), of "[l, f]"] by (simp add: relay_cmd_defs)
  next
    case (SendResolution w h)
    then show ?thesis
      using wire_fixed [OF spec(6), of "tl (resolutionCommand w h)"] by (simp add: relay_cmd_defs resolutionCommand_def)
  next
    case SendLock
    then show ?thesis using prefixed [OF spec(9), of "[]"] by (simp add: relay_cmd_defs commandFrame_def)
  qed (use assms prefixed spec in \<open>auto simp: relay_cmd_defs commandFrame_def MAX_COMMAND_PAYLOAD_def\<close>)
qed

lemma upstream_type: "hd (upstream_bytes c) = CMD_LOCK \<longleftrightarrow> c = SendLock"
  by (cases c) (simp_all add: relay_cmd_defs cmd_defs commandFrame_def u32Command_def resolutionCommand_def)

lemma upstream_read:
  "upstream_fits c \<Longrightarrow> read_raw_command \<lparr>pending = upstream_bytes c @ rest, ending = e\<rparr>
     = Ok (Some \<lparr>rc_ty = hd (upstream_bytes c), rc_bytes = upstream_bytes c\<rparr>, \<lparr>pending = rest, ending = e\<rparr>)"
  using upstream_wire by (simp add: read_raw_command_Some_iff)

lemma proxy_forwards_upstream:
  assumes "list_all (\<lambda>c. upstream_fits c \<and> c \<noteq> SendLock) cmds"
  shows "from_relay (\<lambda>_. None) sent \<lparr>pending = concat (map upstream_bytes cmds) @ upstream_bytes SendLock @ rest, ending = e\<rparr>
    = (sent @ concat (map upstream_bytes cmds), Ok ProxyLocked, \<lparr>pending = rest, ending = e\<rparr>)"
proof -
  let ?raw = "\<lambda>c. \<lparr>rc_ty = hd (upstream_bytes c), rc_bytes = upstream_bytes c\<rparr>"
  have "agent_commands (map ?raw cmds)" "concat (map rc_bytes (map ?raw cmds)) = concat (map upstream_bytes cmds)"
    using assms by (auto simp: agent_commands_def list_all_iff upstream_wire upstream_type comp_def)
  from from_relay_forwards [OF this(1), of "\<lparr>pending = concat (map upstream_bytes cmds) @ upstream_bytes SendLock @ rest, ending = e\<rparr>"
      "upstream_bytes SendLock @ rest" sent] this(2)
  have "from_relay (\<lambda>_. None) sent \<lparr>pending = concat (map upstream_bytes cmds) @ upstream_bytes SendLock @ rest, ending = e\<rparr>
    = from_relay (\<lambda>_. None) (sent @ concat (map upstream_bytes cmds)) \<lparr>pending = upstream_bytes SendLock @ rest, ending = e\<rparr>"
    by simp
  then show ?thesis
    using upstream_read [of SendLock rest e] upstream_type [of SendLock] by (simp add: from_relay.simps)
qed

lemma read_commands_none: "read_commands pi pcl ctx \<lparr>pending = [], ending = e\<rparr> = []"
  by (subst read_commands.simps) (simp add: read_command_def read_array_def read_exact_def)

lemma validated_delivers:
  assumes "validateResolution w h"
  shows "relay_delivers pi pcl ctx (RelayResolution (ucast w) (ucast h)) = [ToResolution \<lparr>req_width = unat w, req_height = unat h\<rparr>]"
proof -
  have w: "640 \<le> unat w" "unat w \<le> 2560" "even (unat w)" and h: "480 \<le> unat h" "unat h \<le> 1440" "even (unat h)"
    using assms by (auto simp: validateResolution_def word_less_nat_alt not_less even_iff_mod_2_eq_zero word_unat_eq_iff unat_mod_distrib)
  then have "unat (ucast w :: u16) = unat w" "unat (ucast h :: u16) = unat h"
    by (simp_all add: unsigned_ucast_eq take_bit_eq_mod)
  with w h show ?thesis by simp
qed

text \<open>C28: The relay and the host speak the same protocol.  The daemon accepts the relay's hello exactly
  with the right token and reads its login responses; a run of commands followed by a lock is forwarded to the agent byte for
  byte and ends the proxy with a lock; and the agent delivers from the forwarded bytes exactly what
  the relay meant, every resolution the relay accepts included.\<close>

theorem relay_commands_reach_agent:
  assumes "list_all (\<lambda>c. upstream_fits c \<and> (case agent_command c of None \<Rightarrow> False | Some a \<Rightarrow> relay_fits ctx a)) cmds"
    and "length token' \<le> MAX_COMMAND_PAYLOAD" "length response \<le> MAX_LOGIN_PAYLOAD" "from_slice response = Some answer"
  shows "hello_ok token (read_raw_command \<lparr>pending = upstream_bytes (SendHello token') @ rest, ending = e\<rparr>) = (token' = token)
    \<and> read_response from_slice \<lparr>pending = upstream_bytes (SendLoginResponse response) @ rest, ending = e\<rparr>
         = Ok (Some answer, \<lparr>pending = rest, ending = e\<rparr>)
    \<and> from_relay (\<lambda>_. None) [] \<lparr>pending = concat (map upstream_bytes cmds) @ upstream_bytes SendLock @ rest, ending = e\<rparr>
         = (concat (map upstream_bytes cmds), Ok ProxyLocked, \<lparr>pending = rest, ending = e\<rparr>)
    \<and> read_commands pi pcl ctx \<lparr>pending = concat (map upstream_bytes cmds), ending = e\<rparr>
         = concat (map (\<lambda>c. relay_delivers pi pcl ctx (the (agent_command c))) cmds)
    \<and> (if validateResolution w h
       then relay_delivers pi pcl ctx (the (agent_command (SendResolution w h)))
              = [ToResolution \<lparr>req_width = unat w, req_height = unat h\<rparr>]
       else True)"
proof (intro conjI)
  have "upstream_fits (SendHello token')" using assms(2) by simp
  note hello = upstream_read [OF this, of rest e]
  show "hello_ok token (read_raw_command \<lparr>pending = upstream_bytes (SendHello token') @ rest, ending = e\<rparr>) = (token' = token)"
    unfolding hello by (auto simp: hello_ok_def commandFrame_def relay_cmd_defs cmd_defs)
  have "login_response response = upstream_bytes (SendLoginResponse response)"
    by (simp add: login_response_def commandFrame_def relay_cmd_defs cmd_defs)
  then show "read_response from_slice \<lparr>pending = upstream_bytes (SendLoginResponse response) @ rest, ending = e\<rparr>
         = Ok (Some answer, \<lparr>pending = rest, ending = e\<rparr>)"
    using read_response_login [of from_slice response answer, OF assms(4,3), of rest e] by simp
  have "list_all (\<lambda>c. upstream_fits c \<and> c \<noteq> SendLock) cmds"
    using assms(1) by (auto simp: list_all_iff split: option.splits)
  from proxy_forwards_upstream [OF this, of "[]" rest e]
  show "from_relay (\<lambda>_. None) [] \<lparr>pending = concat (map upstream_bytes cmds) @ upstream_bytes SendLock @ rest, ending = e\<rparr>
         = (concat (map upstream_bytes cmds), Ok ProxyLocked, \<lparr>pending = rest, ending = e\<rparr>)" by simp
  have m: "map upstream_bytes cmds = map encode_relay (map (\<lambda>c. the (agent_command c)) cmds)"
    and "list_all (relay_fits ctx) (map (\<lambda>c. the (agent_command c)) cmds)"
    using assms(1) upstream_bytes_agent by (fastforce simp: list_all_iff split: option.splits)+
  from read_commands_encoded [OF this(2), of pi pcl "[]" e]
  show "read_commands pi pcl ctx \<lparr>pending = concat (map upstream_bytes cmds), ending = e\<rparr>
         = concat (map (\<lambda>c. relay_delivers pi pcl ctx (the (agent_command c))) cmds)"
    unfolding m by (simp add: read_commands_none comp_def)
  show "if validateResolution w h
       then relay_delivers pi pcl ctx (the (agent_command (SendResolution w h)))
              = [ToResolution \<lparr>req_width = unat w, req_height = unat h\<rparr>]
       else True"
    using validated_delivers [of w h pi pcl ctx] by (simp del: relay_delivers.simps)
qed

theorem relay_commands_reach_agent_witness:
  "hello_ok [1, 2] (read_raw_command \<lparr>pending = upstream_bytes (SendHello [1, 2]), ending = None\<rparr>)
   \<and> from_relay (\<lambda>_. None) [] \<lparr>pending = concat (map upstream_bytes [SendViewers 1, SendIDR]) @ upstream_bytes SendLock, ending = None\<rparr>
       = ([4, 0, 0, 0, 1, 1], Ok ProxyLocked, \<lparr>pending = [], ending = None\<rparr>)
   \<and> read_commands (\<lambda>_. None) (\<lambda>_. None) \<lparr>clip_enabled = True, clip_max_bytes = 100\<rparr>
       \<lparr>pending = [4, 0, 0, 0, 1, 1], ending = None\<rparr> = [ToViewers 1, ToIdr]"
proof -
  have b: "concat (map upstream_bytes [SendViewers 1, SendIDR]) = [4, 0, 0, 0, 1, 1]"
    by (simp add: u32Command_def relay_cmd_defs u32_be_def be_bytes_4)
  from relay_commands_reach_agent [of "\<lparr>clip_enabled = True, clip_max_bytes = 100\<rparr>" "[SendViewers 1, SendIDR]" "[1, 2]" "[]" "\<lambda>_. Some []" "[]"
      "[1, 2]" "[]" None "\<lambda>_. None" "\<lambda>_. None" 640 480]
  show ?thesis unfolding b by (simp add: MAX_COMMAND_PAYLOAD_def MAX_LOGIN_PAYLOAD_def)
qed

section \<open>Frames arrive as sent\<close>

lemma framed_wire: "framed (ty, ts, payload) = wire_frame ty ts payload"
  by (simp add: framed_def frame_header_def wire_frame_def)

lemma readFrame_framed:
  assumes "0 < length payload" "length payload \<le> MAX_QUIC_FRAME"
  shows "readFrame \<lparr>pending = framed (ty, ts, payload) @ rest, ending = e\<rparr> =
    (if length payload \<le> maxFramePayloadSize
     then Ok ((\<lparr>uh_type = ty, uh_ts = ts, uh_len = length payload\<rparr>, payload), \<lparr>pending = rest, ending = e\<rparr>)
     else Err (InvalidFrameLength (length payload)))"
proof -
  have len: "unat (word_of_nat (length payload) :: u32) = length payload"
    using assms by (simp add: unat_of_nat MAX_QUIC_FRAME_def)
  have "read_exact 13 \<lparr>pending = framed (ty, ts, payload) @ rest, ending = e\<rparr>
      = Ok (frame_header ty ts (length payload), \<lparr>pending = payload @ rest, ending = e\<rparr>)"
    using read_exact_append [of "frame_header ty ts (length payload)" 13 "payload @ rest" e] by (simp add: framed_def frame_header_def)
  then show ?thesis
    using assms len by (simp add: readFrame_def Let_def read_exact_append frame_header_def)
qed

fun route :: "(byte list \<Rightarrow> bool) \<Rightarrow> byte \<times> u64 \<times> byte list \<Rightarrow> routed option" where
  "route json_valid (ty, ts, payload) =
     (case dispatchFrame json_valid \<lparr>uh_type = ty, uh_ts = ts, uh_len = length payload\<rparr> payload of
        Inl e \<Rightarrow> None
      | Inr r \<Rightarrow> r)"

definition known_type :: "byte \<Rightarrow> bool" where
  "known_type ty \<longleftrightarrow> ty \<in> {MSG_VIDEO, MSG_CURSOR, MSG_RESOLUTION_STATUS, MSG_AUDIO, MSG_CLIPBOARD, MSG_LOGIN}"

lemmas relay_msg_defs = msgVideo_def msgCursor_def msgResolutionStatus_def msgAudio_def msgClipboard_def msgLogin_def
  MSG_VIDEO_def MSG_CURSOR_def MSG_RESOLUTION_STATUS_def MSG_AUDIO_def MSG_CLIPBOARD_def MSG_LOGIN_def

lemma dispatch_known: "known_type ty \<Longrightarrow> \<exists>r. dispatchFrame j \<lparr>uh_type = ty, uh_ts = ts, uh_len = n\<rparr> p = Ok r"
  by (auto simp: known_type_def dispatchFrame_def relay_msg_defs)

lemma readFrames_framed:
  assumes "list_all (\<lambda>(ty, ts, payload). known_type ty \<and> 0 < length payload \<and> length payload \<le> maxFramePayloadSize) msgs"
  shows "readFrames j \<lparr>pending = concat (map framed msgs), ending = None\<rparr>
    = (List.map_filter (route j) msgs, ReadHeader UnexpectedEof)"
  using assms
proof (induction msgs)
  case Nil
  show ?case by (simp add: readFrames.simps [of j "\<lparr>pending = [], ending = None\<rparr>"] readFrame_def read_exact_def map_filter_def)
next
  case (Cons m msgs)
  obtain ty ts p where m: "m = (ty, ts, p)" by (cases m)
  have len: "0 < length p" "length p \<le> maxFramePayloadSize" "length p \<le> MAX_QUIC_FRAME" and known: "known_type ty"
    using Cons.prems m by (auto simp: maxFramePayloadSize_def MAX_QUIC_FRAME_def)
  obtain r where r: "dispatchFrame j \<lparr>uh_type = ty, uh_ts = ts, uh_len = length p\<rparr> p = Ok r" using dispatch_known [OF known] by blast
  have "readFrames j \<lparr>pending = framed (ty, ts, p) @ concat (map framed msgs), ending = None\<rparr>
      = (case readFrames j \<lparr>pending = concat (map framed msgs), ending = None\<rparr> of
           (rs, e) \<Rightarrow> ((case r of None \<Rightarrow> rs | Some x \<Rightarrow> x # rs), e))"
    using readFrame_framed [OF len(1,3), of ty ts "concat (map framed msgs)" None] len(2) r
    by (subst readFrames.simps) simp
  then show ?case
    using Cons m r by (simp add: map_filter_def split: option.splits)
qed

lemma quic_frames_framed:
  assumes "list_all (\<lambda>(ty, ts, payload). length payload \<le> MAX_QUIC_FRAME) msgs"
  shows "to_quic_frames (\<lambda>_. None) out \<lparr>pending = concat (map framed msgs), ending = None\<rparr> = (out @ map framed msgs, UnexpectedEof)"
  using assms
proof (induction msgs arbitrary: out)
  case Nil
  show ?case by (simp add: to_quic_frames.simps [of _ out] read_exact_def)
next
  case (Cons m msgs)
  then show ?case by (cases m) (simp add: framed_wire wire_frame_read)
qed



end
