(* ===== verification/Relay_Frames.thy ===== *)
theory Relay_Frames
  imports Relay_Proto Quic_Frames "HOL-Library.Sublist"
begin

text \<open>
  The video path of the relay (\<open>flux-web/frame.go\<close> and \<open>flux-web/upstream.go\<close>): the bounded queue between
  the reader of a host connection and the pusher towards the viewer, the selection of the next frame,
  keyframe requests and their gate, and the writing of a frame to a stream.  Times are nanoseconds,
  \<open>None\<close> is the zero time.  Channels are lists with a capacity; a send to a full channel fails.
  The order of the operations of the two goroutines is a sequence of events.
\<close>

section \<open>Frames\<close>

record relay_frame =
  rf_ts :: u64
  rf_data :: "byte list"
  rf_received :: "nat option"

function relay_idr_from :: "byte list \<Rightarrow> nat \<Rightarrow> bool" where
  "relay_idr_from data i =
     (if i + 4 < length data
      then if starts_with [0, 0, 0, 1] (drop i data)
           then (if and (data ! (i + 4)) 0x1f = 5 then True else relay_idr_from data (i + 4))
           else if starts_with [0, 0, 1] (drop i data)
           then (if and (data ! (i + 3)) 0x1f = 5 then True else relay_idr_from data (i + 3))
           else relay_idr_from data (i + 1)
      else False)"
  by pat_completeness auto
termination
  by (relation "measure (\<lambda>(data, i). length data - i)") auto

declare relay_idr_from.simps [simp del]

definition isIDRFrame :: "byte list \<Rightarrow> bool" where
  "isIDRFrame data = relay_idr_from data 0"

section \<open>The queue\<close>

definition FRAME_QUEUE :: nat where "FRAME_QUEUE = 120"
definition COMMAND_QUEUE :: nat where "COMMAND_QUEUE = 100"
definition idrRequestInterval :: nat where "idrRequestInterval = 2 * SECOND"
definition maxRelayBacklog :: nat where "maxRelayBacklog = 150 * 10 ^ 6"

definition queueFrame :: "bool \<Rightarrow> relay_frame \<Rightarrow> relay_frame list \<Rightarrow> bool \<times> relay_frame list" where
  "queueFrame stopped f q =
     (if stopped then (False, q)
      else if length q < FRAME_QUEUE then (False, q @ [f])
      else (True, tl q @ [f]))"

text \<open>The newest IDR frame of the queue, or its newest frame if neither the current frame nor the queue
  has one; everything else is dropped.\<close>

fun latestFrame :: "relay_frame list \<Rightarrow> relay_frame \<Rightarrow> bool \<Rightarrow> bool \<Rightarrow> relay_frame \<times> bool \<times> bool" where
  "latestFrame [] current current_idr dropped = (current, current_idr, dropped)"
| "latestFrame (newer # q) current current_idr dropped =
     (let newer_idr = isIDRFrame (rf_data newer) in
      if newer_idr \<or> \<not> current_idr then latestFrame q newer newer_idr True
      else latestFrame q current current_idr True)"

text \<open>The chosen frame, whether it is an IDR frame, whether frames were dropped, and the rest of the queue.\<close>

definition nextFrame :: "nat \<Rightarrow> relay_frame list \<Rightarrow> relay_frame \<Rightarrow> relay_frame \<times> bool \<times> bool \<times> relay_frame list" where
  "nextFrame now q current =
     (if q = [] \<or> rf_received current = None \<or> now - the (rf_received current) \<le> maxRelayBacklog
      then (current, isIDRFrame (rf_data current), False, q)
      else case latestFrame q current (isIDRFrame (rf_data current)) False of
             (f, idr, dropped) \<Rightarrow> (f, idr, dropped, []))"

section \<open>Viewers and keyframe requests\<close>

datatype idr_reason = ViewerRequest | UpstreamDrop | StaleQueue | AwaitingIDR

record idr_stats =
  is_granted :: "idr_reason \<Rightarrow> nat"
  is_suppressed :: "idr_reason \<Rightarrow> nat"

definition idr_record :: "idr_reason \<Rightarrow> bool \<Rightarrow> idr_stats \<Rightarrow> idr_stats" where
  "idr_record reason granted s =
     (if granted then s\<lparr>is_granted := (is_granted s)(reason := is_granted s reason + 1)\<rparr>
      else s\<lparr>is_suppressed := (is_suppressed s)(reason := is_suppressed s reason + 1)\<rparr>)"

text \<open>What the pusher keeps of a session; \<open>vw_pending\<close> is the resolution stashed until the login completes
  (zero for none).\<close>

record viewer =
  vw_id :: nat
  vw_needs_idr :: bool
  vw_has_started :: bool
  vw_initial_requested :: bool
  vw_next_sequence :: u32
  vw_pending :: "u32 \<times> u32"

text \<open>A frame that reached a viewer whole: the viewer, the sequence number, the frame and its flag.\<close>

record delivered =
  dl_viewer :: nat
  dl_sequence :: u32
  dl_frame :: relay_frame
  dl_keyframe :: bool

record upstream_state =
  up_queue :: "relay_frame list"
  up_commands :: "upstream_command list"
  up_gate_last :: "nat option"
  up_stats :: idr_stats
  up_stopped :: bool
  up_viewers :: nat
  up_session :: "viewer option"
  up_delivered :: "delivered list"

definition upstream_new :: upstream_state where
  "upstream_new =
     \<lparr>up_queue = [], up_commands = [], up_gate_last = None,
      up_stats = \<lparr>is_granted = \<lambda>_. 0, is_suppressed = \<lambda>_. 0\<rparr>,
      up_stopped = False, up_viewers = 0, up_session = None, up_delivered = []\<rparr>"

definition send_command :: "upstream_command \<Rightarrow> upstream_state \<Rightarrow> bool \<times> upstream_state" where
  "send_command c u =
     (if length (up_commands u) < COMMAND_QUEUE then (True, u\<lparr>up_commands := up_commands u @ [c]\<rparr>) else (False, u))"

definition gate_allow :: "nat \<Rightarrow> upstream_state \<Rightarrow> bool \<times> upstream_state" where
  "gate_allow now u =
     (case up_gate_last u of
        Some t \<Rightarrow> if now - t < idrRequestInterval then (False, u) else (True, u\<lparr>up_gate_last := Some now\<rparr>)
      | None \<Rightarrow> (True, u\<lparr>up_gate_last := Some now\<rparr>))"

definition sendIDRRequest :: "nat \<Rightarrow> upstream_state \<Rightarrow> bool \<times> upstream_state" where
  "sendIDRRequest now u =
     (case gate_allow now u of
        (False, u) \<Rightarrow> (False, u)
      | (True, u) \<Rightarrow>
          (case send_command SendIDR u of
             (True, u) \<Rightarrow> (True, u)
           | (False, u) \<Rightarrow> (False, u\<lparr>up_gate_last := None\<rparr>)))"

definition requestIDR :: "nat \<Rightarrow> idr_reason \<Rightarrow> upstream_state \<Rightarrow> upstream_state" where
  "requestIDR now reason u =
     (case sendIDRRequest now u of (granted, u) \<Rightarrow> u\<lparr>up_stats := idr_record reason granted (up_stats u)\<rparr>)"

definition requestInitialIDR :: "nat \<Rightarrow> viewer \<Rightarrow> upstream_state \<Rightarrow> viewer \<times> upstream_state" where
  "requestInitialIDR now v u =
     (if vw_initial_requested v then (v, u)
      else case send_command SendIDR u of
             (False, u) \<Rightarrow> (v, u)
           | (True, u) \<Rightarrow>
               (v\<lparr>vw_initial_requested := True\<rparr>,
                u\<lparr>up_stats := idr_record ViewerRequest True (up_stats u), up_gate_last := Some now\<rparr>))"

text \<open>The frame to be skipped and the upstream after it; the viewer waits for an IDR frame.\<close>

definition skipFrameUntilIDR :: "nat \<Rightarrow> viewer \<Rightarrow> bool \<Rightarrow> upstream_state \<Rightarrow> bool \<times> upstream_state" where
  "skipFrameUntilIDR now v idr u =
     (if \<not> vw_needs_idr v \<or> idr then (False, u) else (True, requestIDR now AwaitingIDR u))"

section \<open>Joining and leaving\<close>

definition sendViewerCount :: "nat \<Rightarrow> upstream_state \<Rightarrow> upstream_state" where
  "sendViewerCount n u = snd (send_command (SendViewers (word_of_nat n)) u)"

definition stop_upstream :: "upstream_state \<Rightarrow> upstream_state" where
  "stop_upstream u = u\<lparr>up_stopped := True, up_queue := []\<rparr>"

text \<open>The last viewer to leave stops the upstream.\<close>

definition release_upstream :: "upstream_state \<Rightarrow> upstream_state" where
  "release_upstream u =
     (let n = up_viewers u - 1; u = sendViewerCount n (u\<lparr>up_viewers := n\<rparr>)
      in if n = 0 then stop_upstream u else u)"

definition releaseNow :: "upstream_state \<Rightarrow> upstream_state" where
  "releaseNow u = (case up_session u of None \<Rightarrow> u | Some v \<Rightarrow> release_upstream (u\<lparr>up_session := None\<rparr>))"

text \<open>An upstream with a viewer is in use; the session is bound to one without.\<close>

definition bind_viewer :: "nat \<Rightarrow> u32 \<times> u32 \<Rightarrow> upstream_state \<Rightarrow> upstream_state" where
  "bind_viewer vid pend u =
     (if up_viewers u > 0 then u
      else let u = sendViewerCount 1 (u\<lparr>up_viewers := 1\<rparr>)
           in u\<lparr>up_session := Some \<lparr>vw_id = vid, vw_needs_idr = False, vw_has_started = False,
                                    vw_initial_requested = False, vw_next_sequence = 0, vw_pending = pend\<rparr>\<rparr>)"

definition set_viewer :: "viewer \<Rightarrow> upstream_state \<Rightarrow> upstream_state" where
  "set_viewer v u = u\<lparr>up_session := Some v\<rparr>"

text \<open>A failed resolution change ends the session.\<close>

definition request_resolution :: "u32 \<times> u32 \<Rightarrow> upstream_state \<Rightarrow> bool \<times> upstream_state" where
  "request_resolution wh u =
     (if fst wh \<noteq> 0 \<and> snd wh \<noteq> 0 then send_command (SendResolution (fst wh) (snd wh)) u else (True, u))"

text \<open>The start of a viewer that needs no login: the keyframe, then the resolution.\<close>

definition start_viewer :: "nat \<Rightarrow> u32 \<times> u32 \<Rightarrow> upstream_state \<Rightarrow> upstream_state" where
  "start_viewer now wh u =
     (case up_session u of
        None \<Rightarrow> u
      | Some v \<Rightarrow>
          (case requestInitialIDR now (v\<lparr>vw_needs_idr := True\<rparr>) u of
             (v, u) \<Rightarrow>
               (case request_resolution wh (set_viewer v u) of
                  (True, u) \<Rightarrow> u
                | (False, u) \<Rightarrow> releaseNow u)))"

text \<open>The start once the login has succeeded: the stashed resolution, then the keyframe.\<close>

definition deferredStart :: "nat \<Rightarrow> upstream_state \<Rightarrow> upstream_state" where
  "deferredStart now u =
     (case up_session u of
        None \<Rightarrow> u
      | Some v \<Rightarrow>
          let wh = vw_pending v; v = v\<lparr>vw_needs_idr := True\<rparr>;
              v = (if fst wh \<noteq> 0 \<and> snd wh \<noteq> 0 then v\<lparr>vw_pending := (0, 0)\<rparr> else v)
          in case request_resolution wh (set_viewer v u) of
               (False, u) \<Rightarrow> releaseNow u
             | (True, u) \<Rightarrow> (case requestInitialIDR now v u of (v, u) \<Rightarrow> set_viewer v u))"

section \<open>Writing a frame\<close>

definition shouldResetFrame :: "bool \<Rightarrow> nat \<Rightarrow> nat \<Rightarrow> bool" where
  "shouldResetFrame keyframe writing_for queued \<longleftrightarrow> \<not> keyframe \<and> queued > 0 \<and> writing_for > 16 * 10 ^ 6"

text \<open>Before each write: the time spent and the frames queued by then; and the answer of the stream.  A stream
  with no answer left is cancelled with its transport.\<close>

datatype stream_answer = Accepted nat | StreamError

record write_turn =
  wt_spent :: nat
  wt_queued :: nat
  wt_answer :: stream_answer

datatype write_end = FrameSent | FrameReset | FrameFailed

function chunks_of :: "byte list \<Rightarrow> byte list list" where
  "chunks_of data = (if data = [] then [] else take 16384 data # chunks_of (drop 16384 data))"
  by pat_completeness auto
termination
  by (relation "measure length") auto

declare chunks_of.simps [simp del]

fun write_chunks :: "bool \<Rightarrow> write_turn list \<Rightarrow> byte list list \<Rightarrow> byte list \<times> write_end" where
  "write_chunks keyframe ts [] = ([], FrameSent)"
| "write_chunks keyframe ts ([] # cs) = write_chunks keyframe ts cs"
| "write_chunks keyframe [] (c # cs) = ([], FrameFailed)"
| "write_chunks keyframe (t # ts) ((b # bs) # cs) =
     (if shouldResetFrame keyframe (wt_spent t) (wt_queued t) then ([], FrameReset)
      else case wt_answer t of
             StreamError \<Rightarrow> ([], FrameFailed)
           | Accepted n \<Rightarrow>
               if n = 0 then ([], FrameFailed)
               else (case write_chunks keyframe ts (drop n (b # bs) # cs) of
                       (sent, r) \<Rightarrow> (take n (b # bs) @ sent, r)))"

record push_env =
  pe_now :: nat
  pe_dropped_at :: nat
  pe_request_at :: nat
  pe_opens :: bool
  pe_turns :: "write_turn list"
  pe_closes :: bool

definition writeFrame :: "push_env \<Rightarrow> u32 \<Rightarrow> relay_frame \<Rightarrow> bool \<Rightarrow> byte list \<times> write_end" where
  "writeFrame env seq f keyframe =
     (if \<not> pe_opens env then ([], FrameFailed)
      else case write_chunks keyframe (pe_turns env)
                  (encodeVideoFrameHeader seq (rf_ts f) (rf_data f) keyframe # chunks_of (rf_data f)) of
             (sent, FrameSent) \<Rightarrow> (sent, if pe_closes env then FrameSent else FrameFailed)
           | r \<Rightarrow> r)"

section \<open>The pusher\<close>

definition after_write :: "push_env \<Rightarrow> viewer \<Rightarrow> relay_frame \<Rightarrow> bool \<Rightarrow> upstream_state \<Rightarrow> upstream_state" where
  "after_write env v f idr u =
     (let seq = vw_next_sequence v; v = v\<lparr>vw_next_sequence := seq + 1\<rparr> in
      case snd (writeFrame env seq f idr) of
        FrameSent \<Rightarrow>
          set_viewer v (u\<lparr>up_delivered := up_delivered u
            @ [\<lparr>dl_viewer = vw_id v, dl_sequence = seq, dl_frame = f, dl_keyframe = idr\<rparr>]\<rparr>)
      | FrameReset \<Rightarrow> requestIDR (pe_request_at env) StaleQueue (set_viewer (v\<lparr>vw_needs_idr := True\<rparr>) u)
      | FrameFailed \<Rightarrow> releaseNow (set_viewer (v\<lparr>vw_needs_idr := True\<rparr>) u))"

text \<open>A frame that was chosen, for the viewer that is bound.\<close>

definition push_chosen :: "push_env \<Rightarrow> viewer \<Rightarrow> relay_frame \<Rightarrow> bool \<Rightarrow> bool \<Rightarrow> upstream_state \<Rightarrow> upstream_state" where
  "push_chosen env v f idr was_dropped u =
     (let v = (if was_dropped then v\<lparr>vw_needs_idr := True\<rparr> else v);
          u = (if was_dropped then requestIDR (pe_dropped_at env) StaleQueue (set_viewer v u) else u)
      in case skipFrameUntilIDR (pe_request_at env) v idr u of
           (True, u) \<Rightarrow> u
         | (False, u) \<Rightarrow>
             after_write env (v\<lparr>vw_needs_idr := False, vw_has_started := vw_has_started v \<or> idr\<rparr>) f idr u)"

text \<open>One turn of \<open>framePusher\<close> on a frame of the queue.\<close>

definition push_frame :: "push_env \<Rightarrow> upstream_state \<Rightarrow> upstream_state" where
  "push_frame env u =
     (case up_queue u of
        [] \<Rightarrow> u
      | current # q \<Rightarrow>
          (case nextFrame (pe_now env) q current of
             (f, idr, was_dropped, q) \<Rightarrow>
               let u = u\<lparr>up_queue := q\<rparr> in
               (case up_session u of
                  None \<Rightarrow> u
                | Some v \<Rightarrow> push_chosen env v f idr was_dropped u)))"

text \<open>A video frame of the host: it is queued, and a keyframe requested when another is dropped for it.\<close>

definition arrive_frame :: "nat \<Rightarrow> relay_frame \<Rightarrow> upstream_state \<Rightarrow> upstream_state" where
  "arrive_frame now f u =
     (case queueFrame (up_stopped u) f (up_queue u) of
        (was_dropped, q) \<Rightarrow>
          let u = u\<lparr>up_queue := q\<rparr> in if was_dropped then requestIDR now UpstreamDrop u else u)"

definition keyframe_request :: "nat \<Rightarrow> upstream_state \<Rightarrow> upstream_state" where
  "keyframe_request now u =
     (case up_session u of
        None \<Rightarrow> u
      | Some v \<Rightarrow> requestIDR now ViewerRequest (set_viewer (v\<lparr>vw_needs_idr := True\<rparr>) u))"

text \<open>The events of an upstream: the reader, the pusher, the handlers of the viewer's session, the command
  writer, and a stop by the registry.\<close>

datatype relay_event =
    Arrives nat relay_frame
  | Pushes push_env
  | Binds nat "u32 \<times> u32"
  | Starts nat "u32 \<times> u32"
  | LoginDone nat
  | Leaves
  | AsksKeyframe nat
  | WriterTakes
  | Stops

fun relay_step :: "relay_event \<Rightarrow> upstream_state \<Rightarrow> upstream_state" where
  "relay_step (Arrives now f) u = arrive_frame now f u"
| "relay_step (Pushes env) u = (if up_stopped u then u else push_frame env u)"
| "relay_step (Binds vid pend) u = bind_viewer vid pend u"
| "relay_step (Starts now wh) u = start_viewer now wh u"
| "relay_step (LoginDone now) u = deferredStart now u"
| "relay_step Leaves u = releaseNow u"
| "relay_step (AsksKeyframe now) u = keyframe_request now u"
| "relay_step WriterTakes u = u\<lparr>up_commands := tl (up_commands u)\<rparr>"
| "relay_step Stops u = stop_upstream u"

fun relay_run :: "relay_event list \<Rightarrow> upstream_state \<Rightarrow> upstream_state" where
  "relay_run [] u = u"
| "relay_run (e # es) u = relay_run es (relay_step e u)"

fun arrivals :: "relay_event list \<Rightarrow> relay_frame list" where
  "arrivals [] = []"
| "arrivals (Arrives now f # es) = f # arrivals es"
| "arrivals (_ # es) = arrivals es"

section \<open>Frame conditions\<close>

lemma requestIDR_frame [simp]:
  "up_queue (requestIDR now r u) = up_queue u" "up_session (requestIDR now r u) = up_session u"
  "up_delivered (requestIDR now r u) = up_delivered u" "up_stopped (requestIDR now r u) = up_stopped u"
  by (simp_all add: requestIDR_def sendIDRRequest_def gate_allow_def send_command_def split: option.split)

lemma sendViewerCount_frame [simp]:
  "up_queue (sendViewerCount n u) = up_queue u" "up_session (sendViewerCount n u) = up_session u"
  "up_delivered (sendViewerCount n u) = up_delivered u" "up_stopped (sendViewerCount n u) = up_stopped u"
  by (simp_all add: sendViewerCount_def send_command_def)

lemma set_viewer_frame [simp]:
  "up_queue (set_viewer v u) = up_queue u" "up_session (set_viewer v u) = Some v"
  "up_delivered (set_viewer v u) = up_delivered u" "up_stopped (set_viewer v u) = up_stopped u"
  by (simp_all add: set_viewer_def)

text \<open>Leaving keeps the queue or stops the upstream with an empty one.\<close>

lemma release_upstream_frame:
  "up_session (release_upstream u) = up_session u \<and> up_delivered (release_upstream u) = up_delivered u
   \<and> (up_queue (release_upstream u) = up_queue u \<and> up_stopped (release_upstream u) = up_stopped u
      \<or> up_queue (release_upstream u) = [] \<and> up_stopped (release_upstream u))"
  by (simp add: release_upstream_def stop_upstream_def Let_def)

lemma releaseNow_frame:
  "up_session (releaseNow u) = None \<and> up_delivered (releaseNow u) = up_delivered u
   \<and> (up_queue (releaseNow u) = up_queue u \<and> up_stopped (releaseNow u) = up_stopped u
      \<or> up_queue (releaseNow u) = [] \<and> up_stopped (releaseNow u))"
  using release_upstream_frame [of "u\<lparr>up_session := None\<rparr>"]
  by (auto simp: releaseNow_def split: option.split)

lemma requestInitialIDR_frame:
  assumes "requestInitialIDR now v u = (v', u')"
  shows "up_queue u' = up_queue u" "up_delivered u' = up_delivered u" "up_stopped u' = up_stopped u"
    "up_session u' = up_session u" "vw_needs_idr v' = vw_needs_idr v" "vw_has_started v' = vw_has_started v"
  using assms by (auto simp: requestInitialIDR_def send_command_def split: if_splits)

lemma request_resolution_frame:
  assumes "request_resolution wh u = (r, u')"
  shows "up_queue u' = up_queue u" "up_delivered u' = up_delivered u" "up_stopped u' = up_stopped u"
    "up_session u' = up_session u"
  using assms by (auto simp: request_resolution_def send_command_def split: if_splits)

text \<open>A step that moves no frame: nothing is delivered, the queue stays or is emptied by a stop, and a
  viewer it leaves bound waits for an IDR frame or is the one before.\<close>

definition quiet :: "upstream_state \<Rightarrow> upstream_state \<Rightarrow> bool" where
  "quiet u u' \<longleftrightarrow> up_delivered u' = up_delivered u
     \<and> (up_queue u' = up_queue u \<and> up_stopped u' = up_stopped u \<or> up_queue u' = [] \<and> up_stopped u')
     \<and> (case up_session u' of None \<Rightarrow> True
        | Some v \<Rightarrow> vw_needs_idr v \<or> \<not> vw_has_started v \<or> up_session u' = up_session u)"

lemma quiet_releaseNow:
  assumes "up_delivered u1 = up_delivered u" "up_queue u1 = up_queue u" "up_stopped u1 = up_stopped u"
  shows "quiet u (releaseNow u1)"
  using releaseNow_frame [of u1] assms by (auto simp: quiet_def)

lemma quiet_bind: "quiet u (bind_viewer vid pend u)"
  by (simp add: quiet_def bind_viewer_def Let_def split: option.split)

lemma quiet_start: "quiet u (start_viewer now wh u)"
proof (cases "up_session u")
  case (Some v)
  obtain v1 u1 where i: "requestInitialIDR now (v\<lparr>vw_needs_idr := True\<rparr>) u = (v1, u1)" by fastforce
  obtain r u2 where q: "request_resolution wh (set_viewer v1 u1) = (r, u2)" by fastforce
  note f = requestInitialIDR_frame [OF i] request_resolution_frame [OF q]
  show ?thesis
  proof (cases r)
    case True
    then show ?thesis using Some i q f by (simp add: start_viewer_def quiet_def)
  next
    case False
    moreover have "quiet u (releaseNow u2)" using f by (intro quiet_releaseNow) simp_all
    ultimately show ?thesis using Some i q by (simp add: start_viewer_def)
  qed
qed (simp add: start_viewer_def quiet_def)

lemma quiet_deferred: "quiet u (deferredStart now u)"
proof (cases "up_session u")
  case (Some v)
  define w where "w = (if fst (vw_pending v) \<noteq> 0 \<and> snd (vw_pending v) \<noteq> 0 then v\<lparr>vw_needs_idr := True, vw_pending := (0, 0)\<rparr>
    else v\<lparr>vw_needs_idr := True\<rparr>)"
  obtain r u2 where q: "request_resolution (vw_pending v) (set_viewer w u) = (r, u2)" by fastforce
  obtain v1 u1 where i: "requestInitialIDR now w u2 = (v1, u1)" by fastforce
  note f = requestInitialIDR_frame [OF i] request_resolution_frame [OF q]
  have eq: "deferredStart now u = (if r then set_viewer v1 u1 else releaseNow u2)"
    using Some q i by (simp add: deferredStart_def Let_def w_def split: if_splits)
  have "vw_needs_idr w" by (simp add: w_def)
  moreover have "quiet u (releaseNow u2)" using f by (intro quiet_releaseNow) simp_all
  ultimately show ?thesis using f unfolding eq by (simp add: quiet_def)
qed (simp add: deferredStart_def quiet_def)

lemma quiet_keyframe: "quiet u (keyframe_request now u)"
  by (simp add: quiet_def keyframe_request_def split: option.split)

section \<open>What a push does\<close>

text \<open>Either nothing is delivered and a viewer that stays waits for an IDR frame, or the chosen frame is
  delivered under the next sequence number.\<close>

definition push_silent :: "upstream_state \<Rightarrow> relay_frame list \<Rightarrow> upstream_state \<Rightarrow> bool" where
  "push_silent u q u' \<longleftrightarrow> up_delivered u' = up_delivered u
     \<and> (up_queue u' = q \<and> up_stopped u' = up_stopped u \<or> up_queue u' = [] \<and> up_stopped u')
     \<and> (case up_session u' of None \<Rightarrow> True | Some v \<Rightarrow> vw_needs_idr v)"

definition push_delivers :: "upstream_state \<Rightarrow> viewer \<Rightarrow> relay_frame \<Rightarrow> bool \<Rightarrow> relay_frame list \<Rightarrow> upstream_state \<Rightarrow> bool" where
  "push_delivers u v f idr q u' \<longleftrightarrow>
     up_delivered u' = up_delivered u
       @ [\<lparr>dl_viewer = vw_id v, dl_sequence = vw_next_sequence v, dl_frame = f, dl_keyframe = idr\<rparr>]
     \<and> up_queue u' = q \<and> up_stopped u' = up_stopped u
     \<and> (\<exists>v'. up_session u' = Some v' \<and> vw_id v' = vw_id v \<and> vw_next_sequence v' = vw_next_sequence v + 1
            \<and> vw_has_started v' = (vw_has_started v \<or> idr))"

lemma after_write_cases:
  "push_silent u (up_queue u) (after_write env v f idr u) \<or> push_delivers u v f idr (up_queue u) (after_write env v f idr u)
     \<and> vw_has_started v = (vw_has_started v \<or> idr)"
  if "idr \<longrightarrow> vw_has_started v"
proof (cases "snd (writeFrame env (vw_next_sequence v) f idr)")
  case FrameFailed
  then show ?thesis
    using releaseNow_frame [of "set_viewer (v\<lparr>vw_next_sequence := vw_next_sequence v + 1, vw_needs_idr := True\<rparr>) u"]
    by (auto simp: after_write_def Let_def push_silent_def)
qed (use that in \<open>auto simp: after_write_def Let_def push_silent_def push_delivers_def\<close>)

lemma push_chosen_cases:
  "push_silent u (up_queue u) (push_chosen env v f idr was_dropped u)
   \<or> push_delivers u v f idr (up_queue u) (push_chosen env v f idr was_dropped u)
     \<and> (idr \<or> \<not> vw_needs_idr v \<and> \<not> was_dropped)"
  if "up_session u = Some v"
proof -
  define w where "w = (if was_dropped then v\<lparr>vw_needs_idr := True\<rparr> else v)"
  define u1 where "u1 = (if was_dropped then requestIDR (pe_dropped_at env) StaleQueue (set_viewer w u) else u)"
  have u1: "up_queue u1 = up_queue u" "up_delivered u1 = up_delivered u" "up_stopped u1 = up_stopped u" "up_session u1 = Some w"
    using that by (simp_all add: u1_def w_def)
  have w: "vw_id w = vw_id v" "vw_next_sequence w = vw_next_sequence v" "vw_has_started w = vw_has_started v"
    "vw_needs_idr w = (vw_needs_idr v \<or> was_dropped)" by (simp_all add: w_def)
  show ?thesis
  proof (cases "vw_needs_idr w \<and> \<not> idr")
    case True
    then have "push_chosen env v f idr was_dropped u = requestIDR (pe_request_at env) AwaitingIDR u1"
      by (simp add: push_chosen_def skipFrameUntilIDR_def Let_def flip: w_def u1_def)
    then show ?thesis using u1 True by (simp add: push_silent_def)
  next
    case False
    then have eq: "push_chosen env v f idr was_dropped u
      = after_write env (w\<lparr>vw_needs_idr := False, vw_has_started := vw_has_started w \<or> idr\<rparr>) f idr u1"
      by (auto simp add: push_chosen_def skipFrameUntilIDR_def Let_def simp flip: w_def u1_def)
    show ?thesis
      unfolding eq
      using after_write_cases [of idr "w\<lparr>vw_needs_idr := False, vw_has_started := vw_has_started w \<or> idr\<rparr>" u1 env f] False u1 w
      by (auto simp: push_silent_def push_delivers_def)
  qed
qed

lemma push_frame_cases:
  assumes "up_queue u = current # q" "nextFrame (pe_now env) q current = (f, idr, was_dropped, q')"
  shows "push_silent u q' (push_frame env u)
    \<or> (\<exists>v. up_session u = Some v \<and> push_delivers u v f idr q' (push_frame env u)
         \<and> (idr \<or> \<not> vw_needs_idr v \<and> \<not> was_dropped))"
proof (cases "up_session u")
  case None
  then show ?thesis using assms by (simp add: push_frame_def Let_def push_silent_def)
next
  case (Some v)
  then show ?thesis
    using assms push_chosen_cases [of "u\<lparr>up_queue := q'\<rparr>" v env f idr was_dropped]
    by (auto simp: push_frame_def Let_def push_silent_def push_delivers_def)
qed

text \<open>The choice of the next frame: a frame of the queue, with the rest of it or none.\<close>

lemma latestFrame_mem:
  "latestFrame q current b d = (f, idr, d') \<Longrightarrow> b = isIDRFrame (rf_data current) \<Longrightarrow>
     f \<in> set (current # q) \<and> idr = isIDRFrame (rf_data f) \<and> (d' \<longleftrightarrow> d \<or> q \<noteq> [])"
  by (induction q current b d rule: latestFrame.induct) (auto simp: Let_def split: if_splits)

lemma nextFrame_spec:
  assumes "nextFrame now q current = (f, idr, was_dropped, q')"
  shows "idr = isIDRFrame (rf_data f)" "subseq (f # q') (current # q)" "\<not> was_dropped \<Longrightarrow> f = current \<and> q' = q"
  using assms by (auto simp: nextFrame_def subseq_singleton_left dest!: latestFrame_mem split: if_splits prod.splits)

section \<open>Frames stay in order\<close>

definition in_order :: "relay_frame list \<Rightarrow> upstream_state \<Rightarrow> bool" where
  "in_order arr u \<longleftrightarrow> subseq (map dl_frame (up_delivered u) @ up_queue u) arr
     \<and> list_all (\<lambda>d. dl_keyframe d = isIDRFrame (rf_data (dl_frame d))) (up_delivered u)"

lemma subseq_drop_right: "subseq (xs @ ys) zs \<Longrightarrow> subseq xs zs"
  by (meson subseq_order.trans list_emb_append2 prefix_imp_subseq prefixI)

lemma in_order_less:
  assumes "in_order arr u" "up_delivered u' = up_delivered u" "up_queue u' = up_queue u \<or> up_queue u' = []"
  shows "in_order arr u'"
  using assms subseq_drop_right by (fastforce simp: in_order_def)

lemma in_order_arrive: "in_order arr u \<Longrightarrow> in_order (arr @ [f]) (arrive_frame now f u)"
proof -
  assume "in_order arr u"
  then have s: "subseq (map dl_frame (up_delivered u) @ up_queue u) arr" by (simp add: in_order_def)
  have "subseq (map dl_frame (up_delivered u) @ tl (up_queue u)) arr"
    by (rule subseq_order.trans [OF _ s]) (cases "up_queue u"; simp add: subseq_append' list_emb_Cons)
  then have "subseq ((map dl_frame (up_delivered u) @ tl (up_queue u)) @ [f]) (arr @ [f])"
    by (simp only: subseq_append)
  moreover have "subseq ((map dl_frame (up_delivered u) @ up_queue u) @ [f]) (arr @ [f])"
    using s by (simp only: subseq_append)
  moreover have "subseq (map dl_frame (up_delivered u) @ up_queue u) (arr @ [f])"
    by (rule subseq_order.trans [OF s]) (simp add: subseq_rev_drop_many)
  ultimately show ?thesis
    using \<open>in_order arr u\<close> by (simp add: in_order_def arrive_frame_def queueFrame_def Let_def)
qed

lemma in_order_push: "in_order arr u \<Longrightarrow> in_order arr (push_frame env u)"
proof (cases "up_queue u")
  case (Cons current q)
  assume io: "in_order arr u"
  obtain f idr was_dropped q' where n: "nextFrame (pe_now env) q current = (f, idr, was_dropped, q')"
    by (metis prod_cases4)
  note spec = nextFrame_spec [OF n]
  have s: "subseq (map dl_frame (up_delivered u) @ f # q') arr"
    by (rule subseq_order.trans [of _ "map dl_frame (up_delivered u) @ current # q"])
      (use io Cons spec(2) in \<open>simp_all add: in_order_def subseq_append' del: subseq_Cons2_iff\<close>)
  have s': "subseq (map dl_frame (up_delivered u) @ q') arr" "subseq (map dl_frame (up_delivered u)) arr"
    by (rule subseq_order.trans [OF _ s], simp add: subseq_append' list_emb_Cons) (rule subseq_drop_right [OF s])
  show ?thesis
    using push_frame_cases [OF Cons n] io s s' spec(1)
    by (auto simp: in_order_def push_silent_def push_delivers_def)
qed (simp add: push_frame_def)

lemma quiet_step:
  assumes "\<And>now f. e \<noteq> Arrives now f" "\<And>env. e \<noteq> Pushes env"
  shows "quiet u (relay_step e u)"
proof (cases e)
  case Leaves
  then show ?thesis using quiet_releaseNow [of u u] by simp
qed (use assms quiet_bind quiet_start quiet_deferred quiet_keyframe in
      \<open>auto simp: quiet_def stop_upstream_def split: option.split\<close>)

lemma in_order_step: "in_order arr u \<Longrightarrow> in_order (arr @ arrivals [e]) (relay_step e u)"
proof -
  assume io: "in_order arr u"
  show ?thesis
  proof (cases "(\<exists>now f. e = Arrives now f) \<or> (\<exists>env. e = Pushes env)")
    case True
    then show ?thesis using io in_order_arrive in_order_push by auto
  next
    case False
    then have "quiet u (relay_step e u)" by (intro quiet_step) auto
    then have "in_order arr (relay_step e u)" by (intro in_order_less [OF io]) (auto simp: quiet_def)
    moreover have "arrivals [e] = []" using False by (cases e) auto
    ultimately show ?thesis by simp
  qed
qed

lemma arrivals_Cons: "arrivals (e # es) = arrivals [e] @ arrivals es"
  by (cases e) simp_all

lemma in_order_run: "in_order arr u \<Longrightarrow> in_order (arr @ arrivals es) (relay_run es u)"
proof (induction es arbitrary: arr u)
  case (Cons e es)
  then show ?case using Cons.IH [OF in_order_step [OF Cons.prems, of e]] arrivals_Cons [of e es] by simp
qed simp

lemma in_order_new: "in_order [] upstream_new"
  by (simp add: in_order_def upstream_new_def)

text \<open>What is on the stream is a prefix of the encoded frame, the whole of it when the frame counts as sent.\<close>

lemma write_chunks_spec:
  "write_chunks k ts cs = (sent, r) \<Longrightarrow> prefix sent (concat cs) \<and> (r = FrameSent \<longrightarrow> sent = concat cs)"
proof (induction k ts cs arbitrary: sent r rule: write_chunks.induct)
  case (4 keyframe t ts b bs cs)
  have split: "take n (b # bs) @ drop n (b # bs) @ concat cs = (b # bs) @ concat cs" for n
    by (metis append.assoc append_take_drop_id)
  show ?case
  proof (cases "shouldResetFrame keyframe (wt_spent t) (wt_queued t) \<or> wt_answer t = StreamError \<or> wt_answer t = Accepted 0")
    case True
    then show ?thesis using "4.prems" by (auto split: if_splits)
  next
    case False
    then obtain n where n: "wt_answer t = Accepted n" "n \<noteq> 0" by (cases "wt_answer t") auto
    obtain sent' where w: "write_chunks keyframe ts (drop n (b # bs) # cs) = (sent', r)" "sent = take n (b # bs) @ sent'"
      using "4.prems" False n by (auto split: prod.splits)
    from "4.IH" [OF _ n(1) _ w(1)] False n have "prefix sent' (drop n (b # bs) @ concat cs)"
      "r = FrameSent \<longrightarrow> sent' = drop n (b # bs) @ concat cs" by auto
    then show ?thesis using w(2) split [of n] by (metis concat.simps(2) same_prefix_prefix)
  qed
qed auto

lemma concat_chunks: "concat (chunks_of data) = data"
  by (induction data rule: chunks_of.induct) (subst chunks_of.simps, simp)

lemma writeFrame_spec:
  assumes "writeFrame env seq f k = (sent, r)"
  shows "prefix sent (encodeVideoFrameHeader seq (rf_ts f) (rf_data f) k @ rf_data f)"
    "r = FrameSent \<Longrightarrow> sent = encodeVideoFrameHeader seq (rf_ts f) (rf_data f) k @ rf_data f"
  using assms
  by (auto simp: writeFrame_def concat_chunks dest!: write_chunks_spec split: if_splits prod.splits write_end.splits)


section \<open>What a viewer can decode\<close>

text \<open>A run in which the queue never overflows, the pusher never falls behind by more than the backlog it
  allows, and no frame but an IDR frame is pushed to a viewer that has been bound but not started.\<close>

fun undisturbed_step :: "relay_event \<Rightarrow> upstream_state \<Rightarrow> bool" where
  "undisturbed_step (Arrives now f) u = (length (up_queue u) < FRAME_QUEUE)"
| "undisturbed_step (Pushes env) u =
     (case up_queue u of
        [] \<Rightarrow> True
      | current # q \<Rightarrow>
          (case nextFrame (pe_now env) q current of (f, idr, was_dropped, q') \<Rightarrow>
             \<not> was_dropped \<and> (case up_session u of None \<Rightarrow> True | Some v \<Rightarrow> vw_needs_idr v \<or> vw_has_started v \<or> idr)))"
| "undisturbed_step _ u = True"

fun undisturbed :: "relay_event list \<Rightarrow> upstream_state \<Rightarrow> bool" where
  "undisturbed [] u = True"
| "undisturbed (e # es) u = (undisturbed_step e u \<and> undisturbed es (relay_step e u))"

text \<open>A decodable segment: one viewer, an IDR frame first, consecutive sequence numbers.\<close>

fun continues :: "delivered \<Rightarrow> delivered list \<Rightarrow> bool" where
  "continues d [] = True"
| "continues d (e # ds) = (dl_viewer e = dl_viewer d \<and> dl_sequence e = dl_sequence d + 1 \<and> continues e ds)"

fun decodable_segment :: "delivered list \<Rightarrow> bool" where
  "decodable_segment [] = False"
| "decodable_segment (d # ds) = (isIDRFrame (rf_data (dl_frame d)) \<and> continues d ds)"

text \<open>The frames of the host as gaps, frames that were not delivered, and segments, frames that were.\<close>

type_synonym part = "relay_frame list \<times> delivered list"

definition part_frames :: "part list \<Rightarrow> relay_frame list" where
  "part_frames parts = concat (map (\<lambda>(gap, seg). gap @ map dl_frame seg) parts)"

definition part_delivered :: "part list \<Rightarrow> delivered list" where
  "part_delivered parts = concat (map snd parts)"

lemma part_frames_snoc [simp]: "part_frames (parts @ [(g, seg)]) = part_frames parts @ g @ map dl_frame seg"
  by (simp add: part_frames_def)

lemma part_delivered_snoc [simp]: "part_delivered (parts @ [(g, seg)]) = part_delivered parts @ seg"
  by (simp add: part_delivered_def)

lemma continues_snoc:
  "continues d (ds @ [e]) \<longleftrightarrow> continues d ds
     \<and> dl_viewer e = dl_viewer (last (d # ds)) \<and> dl_sequence e = dl_sequence (last (d # ds)) + 1"
  by (induction d ds rule: continues.induct) auto

lemma decodable_snoc:
  "decodable_segment seg \<Longrightarrow> dl_viewer e = dl_viewer (last seg) \<Longrightarrow> dl_sequence e = dl_sequence (last seg) + 1
     \<Longrightarrow> decodable_segment (seg @ [e])"
  by (cases seg) (auto simp: continues_snoc)

text \<open>The viewer is in step: the last frame taken from the queue was delivered to it.\<close>

definition in_step :: "viewer \<Rightarrow> part list \<Rightarrow> relay_frame list \<Rightarrow> bool" where
  "in_step v parts gap \<longleftrightarrow> gap = [] \<and> parts \<noteq> []
     \<and> dl_viewer (last (snd (last parts))) = vw_id v \<and> dl_sequence (last (snd (last parts))) + 1 = vw_next_sequence v"

definition decoding :: "relay_frame list \<Rightarrow> upstream_state \<Rightarrow> part list \<Rightarrow> relay_frame list \<Rightarrow> bool" where
  "decoding arr u parts gap \<longleftrightarrow> arr = part_frames parts @ gap @ up_queue u
     \<and> up_delivered u = part_delivered parts \<and> list_all (decodable_segment \<circ> snd) parts
     \<and> (up_stopped u \<longrightarrow> up_queue u = [])
     \<and> (case up_session u of None \<Rightarrow> True
        | Some v \<Rightarrow> up_stopped u \<or> vw_needs_idr v \<or> \<not> vw_has_started v \<or> in_step v parts gap)"

lemma decoding_quiet:
  assumes "decoding arr u parts gap" "quiet u u'"
  shows "\<exists>gap'. decoding arr u' parts gap'"
proof (cases "up_queue u' = up_queue u \<and> up_stopped u' = up_stopped u")
  case True
  then have "decoding arr u' parts gap"
    using assms by (auto simp: decoding_def quiet_def split: option.splits)
  then show ?thesis ..
next
  case False
  then have "decoding arr u' parts (gap @ up_queue u)"
    using assms by (auto simp: decoding_def quiet_def split: option.splits)
  then show ?thesis ..
qed

lemma decoding_arrive:
  assumes "decoding arr u parts gap" "length (up_queue u) < FRAME_QUEUE"
  shows "\<exists>gap'. decoding (arr @ [f]) (arrive_frame now f u) parts gap'"
proof (cases "up_stopped u")
  case True
  then have "decoding (arr @ [f]) (arrive_frame now f u) parts (gap @ [f])"
    using assms(1) by (auto simp: decoding_def arrive_frame_def queueFrame_def Let_def split: option.splits)
  then show ?thesis ..
next
  case False
  then have "decoding (arr @ [f]) (arrive_frame now f u) parts gap"
    using assms by (auto simp: decoding_def arrive_frame_def queueFrame_def Let_def split: option.splits)
  then show ?thesis ..
qed

lemma decoding_delivered:
  assumes d: "decoding arr u parts gap" and q: "up_queue u = f # q" and ns: "\<not> up_stopped u" and v: "up_session u = Some v"
    and p: "push_delivers u v f idr q u'" and idr: "idr = isIDRFrame (rf_data f)"
    and k: "idr \<or> \<not> vw_needs_idr v \<and> vw_has_started v"
  shows "\<exists>parts' gap'. decoding arr u' parts' gap'"
proof -
  let ?d = "\<lparr>dl_viewer = vw_id v, dl_sequence = vw_next_sequence v, dl_frame = f, dl_keyframe = idr\<rparr>"
  obtain v' where v': "up_session u' = Some v'" "vw_id v' = vw_id v" "vw_next_sequence v' = vw_next_sequence v + 1"
    using p by (auto simp: push_delivers_def)
  have u': "up_delivered u' = part_delivered parts @ [?d]" "up_queue u' = q" "\<not> up_stopped u'"
    using p d ns by (auto simp: push_delivers_def decoding_def)
  show ?thesis
  proof (cases idr)
    case True
    have "decoding arr u' (parts @ [(gap, [?d])]) []"
      using d q u' v' True idr by (simp add: decoding_def in_step_def)
    then show ?thesis by blast
  next
    case False
    then have "in_step v parts gap" using d k ns v by (simp add: decoding_def)
    then obtain ps g seg where parts: "parts = ps @ [(g, seg)]" "gap = []"
      and l: "dl_viewer (last seg) = vw_id v" "dl_sequence (last seg) + 1 = vw_next_sequence v"
      by (cases parts rule: rev_cases) (auto simp: in_step_def)
    have "decodable_segment (seg @ [?d])" using d parts l by (intro decodable_snoc) (auto simp: decoding_def)
    then have "decoding arr u' (ps @ [(g, seg @ [?d])]) []"
      using d q u' v' parts by (simp add: decoding_def in_step_def)
    then show ?thesis by blast
  qed
qed

lemma decoding_push:
  assumes d: "decoding arr u parts gap" and "undisturbed_step (Pushes env) u" and ns: "\<not> up_stopped u"
  shows "\<exists>parts' gap'. decoding arr (push_frame env u) parts' gap'"
proof (cases "up_queue u")
  case Nil
  then show ?thesis using d by (auto simp: push_frame_def)
next
  case (Cons current q)
  obtain f idr was_dropped q' where n: "nextFrame (pe_now env) q current = (f, idr, was_dropped, q')"
    by (metis prod_cases4)
  have nd: "\<not> was_dropped" and st: "\<And>v. up_session u = Some v \<Longrightarrow> vw_needs_idr v \<or> vw_has_started v \<or> idr"
    using assms(2) Cons n by auto
  note spec = nextFrame_spec(1,3) [OF n]
  have f: "f = current" "q' = q" using spec(2) nd by auto
  consider "push_silent u q' (push_frame env u)"
    | v where "up_session u = Some v" "push_delivers u v f idr q' (push_frame env u)" "idr \<or> \<not> vw_needs_idr v"
    using push_frame_cases [OF Cons n] by auto
  then show ?thesis
  proof cases
    case 1
    show ?thesis
    proof (cases "up_queue (push_frame env u) = q \<and> up_stopped (push_frame env u) = up_stopped u")
      case True
      then have "decoding arr (push_frame env u) parts (gap @ [f])"
        using d 1 Cons f ns by (auto simp: decoding_def push_silent_def split: option.splits)
      then show ?thesis by blast
    next
      case False
      then have "decoding arr (push_frame env u) parts (gap @ f # q)"
        using d 1 Cons f by (auto simp: decoding_def push_silent_def split: option.splits)
      then show ?thesis by blast
    qed
  next
    case 2
    show ?thesis
      by (rule decoding_delivered [OF d _ ns 2(1), of f q idr]) (use Cons f 2 st spec(1) in auto)
  qed
qed

lemma decoding_step:
  assumes "decoding arr u parts gap" "undisturbed_step e u"
  shows "\<exists>parts' gap'. decoding (arr @ arrivals [e]) (relay_step e u) parts' gap'"
proof (cases "(\<exists>now f. e = Arrives now f) \<or> (\<exists>env. e = Pushes env)")
  case True
  then show ?thesis
    using assms decoding_arrive [OF assms(1)] decoding_push [OF assms(1)] by (fastforce simp del: undisturbed_step.simps(2))
next
  case False
  then have "quiet u (relay_step e u)" by (intro quiet_step) auto
  moreover have "arrivals [e] = []" using False by (cases e) auto
  ultimately show ?thesis using decoding_quiet [OF assms(1)] by fastforce
qed

lemma decoding_run:
  "decoding arr u parts gap \<Longrightarrow> undisturbed es u \<Longrightarrow> \<exists>parts' gap'. decoding (arr @ arrivals es) (relay_run es u) parts' gap'"
proof (induction es arbitrary: arr u parts gap)
  case Nil
  then show ?case by auto
next
  case (Cons e es)
  from Cons.prems obtain parts' gap' where "decoding (arr @ arrivals [e]) (relay_step e u) parts' gap'"
    using decoding_step by (metis undisturbed.simps(2))
  from Cons.IH [OF this] Cons.prems(2) show ?case by (simp add: arrivals_Cons [of e es])
qed


text \<open>A small session: an IDR frame and a P frame of five bytes, and a stream that takes what it is given.\<close>

definition sample_idr :: "nat \<Rightarrow> relay_frame" where
  "sample_idr t = \<lparr>rf_ts = word_of_nat t, rf_data = [0, 0, 0, 1, 0x65], rf_received = Some t\<rparr>"

definition sample_p :: "nat \<Rightarrow> relay_frame" where
  "sample_p t = \<lparr>rf_ts = word_of_nat t, rf_data = [0, 0, 0, 1, 0x41], rf_received = Some t\<rparr>"

definition sample_env :: "nat \<Rightarrow> push_env" where
  "sample_env t = \<lparr>pe_now = t, pe_dropped_at = t, pe_request_at = t, pe_opens = True,
     pe_turns = [\<lparr>wt_spent = 0, wt_queued = 0, wt_answer = Accepted 18\<rparr>, \<lparr>wt_spent = 0, wt_queued = 0, wt_answer = Accepted 5\<rparr>],
     pe_closes = True\<rparr>"

lemma sample_is_idr [simp]: "isIDRFrame (rf_data (sample_idr t))" "\<not> isIDRFrame (rf_data (sample_p t))"
  by (simp_all add: sample_idr_def sample_p_def isIDRFrame_def relay_idr_from.simps starts_with_def)

lemma sample_received [simp]: "rf_received (sample_idr t) = Some t" "rf_received (sample_p t) = Some t"
  "pe_now (sample_env t) = t" "pe_dropped_at (sample_env t) = t" "pe_request_at (sample_env t) = t"
  by (simp_all add: sample_idr_def sample_p_def sample_env_def)

lemma sample_write [simp]:
  "snd (writeFrame (sample_env t) seq (sample_idr t') k) = FrameSent" "snd (writeFrame (sample_env t) seq (sample_p t') k) = FrameSent"
  by (simp_all add: writeFrame_def sample_env_def sample_idr_def sample_p_def chunks_of.simps shouldResetFrame_def
      encodeVideoFrameHeader_def)

lemmas relay_eval = upstream_new_def bind_viewer_def start_viewer_def sendViewerCount_def send_command_def COMMAND_QUEUE_def
  requestInitialIDR_def request_resolution_def set_viewer_def arrive_frame_def queueFrame_def FRAME_QUEUE_def push_frame_def
  nextFrame_def push_chosen_def skipFrameUntilIDR_def after_write_def idr_record_def Let_def


section \<open>What the relay does not notice\<close>

text \<open>C32: The two ways the relay itself drops frames break what a viewer can decode.  When a full queue
  gives up its oldest frame for a new one, the frame after it is delivered to the viewer, with no gap in
  the sequence numbers and the viewer not marked as waiting for an IDR frame.  And when the pusher is behind, it
  chooses a queued IDR frame over the frames that came after it, counts the viewer as recovered, and then delivers a P
  frame whose predecessor it discarded; the keyframe request is suppressed by the gate.\<close>

theorem relay_drops_unnoticed:
  assumes "up_queue u = a # b # q" "length (up_queue u) = FRAME_QUEUE" "\<not> up_stopped u"
    and "up_session u = Some v" "\<not> vw_needs_idr v" "\<not> isIDRFrame (rf_data b)" "rf_received b = Some r"
    and "pe_now env \<le> r + maxRelayBacklog" "snd (writeFrame env (vw_next_sequence v) b False) = FrameSent"
  shows "up_delivered (relay_run [Arrives now f, Pushes env] u) = up_delivered u
      @ [\<lparr>dl_viewer = vw_id v, dl_sequence = vw_next_sequence v, dl_frame = b, dl_keyframe = False\<rparr>]
    \<and> up_session (relay_run [Arrives now f, Pushes env] u) = Some (v\<lparr>vw_next_sequence := vw_next_sequence v + 1\<rparr>)
    \<and> (let u' = relay_run [Binds 7 (0, 0), Starts 0 (0, 0), Arrives 1 (sample_idr 1), Pushes (sample_env 2),
           Arrives 10 (sample_p 10), Arrives 20 (sample_idr 20), Arrives 30 (sample_p 30), Pushes (sample_env 150000011),
           Arrives 150000012 (sample_p 150000012), Pushes (sample_env 150000013)] upstream_new
       in map dl_frame (up_delivered u') = [sample_idr 1, sample_idr 20, sample_p 150000012]
        \<and> map dl_sequence (up_delivered u') = [0, 1, 2] \<and> up_commands u' = [SendViewers 1, SendIDR])"
proof (intro conjI)
  have "\<not> length (up_queue u) < FRAME_QUEUE" "pe_now env - r \<le> maxRelayBacklog" using assms(2,8) by simp_all
  then have n: "nextFrame (pe_now env) (q @ [f]) b = (b, False, False, q @ [f])" and
    ar: "arrive_frame now f u = requestIDR now UpstreamDrop (u\<lparr>up_queue := b # q @ [f]\<rparr>)"
    using assms by (simp_all add: nextFrame_def arrive_frame_def queueFrame_def)
  show "up_delivered (relay_run [Arrives now f, Pushes env] u) = up_delivered u
      @ [\<lparr>dl_viewer = vw_id v, dl_sequence = vw_next_sequence v, dl_frame = b, dl_keyframe = False\<rparr>]"
    and "up_session (relay_run [Arrives now f, Pushes env] u) = Some (v\<lparr>vw_next_sequence := vw_next_sequence v + 1\<rparr>)"
    using assms by (simp_all add: ar n push_frame_def push_chosen_def skipFrameUntilIDR_def after_write_def Let_def)
next
  show "let u' = relay_run [Binds 7 (0, 0), Starts 0 (0, 0), Arrives 1 (sample_idr 1), Pushes (sample_env 2),
           Arrives 10 (sample_p 10), Arrives 20 (sample_idr 20), Arrives 30 (sample_p 30), Pushes (sample_env 150000011),
           Arrives 150000012 (sample_p 150000012), Pushes (sample_env 150000013)] upstream_new
       in map dl_frame (up_delivered u') = [sample_idr 1, sample_idr 20, sample_p 150000012]
        \<and> map dl_sequence (up_delivered u') = [0, 1, 2] \<and> up_commands u' = [SendViewers 1, SendIDR]"
    by (simp add: relay_eval maxRelayBacklog_def requestIDR_def sendIDRRequest_def gate_allow_def idrRequestInterval_def SECOND_def)
qed

definition sample_full :: upstream_state where
  "sample_full = upstream_new\<lparr>up_queue := sample_p 1 # sample_p 2 # replicate 118 (sample_p 3), up_viewers := 1,
     up_session := Some \<lparr>vw_id = 7, vw_needs_idr = False, vw_has_started = True, vw_initial_requested = True,
                         vw_next_sequence = 5, vw_pending = (0, 0)\<rparr>\<rparr>"

theorem relay_drops_unnoticed_witness:
  "up_queue sample_full = sample_p 1 # sample_p 2 # replicate 118 (sample_p 3)
   \<and> length (up_queue sample_full) = FRAME_QUEUE
   \<and> map dl_frame (up_delivered (relay_run [Arrives 4 (sample_p 4), Pushes (sample_env 5)] sample_full)) = [sample_p 2]
   \<and> map dl_sequence (up_delivered (relay_run [Arrives 4 (sample_p 4), Pushes (sample_env 5)] sample_full)) = [5]"
proof -
  let ?v = "\<lparr>vw_id = 7, vw_needs_idr = False, vw_has_started = True, vw_initial_requested = True,
             vw_next_sequence = 5, vw_pending = (0, 0)\<rparr> :: viewer"
  have q: "up_queue sample_full = sample_p 1 # sample_p 2 # replicate 118 (sample_p 3)"
    and l: "length (up_queue sample_full) = FRAME_QUEUE" and ns: "\<not> up_stopped sample_full"
    and v: "up_session sample_full = Some ?v" and d: "up_delivered sample_full = []"
    by (simp_all add: sample_full_def upstream_new_def FRAME_QUEUE_def)
  have "pe_now (sample_env 5) \<le> 2 + maxRelayBacklog" by (simp add: maxRelayBacklog_def)
  from relay_drops_unnoticed [OF q l ns v _ _ _ this, of 4 "sample_p 4"] q l d show ?thesis by simp
qed

end
