(* ===== verification/Relay_Rate.thy ===== *)
theory Relay_Rate
  imports Relay_Proto "HOL-Library.AList"
begin

text \<open>
  The bitrate control of the relay: the delivery estimator of a viewer (\<open>flux-web/bwe.go\<close>), the target of an
  upstream's encoder (\<open>flux-web/abr.go\<close>), and the tick that joins them (\<open>runBandwidthEstimator\<close> of
  \<open>webtransport.go\<close>).  Times and durations are nanoseconds and \<open>None\<close> is the zero time.  The factors 0.85,
  1.12, 0.05 and 0.10 are applied as fractions: on targets of at most 50,000 kbps, and windows of fewer
  than \<open>2 ^ 40\<close> packets, the rounded double products and quotients fall on the same side.  The weights
  0.25 and 0.125 are exact in a double.  The conversion of a delay to milliseconds and back is not, and is the parameter \<open>queue_ns\<close>.
\<close>

section \<open>The delivery estimator\<close>

definition abrMinKbps :: nat where "abrMinKbps = 1500"
definition abrMaxBitrateKbps :: nat where "abrMaxBitrateKbps = 50000"
definition abrInitialBitrateKbps :: nat where "abrInitialBitrateKbps = 5000"
definition bweQueueThreshold :: nat where "bweQueueThreshold = 30 * 10 ^ 6"
definition bweRTTThreshold :: int where "bweRTTThreshold = 50 * 10 ^ 6"
definition bweUpdateInterval :: nat where "bweUpdateInterval = 500 * 10 ^ 6"
definition bweDelayWindow :: nat where "bweDelayWindow = 10 * SECOND"
definition bweMaxOutstanding :: nat where "bweMaxOutstanding = 256"

record sent_frame =
  sf_at :: nat
  sf_bytes :: nat

record estimator =
  de_target :: nat
  de_ceiling :: nat
  de_last_update :: nat
  de_last_change :: nat
  de_suppress :: nat
  de_outstanding :: "(u32 \<times> sent_frame) list"
  de_send_order :: "(u32 \<times> nat) list"
  de_delays :: "(nat \<times> nat) list"
  de_queue :: nat
  de_have_queue :: bool
  de_last_sample :: nat
  de_smoothed_rtt :: int
  de_min_rtt :: int
  de_packets_sent :: nat
  de_packets_lost :: nat
  de_have_stats :: bool
  de_window_sent :: nat
  de_window_lost :: nat
  de_loss :: "nat \<times> nat"

definition newDeliveryEstimator :: "nat \<Rightarrow> nat \<Rightarrow> estimator" where
  "newDeliveryEstimator initial now =
     \<lparr>de_target = (if initial = 0 then abrInitialBitrateKbps else initial), de_ceiling = abrMaxBitrateKbps,
      de_last_update = now, de_last_change = now, de_suppress = 0, de_outstanding = [], de_send_order = [],
      de_delays = [], de_queue = 0, de_have_queue = False, de_last_sample = 0, de_smoothed_rtt = 0, de_min_rtt = 0,
      de_packets_sent = 0, de_packets_lost = 0, de_have_stats = False, de_window_sent = 0, de_window_lost = 0, de_loss = (0, 1)\<rparr>"

definition clampDeliveryTarget :: "nat \<Rightarrow> nat \<Rightarrow> nat" where
  "clampDeliveryTarget kbps ceiling =
     (let kbps = (if kbps < abrMinKbps then abrMinKbps else kbps);
          ceiling = (if ceiling = 0 \<or> ceiling > abrMaxBitrateKbps then abrMaxBitrateKbps else ceiling);
          ceiling = (if ceiling < abrMinKbps then abrMinKbps else ceiling)
      in if kbps > ceiling then ceiling else kbps)"

text \<open>The frames a viewer has not acknowledged: a map of the sequence number, and their order of
  sending.  An entry of the order that no longer agrees with the map is stale.\<close>

fun sweep_order :: "nat \<Rightarrow> (u32 \<times> nat) list \<Rightarrow> (u32 \<times> sent_frame) list \<Rightarrow> (u32 \<times> nat) list \<times> (u32 \<times> sent_frame) list" where
  "sweep_order at [] out = ([], out)"
| "sweep_order at ((seq, t) # order) out =
     (case map_of out seq of
        Some s \<Rightarrow>
          if sf_at s = t then
            if at - t \<le> bweDelayWindow
            then (case sweep_order at order out of (kept, out) \<Rightarrow> ((seq, t) # kept, out))
            else sweep_order at order (AList.delete seq out)
          else sweep_order at order out
      | None \<Rightarrow> sweep_order at order out)"

fun evict_oldest :: "(u32 \<times> nat) list \<Rightarrow> (u32 \<times> sent_frame) list \<Rightarrow> (u32 \<times> nat) list \<times> (u32 \<times> sent_frame) list" where
  "evict_oldest [] out = ([], out)"
| "evict_oldest ((seq, t) # order) out =
     (if length out > bweMaxOutstanding
      then evict_oldest order
             (case map_of out seq of Some s \<Rightarrow> if sf_at s = t then AList.delete seq out else out | None \<Rightarrow> out)
      else ((seq, t) # order, out))"

definition onFrameSent :: "u32 \<Rightarrow> nat \<Rightarrow> nat \<Rightarrow> estimator \<Rightarrow> estimator" where
  "onFrameSent seq bytes at e =
     (case sweep_order at (de_send_order e) (de_outstanding e) of
        (order, out) \<Rightarrow>
          (case evict_oldest (order @ [(seq, at)]) ((seq, \<lparr>sf_at = at, sf_bytes = bytes\<rparr>) # AList.delete seq out) of
             (order, out) \<Rightarrow> e\<lparr>de_send_order := order, de_outstanding := out\<rparr>))"

text \<open>An acknowledgement with a valid time of the client adds a sample; the queue is the delay above the
  smallest of the window.  \<open>first\<close> counts the samples out of the window and that many are dropped from the front.\<close>

definition onFrameAck :: "(nat \<Rightarrow> nat \<Rightarrow> nat) \<Rightarrow> u32 \<Rightarrow> bool \<Rightarrow> nat \<Rightarrow> estimator \<Rightarrow> estimator" where
  "onFrameAck queue_ns seq done_ok at e =
     (case map_of (de_outstanding e) seq of
        None \<Rightarrow> e
      | Some sent \<Rightarrow>
          let e = e\<lparr>de_outstanding := AList.delete seq (de_outstanding e)\<rparr> in
          if at < sf_at sent \<or> at - sf_at sent > bweDelayWindow \<or> \<not> done_ok then e
          else let delay = at - sf_at sent;
                   samples = de_delays e @ [(at, delay)];
                   fresh = filter (\<lambda>(t, d). at - t \<le> bweDelayWindow) samples;
                   first = length samples - length fresh;
                   queue = queue_ns delay (Min (set (map snd fresh)))
               in e\<lparr>de_delays := drop first samples, de_last_sample := at, de_have_queue := True,
                    de_queue := (if de_have_queue e then (3 * de_queue e + queue) div 4 else queue)\<rparr>)"

definition forget_frame :: "u32 \<Rightarrow> estimator \<Rightarrow> estimator" where
  "forget_frame seq e =
     e\<lparr>de_outstanding := AList.delete seq (de_outstanding e),
       de_send_order := filter (\<lambda>(s, t). s \<noteq> seq) (de_send_order e)\<rparr>"

definition onTransportStats :: "int \<Rightarrow> int \<Rightarrow> nat \<Rightarrow> nat \<Rightarrow> estimator \<Rightarrow> estimator" where
  "onTransportStats smoothed minimum sent lost e =
     e\<lparr>de_smoothed_rtt := smoothed, de_min_rtt := minimum,
       de_window_sent := de_window_sent e + (if de_have_stats e \<and> sent \<ge> de_packets_sent e then sent - de_packets_sent e else 0),
       de_window_lost := de_window_lost e + (if de_have_stats e \<and> lost \<ge> de_packets_lost e then lost - de_packets_lost e else 0),
       de_packets_sent := sent, de_packets_lost := lost, de_have_stats := True\<rparr>"

definition setCeilingKbps :: "nat \<Rightarrow> estimator \<Rightarrow> estimator" where
  "setCeilingKbps ceiling e =
     (let ceiling = (if ceiling = 0 then abrMaxBitrateKbps else ceiling);
          ceiling = (if ceiling < abrMinKbps then abrMinKbps else ceiling)
      in e\<lparr>de_ceiling := ceiling, de_target := clampDeliveryTarget (de_target e) ceiling\<rparr>)"

text \<open>\<open>math.Round\<close> of the product with 0.85 and with 1.12.\<close>

definition decreased :: "nat \<Rightarrow> nat" where "decreased kbps = (17 * kbps + 10) div 20"
definition increased :: "nat \<Rightarrow> nat" where "increased kbps = (56 * kbps + 25) div 50"

text \<open>The part of \<open>update\<close> before the decision: the loss of the window, and a queue that is too old.\<close>

definition refresh_window :: "nat \<Rightarrow> estimator \<Rightarrow> estimator" where
  "refresh_window now e =
     (let e = e\<lparr>de_last_update := now,
                de_loss := (if de_window_sent e > 0 then (de_window_lost e, de_window_sent e) else (0, 1)),
                de_window_sent := 0, de_window_lost := 0\<rparr>
      in if de_have_queue e \<and> now - de_last_sample e > SECOND then e\<lparr>de_have_queue := False, de_queue := 0\<rparr> else e)"

definition congested :: "estimator \<Rightarrow> bool" where
  "congested e \<longleftrightarrow> de_have_queue e \<and> de_queue e > bweQueueThreshold
     \<or> de_smoothed_rtt e - de_min_rtt e > bweRTTThreshold
     \<or> 20 * fst (de_loss e) > snd (de_loss e)"

definition change_target :: "nat \<Rightarrow> nat \<Rightarrow> estimator \<Rightarrow> bool \<times> estimator" where
  "change_target now kbps e =
     (let kbps = clampDeliveryTarget kbps (de_ceiling e) in
      if kbps = de_target e then (False, e) else (True, e\<lparr>de_target := kbps, de_last_change := now\<rparr>))"

definition update_estimate :: "nat \<Rightarrow> estimator \<Rightarrow> bool \<times> estimator" where
  "update_estimate now e =
     (if now - de_last_update e < bweUpdateInterval then (False, e)
      else let e = refresh_window now e in
           if congested e then
             let e = e\<lparr>de_suppress := now + SECOND\<rparr> in
             if now - de_last_change e < bweUpdateInterval then (False, e)
             else change_target now (decreased (de_target e)) e
           else if now - de_last_change e < 2 * SECOND \<or> now < de_suppress e then (False, e)
           else change_target now (increased (de_target e)) e)"

section \<open>The target of the encoder\<close>

definition abrRTTInflation :: int where "abrRTTInflation = 75 * 10 ^ 6"
definition abrRTTBaseWindow :: nat where "abrRTTBaseWindow = 30 * SECOND"
definition abrEstimateInterval :: nat where "abrEstimateInterval = 500 * 10 ^ 6"

text \<open>\<open>ab_room\<close> is the room left in the command channel, \<open>ab_sent\<close> the bitrates put in it.\<close>

record abr_state =
  ab_room :: nat
  ab_sent :: "nat list"
  ab_bytes :: nat
  ab_sample_start :: "nat option"
  ab_measured :: nat
  ab_target :: nat
  ab_ceiling :: nat
  ab_base_rtt :: int
  ab_smoothed_rtt :: int
  ab_window_min :: int
  ab_window_started :: "nat option"
  ab_last_estimate :: "nat option"
  ab_loss_notable :: bool
  ab_rtt_inflated :: bool

definition abr_new :: "nat \<Rightarrow> abr_state" where
  "abr_new room =
     \<lparr>ab_room = room, ab_sent = [], ab_bytes = 0, ab_sample_start = None, ab_measured = 0, ab_target = 0, ab_ceiling = 0,
      ab_base_rtt = 0, ab_smoothed_rtt = 0, ab_window_min = 0, ab_window_started = None, ab_last_estimate = None,
      ab_loss_notable = False, ab_rtt_inflated = False\<rparr>"

definition countFrameBytes :: "(nat \<Rightarrow> nat \<Rightarrow> nat) \<Rightarrow> nat \<Rightarrow> nat \<Rightarrow> abr_state \<Rightarrow> abr_state" where
  "countFrameBytes kbps_over now n a =
     (let start = (case ab_sample_start a of None \<Rightarrow> now | Some t \<Rightarrow> t); bytes = ab_bytes a + n in
      if now - start \<ge> SECOND
      then a\<lparr>ab_measured := kbps_over bytes (now - start), ab_bytes := 0, ab_sample_start := Some now\<rparr>
      else a\<lparr>ab_bytes := bytes, ab_sample_start := Some start\<rparr>)"

definition sendBitrateCommand :: "nat \<Rightarrow> abr_state \<Rightarrow> abr_state" where
  "sendBitrateCommand kbps a =
     (if ab_room a > 0 then a\<lparr>ab_room := ab_room a - 1, ab_sent := ab_sent a @ [kbps]\<rparr> else a)"

definition setSenderTarget :: "nat \<Rightarrow> abr_state \<Rightarrow> abr_state" where
  "setSenderTarget kbps a =
     (let a = a\<lparr>ab_ceiling := kbps\<rparr> in
      if kbps = 0 \<or> ab_target a \<le> kbps then a else sendBitrateCommand kbps (a\<lparr>ab_target := kbps\<rparr>))"

definition initialBitrateKbps :: "abr_state \<Rightarrow> nat" where
  "initialBitrateKbps a =
     (if ab_ceiling a = 0 then abrInitialBitrateKbps
      else let kbps = ab_ceiling a;
               kbps = (if kbps < abrMinKbps then abrMinKbps else kbps)
           in if kbps > abrMaxBitrateKbps then abrMaxBitrateKbps else kbps)"

definition senderCeilingKbps :: "abr_state \<Rightarrow> nat" where
  "senderCeilingKbps a =
     (if ab_ceiling a = 0 \<or> ab_ceiling a > abrMaxBitrateKbps then abrMaxBitrateKbps else ab_ceiling a)"

definition onRTTSample :: "nat \<Rightarrow> int \<Rightarrow> abr_state \<Rightarrow> abr_state" where
  "onRTTSample now rtt a =
     (if rtt \<le> 0 then a
      else let started = (case ab_window_started a of None \<Rightarrow> now | Some t \<Rightarrow> t);
               wmin = (if ab_window_min a = 0 \<or> rtt < ab_window_min a then rtt else ab_window_min a);
               a = a\<lparr>ab_window_started := Some started, ab_window_min := wmin\<rparr>;
               a = (if ab_base_rtt a = 0 \<or> rtt < ab_base_rtt a then a\<lparr>ab_base_rtt := rtt\<rparr>
                    else if now - started \<ge> abrRTTBaseWindow
                    then a\<lparr>ab_base_rtt := wmin, ab_window_min := 0, ab_window_started := Some now\<rparr>
                    else a);
               a = a\<lparr>ab_smoothed_rtt := (if ab_smoothed_rtt a = 0 then rtt else (7 * ab_smoothed_rtt a + rtt) div 8)\<rparr>
           in a\<lparr>ab_rtt_inflated := (ab_smoothed_rtt a - ab_base_rtt a > abrRTTInflation)\<rparr>)"

definition onReceiverReport :: "nat \<times> nat \<Rightarrow> abr_state \<Rightarrow> abr_state" where
  "onReceiverReport loss a = a\<lparr>ab_loss_notable := (20 * fst loss > snd loss)\<rparr>"

definition bitrateEstimateIsMaterial :: "nat \<Rightarrow> nat \<Rightarrow> nat \<Rightarrow> bool" where
  "bitrateEstimateIsMaterial current nxt ceiling \<longleftrightarrow>
     (if current = nxt then False
      else if nxt = abrMinKbps \<or> ceiling \<noteq> 0 \<and> nxt = ceiling then True
      else if current = 0 then True
      else 10 * (if nxt > current then nxt - current else current - nxt) \<ge> current)"

definition onEstimate :: "nat \<Rightarrow> nat \<Rightarrow> abr_state \<Rightarrow> abr_state" where
  "onEstimate now kbps a =
     (if kbps = 0 then a
      else let kbps = (if kbps < abrMinKbps then abrMinKbps else kbps);
               kbps = (if ab_ceiling a \<noteq> 0 \<and> kbps > ab_ceiling a then ab_ceiling a else kbps)
           in if (case ab_last_estimate a of None \<Rightarrow> False | Some t \<Rightarrow> now - t < abrEstimateInterval) then a
              else if ab_target a \<noteq> 0 \<and> \<not> bitrateEstimateIsMaterial (ab_target a) kbps (ab_ceiling a) then a
              else sendBitrateCommand kbps (a\<lparr>ab_target := kbps, ab_last_estimate := Some now\<rparr>))"

section \<open>The tick\<close>

text \<open>One turn of the 500 ms ticker; the statistics are there when the connection is known.\<close>

record tick_env =
  tk_now :: nat
  tk_stats :: "(int \<times> int \<times> nat \<times> nat) option"

definition apply_statistics :: "tick_env \<Rightarrow> estimator \<Rightarrow> abr_state \<Rightarrow> estimator \<times> abr_state" where
  "apply_statistics env e a =
     (case tk_stats env of
        None \<Rightarrow> (e, a)
      | Some (smoothed, minimum, sent, lost) \<Rightarrow>
          let e = onTransportStats smoothed minimum sent lost e
          in (e, onReceiverReport (de_loss e) (onRTTSample (tk_now env) smoothed a)))"

definition bandwidth_tick :: "tick_env \<Rightarrow> estimator \<Rightarrow> abr_state \<Rightarrow> estimator \<times> abr_state" where
  "bandwidth_tick env e a =
     (case apply_statistics env (setCeilingKbps (senderCeilingKbps a) e) a of
        (e, a) \<Rightarrow> let e = snd (update_estimate (tk_now env) e) in (e, onEstimate (tk_now env) (de_target e) a))"

text \<open>A session that starts: the estimator begins at the initial bitrate, under the sender's ceiling.\<close>

definition start_estimator :: "nat \<Rightarrow> abr_state \<Rightarrow> estimator \<times> abr_state" where
  "start_estimator now a =
     (let initial = initialBitrateKbps a
      in (setCeilingKbps (senderCeilingKbps a) (newDeliveryEstimator initial now), onEstimate now initial a))"

datatype rate_event =
    Tick tick_env
  | SenderTarget nat
  | FrameBytes nat nat
  | FrameSentAt u32 nat nat
  | FrameAcked u32 bool nat
  | FrameForgotten u32
  | ChannelDrained nat

fun bitrate_step :: "(nat \<Rightarrow> nat \<Rightarrow> nat) \<Rightarrow> (nat \<Rightarrow> nat \<Rightarrow> nat) \<Rightarrow> rate_event \<Rightarrow> estimator \<times> abr_state \<Rightarrow> estimator \<times> abr_state" where
  "bitrate_step queue_ns kbps_over (Tick env) (e, a) = bandwidth_tick env e a"
| "bitrate_step queue_ns kbps_over (SenderTarget kbps) (e, a) = (e, setSenderTarget kbps a)"
| "bitrate_step queue_ns kbps_over (FrameBytes now n) (e, a) = (e, countFrameBytes kbps_over now n a)"
| "bitrate_step queue_ns kbps_over (FrameSentAt seq n at) (e, a) = (onFrameSent seq n at e, a)"
| "bitrate_step queue_ns kbps_over (FrameAcked seq done_ok at) (e, a) = (onFrameAck queue_ns seq done_ok at e, a)"
| "bitrate_step queue_ns kbps_over (FrameForgotten seq) (e, a) = (forget_frame seq e, a)"
| "bitrate_step queue_ns kbps_over (ChannelDrained n) (e, a) = (e, a\<lparr>ab_room := n\<rparr>)"

fun bitrate_run :: "(nat \<Rightarrow> nat \<Rightarrow> nat) \<Rightarrow> (nat \<Rightarrow> nat \<Rightarrow> nat) \<Rightarrow> rate_event list \<Rightarrow> estimator \<times> abr_state \<Rightarrow> estimator \<times> abr_state" where
  "bitrate_run queue_ns kbps_over [] s = s"
| "bitrate_run queue_ns kbps_over (ev # evs) s = bitrate_run queue_ns kbps_over evs (bitrate_step queue_ns kbps_over ev s)"

section \<open>Bounds\<close>

lemmas rate_consts = abrMinKbps_def abrMaxBitrateKbps_def abrInitialBitrateKbps_def

lemma clamp_bounds:
  "abrMinKbps \<le> clampDeliveryTarget k c" "clampDeliveryTarget k c \<le> abrMaxBitrateKbps"
  "abrMinKbps \<le> c \<Longrightarrow> clampDeliveryTarget k c \<le> c"
  by (simp_all add: clampDeliveryTarget_def Let_def rate_consts)

lemma clamp_eq: "abrMinKbps \<le> c \<Longrightarrow> c \<le> abrMaxBitrateKbps \<Longrightarrow> clampDeliveryTarget k c = min c (max abrMinKbps k)"
  by (simp add: clampDeliveryTarget_def Let_def rate_consts)

definition est_ok :: "estimator \<Rightarrow> bool" where
  "est_ok e \<longleftrightarrow> abrMinKbps \<le> de_target e \<and> de_target e \<le> de_ceiling e \<and> de_ceiling e \<le> abrMaxBitrateKbps
     \<and> de_last_change e \<le> de_last_update e"

definition abr_ok :: "abr_state \<Rightarrow> bool" where
  "abr_ok a \<longleftrightarrow> ab_target a \<le> abrMaxBitrateKbps \<and> (if ab_ceiling a = 0 then True else ab_target a \<le> ab_ceiling a)
     \<and> list_all (\<lambda>k. 0 < k \<and> k \<le> abrMaxBitrateKbps) (ab_sent a)"

lemma est_ok_frame [simp]:
  "de_target (refresh_window now e) = de_target e" "de_ceiling (refresh_window now e) = de_ceiling e"
  "de_last_change (refresh_window now e) = de_last_change e" "de_last_update (refresh_window now e) = now"
  "de_suppress (refresh_window now e) = de_suppress e"
  by (simp_all add: refresh_window_def Let_def)

lemma est_ok_ceiling: "est_ok e \<Longrightarrow> c \<le> abrMaxBitrateKbps \<Longrightarrow> est_ok (setCeilingKbps c e)"
  by (auto simp: est_ok_def setCeilingKbps_def Let_def rate_consts clampDeliveryTarget_def)

lemma est_ok_change:
  "est_ok e \<Longrightarrow> now = de_last_update e \<Longrightarrow> est_ok (snd (change_target now k e))"
  using clamp_bounds(1,3) [of k "de_ceiling e"] clamp_bounds(3) [of "de_ceiling e" k]
  by (auto simp: est_ok_def change_target_def Let_def)

lemma est_ok_update:
  assumes "est_ok e"
  shows "est_ok (snd (update_estimate now e))"
proof (cases "now - de_last_update e < bweUpdateInterval")
  case False
  then have le: "de_last_change e \<le> now"
    using assms by (cases "now \<le> de_last_update e") (auto simp: est_ok_def bweUpdateInterval_def)
  then have r: "est_ok (refresh_window now e)" "est_ok ((refresh_window now e)\<lparr>de_suppress := t\<rparr>)" for t
    using assms by (simp_all add: est_ok_def)
  then show ?thesis using False est_ok_change [of "refresh_window now e" now] est_ok_change [OF r(2), of now]
    by (simp add: update_estimate_def Let_def)
qed (use assms in \<open>simp add: update_estimate_def\<close>)

lemma est_ok_frames:
  "est_ok (onFrameSent seq n at e) = est_ok e" "est_ok (onFrameAck queue_ns seq ok at e) = est_ok e"
  "est_ok (forget_frame seq e) = est_ok e" "est_ok (onTransportStats x y sent lost e) = est_ok e"
  by (simp_all add: est_ok_def onFrameSent_def onFrameAck_def forget_frame_def onTransportStats_def Let_def
      split: prod.split option.split)

lemma abr_ok_send: "abr_ok a \<Longrightarrow> 0 < k \<Longrightarrow> k \<le> abrMaxBitrateKbps \<Longrightarrow> abr_ok (sendBitrateCommand k a)"
  by (simp add: abr_ok_def sendBitrateCommand_def)

lemma abr_ok_target: "abr_ok a \<Longrightarrow> abr_ok (setSenderTarget k a)"
proof -
  assume a: "abr_ok a"
  have "abr_ok (sendBitrateCommand k (a\<lparr>ab_ceiling := k, ab_target := k\<rparr>))" if "k \<noteq> 0" "k < ab_target a"
    using that a by (intro abr_ok_send) (auto simp: abr_ok_def)
  then show ?thesis using a by (simp add: setSenderTarget_def Let_def abr_ok_def)
qed

lemma abr_ok_estimate: "abr_ok a \<Longrightarrow> k \<le> abrMaxBitrateKbps \<Longrightarrow> abr_ok (onEstimate now k a)"
proof -
  assume a: "abr_ok a" and k: "k \<le> abrMaxBitrateKbps"
  define k' where "k' = (if ab_ceiling a \<noteq> 0 \<and> (if k < abrMinKbps then abrMinKbps else k) > ab_ceiling a then ab_ceiling a
    else if k < abrMinKbps then abrMinKbps else k)"
  have "0 < k'" "k' \<le> abrMaxBitrateKbps" "ab_ceiling a \<noteq> 0 \<Longrightarrow> k' \<le> ab_ceiling a"
    using k by (auto simp: k'_def rate_consts)
  then have "abr_ok (sendBitrateCommand k' (a\<lparr>ab_target := k', ab_last_estimate := Some now\<rparr>))"
    using a by (intro abr_ok_send) (auto simp: abr_ok_def)
  then show ?thesis using a unfolding onEstimate_def Let_def k'_def [symmetric] by auto
qed

lemma abr_ok_diagnostics:
  "abr_ok (onRTTSample now rtt a) = abr_ok a" "abr_ok (onReceiverReport loss a) = abr_ok a"
  "abr_ok (countFrameBytes kbps_over now n a) = abr_ok a" "abr_ok (a\<lparr>ab_room := n\<rparr>) = abr_ok a"
  by (simp_all add: abr_ok_def onRTTSample_def onReceiverReport_def countFrameBytes_def Let_def)

lemma ceiling_le: "senderCeilingKbps a \<le> abrMaxBitrateKbps" "initialBitrateKbps a \<le> abrMaxBitrateKbps"
  by (simp_all add: senderCeilingKbps_def initialBitrateKbps_def Let_def rate_consts)

lemma rate_ok_statistics:
  "est_ok e \<Longrightarrow> abr_ok a \<Longrightarrow> apply_statistics env e a = (e', a') \<Longrightarrow> est_ok e' \<and> abr_ok a'"
  by (cases "tk_stats env") (auto simp: apply_statistics_def Let_def est_ok_frames abr_ok_diagnostics split: prod.splits)

lemma rate_ok_tick:
  assumes "est_ok e" "abr_ok a" "bandwidth_tick env e a = (e', a')"
  shows "est_ok e' \<and> abr_ok a'"
proof -
  obtain e1 a1 where s: "apply_statistics env (setCeilingKbps (senderCeilingKbps a) e) a = (e1, a1)" by fastforce
  have ok: "est_ok e1" "abr_ok a1"
    using rate_ok_statistics [OF est_ok_ceiling [OF assms(1) ceiling_le(1)] assms(2) s] by simp_all
  have "e' = snd (update_estimate (tk_now env) e1)" "a' = onEstimate (tk_now env) (de_target e') a1"
    using assms(3) s by (auto simp: bandwidth_tick_def Let_def)
  then have "est_ok e'" and "de_target e' \<le> abrMaxBitrateKbps" and "a' = onEstimate (tk_now env) (de_target e') a1"
    using est_ok_update [OF ok(1), of "tk_now env"] by (auto simp: est_ok_def)
  then show ?thesis using abr_ok_estimate [OF ok(2)] by simp
qed

lemma rate_ok_step:
  assumes "est_ok e" "abr_ok a" "bitrate_step queue_ns kbps_over ev (e, a) = (e', a')"
  shows "est_ok e' \<and> abr_ok a'"
proof (cases ev)
  case (Tick env)
  then show ?thesis using rate_ok_tick [OF assms(1,2), of env e' a'] assms(3) by simp
qed (use assms in \<open>auto simp: est_ok_frames abr_ok_diagnostics abr_ok_target\<close>)

lemma rate_ok_run:
  "est_ok e \<Longrightarrow> abr_ok a \<Longrightarrow> bitrate_run queue_ns kbps_over evs (e, a) = (e', a') \<Longrightarrow> est_ok e' \<and> abr_ok a'"
proof (induction evs arbitrary: e a)
  case (Cons ev evs)
  obtain e1 a1 where "bitrate_step queue_ns kbps_over ev (e, a) = (e1, a1)" by fastforce
  then show ?case using Cons rate_ok_step [of e a queue_ns kbps_over ev e1 a1] by (metis bitrate_run.simps(2))
qed simp

lemma rate_ok_start: "abr_ok a \<Longrightarrow> start_estimator now a = (e, a') \<Longrightarrow> est_ok e \<and> abr_ok a'"
  using abr_ok_estimate [of a "initialBitrateKbps a" now]
  by (auto simp: start_estimator_def Let_def est_ok_def setCeilingKbps_def newDeliveryEstimator_def
      initialBitrateKbps_def senderCeilingKbps_def clampDeliveryTarget_def rate_consts split: if_splits)

text \<open>C33: Whatever the acknowledgements, the transport statistics, the timing and the ceilings the host
  reports, the estimate of a session stays between the floor and its ceiling, the target of the encoder never
  exceeds the ceiling the host asked for last, and no bitrate command is zero or above the maximum.\<close>

theorem rate_stays_in_bounds:
  "case bitrate_run queue_ns kbps_over evs (start_estimator now (setSenderTarget c (abr_new room))) of
     (e, a) \<Rightarrow>
       abrMinKbps \<le> de_target e \<and> de_target e \<le> de_ceiling e \<and> de_ceiling e \<le> abrMaxBitrateKbps
     \<and> ab_target a \<le> abrMaxBitrateKbps \<and> (if ab_ceiling a = 0 then True else ab_target a \<le> ab_ceiling a)
     \<and> list_all (\<lambda>k. 0 < k \<and> k \<le> abrMaxBitrateKbps) (ab_sent a)"
proof -
  obtain e a where s: "start_estimator now (setSenderTarget c (abr_new room)) = (e, a)" by (rule prod.exhaust)
  obtain e' a' where r: "bitrate_run queue_ns kbps_over evs (e, a) = (e', a')" by (rule prod.exhaust)
  have "abr_ok (abr_new room)" by (simp add: abr_ok_def abr_new_def)
  from rate_ok_run [OF _ _ r] rate_ok_start [OF abr_ok_target [OF this] s] have "est_ok e' \<and> abr_ok a'" by blast
  then show ?thesis unfolding s r by (simp add: est_ok_def abr_ok_def)
qed

section \<open>Convergence\<close>

datatype est_event =
    Updates nat
  | AckArrives u32 bool nat
  | SentOut u32 nat nat
  | Forgets u32
  | Statistics int int nat nat

fun est_step :: "(nat \<Rightarrow> nat \<Rightarrow> nat) \<Rightarrow> est_event \<Rightarrow> estimator \<Rightarrow> estimator" where
  "est_step queue_ns (Updates now) e = snd (update_estimate now e)"
| "est_step queue_ns (AckArrives seq ok at) e = onFrameAck queue_ns seq ok at e"
| "est_step queue_ns (SentOut seq n at) e = onFrameSent seq n at e"
| "est_step queue_ns (Forgets seq) e = forget_frame seq e"
| "est_step queue_ns (Statistics x y sent lost) e = onTransportStats x y sent lost e"

fun est_run :: "(nat \<Rightarrow> nat \<Rightarrow> nat) \<Rightarrow> est_event list \<Rightarrow> estimator \<Rightarrow> estimator" where
  "est_run queue_ns [] e = e"
| "est_run queue_ns (ev # evs) e = est_run queue_ns evs (est_step queue_ns ev e)"

text \<open>An update is due when it is not too early to lower the target of a congested path, or to raise that of
  a clear one.\<close>

definition update_due :: "nat \<Rightarrow> estimator \<Rightarrow> bool" where
  "update_due now e \<longleftrightarrow> now - de_last_update e \<ge> bweUpdateInterval
     \<and> (congested (refresh_window now e) \<or> now - de_last_change e \<ge> 2 * SECOND \<and> now \<ge> de_suppress e)"

text \<open>How often the run updates a path, all of them congested or all of them clear, when due.\<close>

fun due_updates :: "(nat \<Rightarrow> nat \<Rightarrow> nat) \<Rightarrow> est_event list \<Rightarrow> estimator \<Rightarrow> nat" where
  "due_updates queue_ns [] e = 0"
| "due_updates queue_ns (ev # evs) e =
     (case ev of Updates now \<Rightarrow> if update_due now e then 1 else 0 | _ \<Rightarrow> 0) + due_updates queue_ns evs (est_step queue_ns ev e)"

fun always :: "(nat \<Rightarrow> nat \<Rightarrow> nat) \<Rightarrow> bool \<Rightarrow> est_event list \<Rightarrow> estimator \<Rightarrow> bool" where
  "always queue_ns b [] e = True"
| "always queue_ns b (ev # evs) e =
     ((case ev of Updates now \<Rightarrow> congested (refresh_window now e) = b | _ \<Rightarrow> True)
      \<and> always queue_ns b evs (est_step queue_ns ev e))"

definition next_target :: "bool \<Rightarrow> nat \<Rightarrow> nat \<Rightarrow> nat" where
  "next_target b c k = min c (max abrMinKbps (if b then decreased k else increased k))"

lemma congested_suppress [simp]: "congested (e\<lparr>de_suppress := t\<rparr>) = congested e"
  by (simp add: congested_def)

lemma update_estimate_step:
  assumes "est_ok e" "congested (refresh_window now e) = b"
  shows "de_target (snd (update_estimate now e))
      = (if update_due now e then next_target b (de_ceiling e) (de_target e) else de_target e)"
    and "de_ceiling (snd (update_estimate now e)) = de_ceiling e"
proof -
  have ok: "abrMinKbps \<le> de_ceiling e" "de_ceiling e \<le> abrMaxBitrateKbps" "de_last_change e \<le> de_last_update e"
    using assms(1) by (auto simp: est_ok_def)
  have "now - de_last_change e \<ge> bweUpdateInterval" if "now - de_last_update e \<ge> bweUpdateInterval"
    using that ok(3) by linarith
  then show "de_target (snd (update_estimate now e))
      = (if update_due now e then next_target b (de_ceiling e) (de_target e) else de_target e)"
    using assms(2) ok by (auto simp: update_estimate_def update_due_def Let_def change_target_def next_target_def clamp_eq)
  show "de_ceiling (snd (update_estimate now e)) = de_ceiling e"
    by (simp add: update_estimate_def Let_def change_target_def)
qed

lemma est_step_other:
  assumes "\<And>now. ev \<noteq> Updates now"
  shows "de_target (est_step queue_ns ev e) = de_target e" "de_ceiling (est_step queue_ns ev e) = de_ceiling e"
    "est_ok (est_step queue_ns ev e) = est_ok e"
proof -
  show "de_target (est_step queue_ns ev e) = de_target e" "de_ceiling (est_step queue_ns ev e) = de_ceiling e"
    using assms by (cases ev; simp add: onFrameSent_def onFrameAck_def forget_frame_def onTransportStats_def Let_def
        split: prod.split option.split)+
  show "est_ok (est_step queue_ns ev e) = est_ok e" using assms by (cases ev) (auto simp: est_ok_frames)
qed

lemma est_run_target:
  "est_ok e \<Longrightarrow> always queue_ns b evs e \<Longrightarrow>
     de_target (est_run queue_ns evs e) = (next_target b (de_ceiling e) ^^ due_updates queue_ns evs e) (de_target e)"
proof (induction evs arbitrary: e)
  case (Cons ev evs)
  show ?case
  proof (cases "\<exists>now. ev = Updates now")
    case True
    then obtain now where ev: "ev = Updates now" ..
    then have c: "congested (refresh_window now e) = b" using Cons.prems by simp
    note u = update_estimate_step [OF Cons.prems(1) c]
    show ?thesis
      using Cons.IH [of "est_step queue_ns ev e"] Cons.prems est_ok_update [OF Cons.prems(1), of now] u
      by (simp add: ev funpow_swap1)
  next
    case False
    then have "due_updates queue_ns (ev # evs) e = due_updates queue_ns evs (est_step queue_ns ev e)" by (cases ev) auto
    then show ?thesis
      using Cons.IH [of "est_step queue_ns ev e"] Cons.prems est_step_other [of ev queue_ns e] False by (cases ev) auto
  qed
qed simp

lemma next_target_mono: "k \<le> k' \<Longrightarrow> c \<le> c' \<Longrightarrow> next_target b c k \<le> next_target b c' k'"
  by (auto simp: next_target_def decreased_def increased_def intro!: min.mono max.mono div_le_mono)

lemma funpow_target_mono: "k \<le> k' \<Longrightarrow> c \<le> c' \<Longrightarrow> (next_target b c ^^ n) k \<le> (next_target b c' ^^ n) k'"
  by (induction n) (auto intro: next_target_mono)

text \<open>From the maximum the floor is reached in 22 steps, and from the floor the maximum in 31.\<close>

lemma floor_reached: "(next_target True abrMaxBitrateKbps ^^ 22) abrMaxBitrateKbps = abrMinKbps"
proof -
  have "(22 :: nat) = Suc (Suc (Suc (Suc (Suc (Suc (Suc (Suc (Suc (Suc (Suc (Suc (Suc (Suc (Suc (Suc (Suc (Suc (Suc (Suc (Suc (Suc 0)))))))))))))))))))))"
    by simp
  then show ?thesis
    by (simp only: funpow.simps comp_apply id_apply) (simp add: next_target_def decreased_def rate_consts)
qed

lemma floor_fixed: "abrMinKbps \<le> c \<Longrightarrow> next_target True c abrMinKbps = abrMinKbps"
  by (simp add: next_target_def decreased_def rate_consts)

lemma ceiling_reached: "(next_target False abrMaxBitrateKbps ^^ 31) abrMinKbps = abrMaxBitrateKbps"
proof -
  have "(31 :: nat) = Suc (Suc (Suc (Suc (Suc (Suc (Suc (Suc (Suc (Suc (Suc (Suc (Suc (Suc (Suc (Suc (Suc (Suc (Suc (Suc (Suc (Suc
    (Suc (Suc (Suc (Suc (Suc (Suc (Suc (Suc (Suc 0))))))))))))))))))))))))))))))"
    by simp
  then show ?thesis
    by (simp only: funpow.simps comp_apply id_apply) (simp add: next_target_def increased_def rate_consts)
qed

lemma funpow_fixed: "f x = x \<Longrightarrow> (f ^^ n) x = x"
  by (induction n) simp_all

lemma funpow_after: "m \<le> n \<Longrightarrow> (f ^^ m) x = y \<Longrightarrow> f y = y \<Longrightarrow> (f ^^ n) x = y"
proof -
  assume "m \<le> n" "(f ^^ m) x = y" "f y = y"
  then have "(f ^^ ((n - m) + m)) x = y" by (simp only: funpow_add comp_apply funpow_fixed)
  with \<open>m \<le> n\<close> show ?thesis by simp
qed

lemma lowered_to_floor:
  assumes "abrMinKbps \<le> k" "k \<le> c" "c \<le> abrMaxBitrateKbps" "22 \<le> n"
  shows "(next_target True c ^^ n) k = abrMinKbps"
proof (rule antisym)
  have "(next_target True abrMaxBitrateKbps ^^ n) abrMaxBitrateKbps = abrMinKbps"
    by (rule funpow_after [OF assms(4) floor_reached], rule floor_fixed) (simp add: rate_consts)
  then show "(next_target True c ^^ n) k \<le> abrMinKbps"
    using funpow_target_mono [of k abrMaxBitrateKbps c abrMaxBitrateKbps n True] assms by simp
  show "abrMinKbps \<le> (next_target True c ^^ n) k"
    using assms by (induction n) (auto simp: next_target_def)
qed

lemma raised_above:
  assumes "abrMinKbps \<le> k" "k \<le> c" "c \<le> abrMaxBitrateKbps"
  shows "min c ((next_target False abrMaxBitrateKbps ^^ n) abrMinKbps) \<le> (next_target False c ^^ n) k"
proof (induction n)
  case (Suc n)
  let ?y = "(next_target False abrMaxBitrateKbps ^^ n) abrMinKbps"
  have "c \<le> increased c" by (simp add: increased_def)
  then have top: "next_target False c c = c" by (simp add: next_target_def)
  have "min c (next_target False abrMaxBitrateKbps ?y) \<le> next_target False c (min c ?y)"
  proof (cases "?y \<le> c")
    case True
    then show ?thesis using assms(3) by (simp add: next_target_def min.absorb2 min.left_commute)
  qed (simp add: top)
  also have "\<dots> \<le> next_target False c ((next_target False c ^^ n) k)" by (rule next_target_mono [OF Suc.IH]) simp
  finally show ?case by simp
qed (use assms in simp)

lemma raised_to_ceiling:
  assumes "abrMinKbps \<le> k" "k \<le> c" "c \<le> abrMaxBitrateKbps" "31 \<le> n"
  shows "(next_target False c ^^ n) k = c"
proof (rule antisym)
  have "next_target False abrMaxBitrateKbps abrMaxBitrateKbps = abrMaxBitrateKbps"
    by (simp add: next_target_def increased_def rate_consts)
  from funpow_after [OF assms(4) ceiling_reached this] show "c \<le> (next_target False c ^^ n) k"
    using raised_above [OF assms(1-3), of n] assms(3) by simp
  show "(next_target False c ^^ n) k \<le> c"
    using assms(2) by (induction n) (auto simp: next_target_def)
qed

text \<open>C34: The estimate converges.  On a path that stays congested it is at the floor after 22 updates that
  are due, and on a path that stays clear it is at the ceiling after 31, whatever the acknowledgements and
  statistics in between and wherever it started.\<close>

theorem bandwidth_estimate_converges:
  assumes "est_ok e"
  shows "(if always queue_ns True evs e \<and> 22 \<le> due_updates queue_ns evs e
          then de_target (est_run queue_ns evs e) = abrMinKbps else True)
       \<and> (if always queue_ns False evs e \<and> 31 \<le> due_updates queue_ns evs e
          then de_target (est_run queue_ns evs e) = de_ceiling e else True)"
  using est_run_target [OF assms, of queue_ns True evs] est_run_target [OF assms, of queue_ns False evs]
    lowered_to_floor [of "de_target e" "de_ceiling e"] raised_to_ceiling [of "de_target e" "de_ceiling e"] assms
  by (simp add: est_ok_def)

text \<open>A path whose round trips stay 60 ms above their minimum, updated every half second.\<close>

definition sample_estimator :: estimator where
  "sample_estimator = (newDeliveryEstimator 20000 0)\<lparr>de_smoothed_rtt := 70000000, de_min_rtt := 10000000\<rparr>"

definition sample_updates :: "nat \<Rightarrow> est_event list" where
  "sample_updates n = map (\<lambda>i. Updates ((i + 1) * bweUpdateInterval)) [0..<n]"

lemma est_run_append: "est_run queue_ns (evs @ evs') e = est_run queue_ns evs' (est_run queue_ns evs e)"
  by (induction evs arbitrary: e) simp_all

lemma due_updates_append:
  "due_updates queue_ns (evs @ evs') e = due_updates queue_ns evs e + due_updates queue_ns evs' (est_run queue_ns evs e)"
  by (induction evs arbitrary: e) (simp_all split: est_event.split)

lemma always_append:
  "always queue_ns b (evs @ evs') e \<longleftrightarrow> always queue_ns b evs e \<and> always queue_ns b evs' (est_run queue_ns evs e)"
  by (induction evs arbitrary: e) (auto split: est_event.split)

lemma sample_updates_congested:
  "always queue_ns True (sample_updates n) sample_estimator \<and> due_updates queue_ns (sample_updates n) sample_estimator = n
   \<and> de_last_update (est_run queue_ns (sample_updates n) sample_estimator) = n * bweUpdateInterval
   \<and> de_smoothed_rtt (est_run queue_ns (sample_updates n) sample_estimator) = 70000000
   \<and> de_min_rtt (est_run queue_ns (sample_updates n) sample_estimator) = 10000000"
proof (induction n)
  case 0
  then show ?case by (simp add: sample_updates_def sample_estimator_def newDeliveryEstimator_def)
next
  case (Suc n)
  define e where "e = est_run queue_ns (sample_updates n) sample_estimator"
  let ?t = "(n + 1) * bweUpdateInterval"
  have e: "de_last_update e = n * bweUpdateInterval" "de_smoothed_rtt e = 70000000" "de_min_rtt e = 10000000"
    using Suc.IH by (auto simp: e_def)
  have s: "sample_updates (Suc n) = sample_updates n @ [Updates ?t]" by (simp add: sample_updates_def)
  have c: "congested (refresh_window ?t e)"
    using e by (simp add: congested_def refresh_window_def Let_def bweRTTThreshold_def)
  have "update_due ?t e" using c e by (simp add: update_due_def)
  moreover have "de_last_update (snd (update_estimate ?t e)) = ?t" "de_smoothed_rtt (snd (update_estimate ?t e)) = 70000000"
    "de_min_rtt (snd (update_estimate ?t e)) = 10000000"
    using c e by (simp_all add: update_estimate_def Let_def change_target_def) (simp_all add: refresh_window_def Let_def)
  ultimately show ?case
    using Suc.IH c unfolding s always_append due_updates_append est_run_append e_def [symmetric] by simp
qed

theorem bandwidth_estimate_converges_witness:
  "est_ok sample_estimator \<and> de_target sample_estimator = 20000
   \<and> always (\<lambda>d b. d - b) True (sample_updates 22) sample_estimator
   \<and> de_target (est_run (\<lambda>d b. d - b) (sample_updates 22) sample_estimator) = 1500"
proof -
  have ok: "est_ok sample_estimator" "de_target sample_estimator = 20000"
    by (simp_all add: est_ok_def sample_estimator_def newDeliveryEstimator_def rate_consts)
  with bandwidth_estimate_converges [OF ok(1), of "\<lambda>d b. d - b" "sample_updates 22"] sample_updates_congested [of "\<lambda>d b. d - b" 22]
  show ?thesis by (simp add: rate_consts)
qed

section \<open>A bitrate that is never sent\<close>

text \<open>The bitrate an estimate asks for under a ceiling; once it is the target, the same estimate does nothing.\<close>

definition asked_kbps :: "nat \<Rightarrow> nat \<Rightarrow> nat" where
  "asked_kbps ceiling k =
     (let k = (if k < abrMinKbps then abrMinKbps else k) in if ceiling \<noteq> 0 \<and> k > ceiling then ceiling else k)"

lemma onEstimate_asked:
  "onEstimate now k a =
     (if k = 0 \<or> (case ab_last_estimate a of None \<Rightarrow> False | Some t \<Rightarrow> now - t < abrEstimateInterval)
         \<or> ab_target a \<noteq> 0 \<and> \<not> bitrateEstimateIsMaterial (ab_target a) (asked_kbps (ab_ceiling a) k) (ab_ceiling a)
      then a
      else sendBitrateCommand (asked_kbps (ab_ceiling a) k) (a\<lparr>ab_target := asked_kbps (ab_ceiling a) k, ab_last_estimate := Some now\<rparr>))"
  unfolding onEstimate_def asked_kbps_def Let_def by presburger

lemma asked_pos: "asked_kbps c k \<noteq> 0"
  by (simp add: asked_kbps_def Let_def rate_consts)

lemma sendBitrate_frame [simp]:
  "ab_target (sendBitrateCommand k a) = ab_target a" "ab_ceiling (sendBitrateCommand k a) = ab_ceiling a"
  by (simp_all add: sendBitrateCommand_def)

lemma onEstimate_target: "ab_target (onEstimate now k a) \<noteq> ab_target a \<Longrightarrow> ab_target (onEstimate now k a) = asked_kbps (ab_ceiling a) k"
  unfolding onEstimate_asked [of now] by (simp split: if_split_asm)

lemma onEstimate_ceiling: "ab_ceiling (onEstimate now k a) = ab_ceiling a"
  unfolding onEstimate_asked [of now] by simp

lemma onEstimate_settled: "ab_target a = asked_kbps (ab_ceiling a) k \<Longrightarrow> onEstimate t k a = a"
  unfolding onEstimate_asked [of t] using asked_pos by (simp add: bitrateEstimateIsMaterial_def)

text \<open>C35: A target that changes while the command channel is full is recorded although its command is dropped,
  and it is not sent later either: as long as the estimate stays the same, no later tick sends it, even
  with the channel empty again.  The encoder keeps the old bitrate.\<close>

theorem bitrate_command_lost:
  assumes "ab_room a = 0" "ab_target (onEstimate now k a) \<noteq> ab_target a"
  shows "ab_sent (onEstimate now k a) = ab_sent a
    \<and> foldl (\<lambda>a t. onEstimate t k a) ((onEstimate now k a)\<lparr>ab_room := r\<rparr>) ts = (onEstimate now k a)\<lparr>ab_room := r\<rparr>"
proof
  show "ab_sent (onEstimate now k a) = ab_sent a"
    using assms(1) unfolding onEstimate_asked [of now] by (simp add: sendBitrateCommand_def)
  have "onEstimate t k ((onEstimate now k a)\<lparr>ab_room := r\<rparr>) = (onEstimate now k a)\<lparr>ab_room := r\<rparr>" for t
    by (rule onEstimate_settled) (simp add: onEstimate_target [OF assms(2)] onEstimate_ceiling)
  then show "foldl (\<lambda>a t. onEstimate t k a) ((onEstimate now k a)\<lparr>ab_room := r\<rparr>) ts = (onEstimate now k a)\<lparr>ab_room := r\<rparr>"
    by (induction ts) simp_all
qed

theorem bitrate_command_lost_witness:
  "ab_target (onEstimate 5 20000 (abr_new 0)) = 20000 \<and> ab_sent (onEstimate 5 20000 (abr_new 0)) = []
   \<and> foldl (\<lambda>a t. onEstimate t 20000 a) ((onEstimate 5 20000 (abr_new 0))\<lparr>ab_room := 100\<rparr>) [SECOND, 2 * SECOND]
     = (onEstimate 5 20000 (abr_new 0))\<lparr>ab_room := 100\<rparr>"
proof -
  have "ab_target (onEstimate 5 20000 (abr_new 0)) = 20000" "ab_room (abr_new 0) = 0" "ab_target (abr_new 0) = 0" "ab_sent (abr_new 0) = []"
    by (simp_all add: onEstimate_def abr_new_def sendBitrateCommand_def rate_consts Let_def)
  with bitrate_command_lost [of "abr_new 0" 5 20000 100 "[SECOND, 2 * SECOND]"] show ?thesis by simp
qed

end
