(* ===== verification/Relay_Registry.thy ===== *)
theory Relay_Registry
  imports Relay_Rate "HOL-Library.Sublist"
begin

text \<open>
  The registry of the relay (\<open>flux-web/registry.go\<close>) and its parked host links (\<open>flux-web/hostlink.go\<close>): the
  machines hosts register, the upstream a viewer acquires, and their removal.  A machine record and an upstream are
  shared through pointers: they are cells of the state, and a handle is the index of a cell.  Each
  operation is one critical section of the registry's lock; \<open>acquire\<close>, which takes the lock twice, is two.
  Maps are association lists, as \<open>list\<close> iterates over one; the order of Go's iteration is not specified.
\<close>

section \<open>Parked host links\<close>

text \<open>Connections are numbers.  The gauge counts the parked links.\<close>

record link_hub =
  hb_links :: "(string \<times> nat) list"
  hb_parked :: int

definition newHostLinkHub :: link_hub where
  "newHostLinkHub = \<lparr>hb_links = [], hb_parked = 0\<rparr>"

text \<open>The connection that is replaced, to be closed by the caller.\<close>

definition park :: "string \<Rightarrow> nat \<Rightarrow> link_hub \<Rightarrow> nat option \<times> link_hub" where
  "park mid conn h =
     (let old = map_of (hb_links h) mid
      in (if old = Some conn then None else old,
          h\<lparr>hb_links := AList.update mid conn (hb_links h),
            hb_parked := (if old = None then hb_parked h + 1 else hb_parked h)\<rparr>))"

text \<open>The goroutine of \<open>park\<close>, when the connection ends.\<close>

definition link_ended :: "string \<Rightarrow> nat \<Rightarrow> link_hub \<Rightarrow> link_hub" where
  "link_ended mid conn h =
     (if map_of (hb_links h) mid = Some conn
      then h\<lparr>hb_links := AList.delete mid (hb_links h), hb_parked := hb_parked h - 1\<rparr> else h)"

definition remove_link :: "string \<Rightarrow> link_hub \<Rightarrow> nat option \<times> link_hub" where
  "remove_link mid h =
     (case map_of (hb_links h) mid of
        None \<Rightarrow> (None, h)
      | Some conn \<Rightarrow> (Some conn, h\<lparr>hb_links := AList.delete mid (hb_links h), hb_parked := hb_parked h - 1\<rparr>))"

text \<open>The loop of \<open>take\<close> until it returns a connection or waits: a link that has ended is dropped.\<close>

definition take_link :: "(nat \<Rightarrow> bool) \<Rightarrow> string \<Rightarrow> link_hub \<Rightarrow> nat option \<times> link_hub" where
  "take_link ended mid h =
     (case remove_link mid h of
        (None, h) \<Rightarrow> (None, h)
      | (Some conn, h) \<Rightarrow> (if ended conn then None else Some conn, h))"

section \<open>Machines\<close>

record direct_candidate =
  dc_url :: string
  dc_hashes :: "string list"

record machine_registration =
  in_id :: string
  in_name :: string
  in_display_name :: string
  in_endpoint :: string
  in_os :: string
  in_gpu :: string
  in_encoder :: string
  in_virtual :: bool
  in_width :: nat
  in_height :: nat
  in_fps :: nat
  in_default_fps :: nat
  in_bitrate :: nat
  in_supports_login :: bool
  in_login_state :: string
  in_logged_in :: string
  in_cert :: string
  in_dials_out :: bool
  in_candidates :: "direct_candidate list"

record machine_info =
  mi_id :: string
  mi_name :: string
  mi_display_name :: string
  mi_endpoint :: string
  mi_os :: string
  mi_gpu :: string
  mi_encoder :: string
  mi_virtual :: bool
  mi_width :: nat
  mi_height :: nat
  mi_fps :: nat
  mi_default_fps :: nat
  mi_bitrate :: nat
  mi_login_state :: string
  mi_logged_in :: string
  mi_cert :: string
  mi_dials_out :: bool
  mi_candidates :: "direct_candidate list"
  mi_supports_login :: bool
  mi_last_seen :: nat
  mi_online :: bool
  mi_upstream_status :: string

record machine_record =
  mr_info :: machine_info
  mr_static :: bool
  mr_upstream :: "nat option"

text \<open>What the registry sets of an upstream; \<open>ue_counts\<close> are the viewer counts it sent.\<close>

record upstream_entry =
  ue_machine :: string
  ue_addr :: string
  ue_supports_login :: bool
  ue_cert :: string
  ue_uses_links :: bool
  ue_abr :: abr_state
  ue_viewers :: nat
  ue_counts :: "nat list"
  ue_stopped :: bool

record registry =
  rg_machines :: "(string \<times> nat) list"
  rg_records :: "machine_record list"
  rg_upstreams :: "upstream_entry list"
  rg_hub :: link_hub
  rg_closed :: "nat list"

definition newMachineRegistry :: registry where
  "newMachineRegistry =
     \<lparr>rg_machines = [], rg_records = [], rg_upstreams = [], rg_hub = newHostLinkHub, rg_closed = []\<rparr>"

definition machineExpiry :: nat where "machineExpiry = 15 * SECOND"

definition blank_info :: machine_info where
  "blank_info =
     \<lparr>mi_id = [], mi_name = [], mi_display_name = [], mi_endpoint = [], mi_os = [], mi_gpu = [], mi_encoder = [],
      mi_virtual = False, mi_width = 0, mi_height = 0, mi_fps = 0, mi_default_fps = 0, mi_bitrate = 0, mi_login_state = [],
      mi_logged_in = [], mi_cert = [], mi_dials_out = False, mi_candidates = [], mi_supports_login = False, mi_last_seen = 0,
      mi_online = False, mi_upstream_status = []\<rparr>"

definition lookup_machine :: "string \<Rightarrow> registry \<Rightarrow> nat option" where
  "lookup_machine mid r = map_of (rg_machines r) mid"

definition set_record :: "nat \<Rightarrow> machine_record \<Rightarrow> registry \<Rightarrow> registry" where
  "set_record h m r = r\<lparr>rg_records := (rg_records r)[h := m]\<rparr>"

definition set_entry :: "nat \<Rightarrow> upstream_entry \<Rightarrow> registry \<Rightarrow> registry" where
  "set_entry u e r = r\<lparr>rg_upstreams := (rg_upstreams r)[u := e]\<rparr>"

definition new_record :: "string \<Rightarrow> machine_record \<Rightarrow> registry \<Rightarrow> nat \<times> registry" where
  "new_record mid m r =
     (length (rg_records r),
      r\<lparr>rg_records := rg_records r @ [m], rg_machines := AList.update mid (length (rg_records r)) (rg_machines r)\<rparr>)"

definition stop_entry :: "nat \<Rightarrow> registry \<Rightarrow> registry" where
  "stop_entry u r = set_entry u ((rg_upstreams r ! u)\<lparr>ue_stopped := True\<rparr>) r"

text \<open>The removal of a parked link, which the caller then closes.\<close>

definition drop_link :: "string \<Rightarrow> registry \<Rightarrow> registry" where
  "drop_link mid r =
     (case remove_link mid (rg_hub r) of
        (conn, hub) \<Rightarrow> r\<lparr>rg_hub := hub, rg_closed := rg_closed r @ (case conn of None \<Rightarrow> [] | Some c \<Rightarrow> [c])\<rparr>)"

definition seedStatic :: "nat \<Rightarrow> string \<Rightarrow> string \<Rightarrow> string \<Rightarrow> registry \<Rightarrow> registry" where
  "seedStatic now mid name endpoint r =
     snd (new_record mid
       \<lparr>mr_info = blank_info\<lparr>mi_id := mid, mi_name := name, mi_endpoint := endpoint, mi_last_seen := now, mi_online := True,
                             mi_upstream_status := ''idle''\<rparr>,
        mr_static = True, mr_upstream = None\<rparr> r)"

text \<open>At most eight candidates with an https URL that ends in \<open>/wt\<close>, each with at most four hashes.  The scheme and
  the host of a URL are those \<open>url.Parse\<close> finds.\<close>

definition candidate_ok :: "(string \<Rightarrow> (string \<times> string) option) \<Rightarrow> direct_candidate \<Rightarrow> bool" where
  "candidate_ok parse c \<longleftrightarrow>
     (case parse (dc_url c) of
        None \<Rightarrow> False
      | Some (scheme, host) \<Rightarrow> scheme = ''https'' \<and> host \<noteq> [] \<and> suffix ''/wt'' (dc_url c))"

fun collect_candidates :: "(string \<Rightarrow> (string \<times> string) option) \<Rightarrow> direct_candidate list \<Rightarrow> direct_candidate list \<Rightarrow> direct_candidate list" where
  "collect_candidates parse [] valid = valid"
| "collect_candidates parse (c # cs) valid =
     (if candidate_ok parse c
      then let valid = valid @ [\<lparr>dc_url = dc_url c, dc_hashes = take 4 (dc_hashes c)\<rparr>]
           in if length valid = 8 then valid else collect_candidates parse cs valid
      else collect_candidates parse cs valid)"

definition validateDirectCandidates :: "(string \<Rightarrow> (string \<times> string) option) \<Rightarrow> direct_candidate list \<Rightarrow> direct_candidate list" where
  "validateDirectCandidates parse cs = collect_candidates parse cs []"

text \<open>The information a registration leaves: every field of the literal in \<open>upsert\<close>.\<close>

definition registered_info :: "(string \<Rightarrow> (string \<times> string) option) \<Rightarrow> nat \<Rightarrow> string \<Rightarrow> machine_registration \<Rightarrow> machine_info" where
  "registered_info parse now upst input =
     blank_info\<lparr>mi_id := in_id input, mi_name := in_name input, mi_endpoint := in_endpoint input,
       mi_display_name := in_display_name input, mi_os := in_os input, mi_gpu := in_gpu input, mi_encoder := in_encoder input,
       mi_virtual := in_virtual input, mi_width := in_width input, mi_height := in_height input, mi_fps := in_fps input,
       mi_default_fps := in_default_fps input, mi_last_seen := now, mi_online := True, mi_upstream_status := upst,
       mi_supports_login := in_supports_login input, mi_login_state := in_login_state input, mi_logged_in := in_logged_in input,
       mi_cert := in_cert input, mi_dials_out := in_dials_out input,
       mi_candidates := validateDirectCandidates parse (in_candidates input)\<rparr>"

text \<open>What a registration changes of the upstream a viewer has acquired.\<close>

definition refresh_entry :: "machine_registration \<Rightarrow> upstream_entry \<Rightarrow> upstream_entry" where
  "refresh_entry input e =
     (let e = e\<lparr>ue_cert := in_cert input\<rparr>
      in if in_bitrate input \<noteq> 0 then e\<lparr>ue_abr := setSenderTarget (in_bitrate input) (ue_abr e)\<rparr> else e)"

definition register_at :: "(string \<Rightarrow> (string \<times> string) option) \<Rightarrow> nat \<Rightarrow> machine_registration \<Rightarrow> bool \<Rightarrow> nat \<Rightarrow> registry \<Rightarrow> registry" where
  "register_at parse now input static h r =
     (let m = rg_records r ! h;
          r = (if mi_dials_out (mr_info m) \<and> \<not> in_dials_out input then drop_link (in_id input) r else r);
          upst = (if mi_upstream_status (mr_info m) = [] then ''idle'' else mi_upstream_status (mr_info m));
          r = set_record h (m\<lparr>mr_info := registered_info parse now upst input, mr_static := static\<rparr>) r
      in case mr_upstream m of None \<Rightarrow> r | Some u \<Rightarrow> set_entry u (refresh_entry input (rg_upstreams r ! u)) r)"

definition upsert :: "(string \<Rightarrow> (string \<times> string) option) \<Rightarrow> nat \<Rightarrow> machine_registration \<Rightarrow> bool \<Rightarrow> registry \<Rightarrow> registry" where
  "upsert parse now input static r =
     (case lookup_machine (in_id input) r of
        Some h \<Rightarrow> register_at parse now input static h r
      | None \<Rightarrow>
          (case new_record (in_id input) \<lparr>mr_info = blank_info, mr_static = False, mr_upstream = None\<rparr> r of
             (h, r) \<Rightarrow> register_at parse now input static h r))"

text \<open>A machine that was not seen for too long goes offline and gives up its upstream and its link.\<close>

definition expired :: "nat \<Rightarrow> machine_record \<Rightarrow> bool" where
  "expired now m \<longleftrightarrow> \<not> mr_static m \<and> now - mi_last_seen (mr_info m) > machineExpiry"

definition expire_record :: "string \<Rightarrow> nat \<Rightarrow> registry \<Rightarrow> registry" where
  "expire_record mid h r =
     (let m = rg_records r ! h;
          r = drop_link mid (set_record h (m\<lparr>mr_info := (mr_info m)\<lparr>mi_online := False\<rparr>, mr_upstream := None\<rparr>) r)
      in case mr_upstream m of None \<Rightarrow> r | Some u \<Rightarrow> stop_entry u r)"

datatype machine_error = MachineNotFound | MachineOffline | MachineInUse

definition get_machine :: "nat \<Rightarrow> string \<Rightarrow> registry \<Rightarrow> (machine_error + nat) \<times> registry" where
  "get_machine now mid r =
     (case lookup_machine mid r of
        None \<Rightarrow> (Err MachineNotFound, r)
      | Some h \<Rightarrow>
          let r = (if expired now (rg_records r ! h) then expire_record mid h r else r)
          in (if mi_online (mr_info (rg_records r ! h)) then Ok h else Err MachineOffline, r))"

text \<open>\<open>list\<close>: every machine, after the expired ones have gone offline.  The viewers of a machine are those of its upstream.\<close>

fun expire_all :: "nat \<Rightarrow> (string \<times> nat) list \<Rightarrow> registry \<Rightarrow> registry" where
  "expire_all now [] r = r"
| "expire_all now ((mid, h) # ms) r =
     expire_all now ms (if expired now (rg_records r ! h) then expire_record mid h r else r)"

definition list_machines :: "nat \<Rightarrow> registry \<Rightarrow> (machine_info \<times> nat) list \<times> registry" where
  "list_machines now r =
     (let r = expire_all now (rg_machines r) r
      in (map (\<lambda>(mid, h). let m = rg_records r ! h
                          in (mr_info m, case mr_upstream m of None \<Rightarrow> 0 | Some u \<Rightarrow> ue_viewers (rg_upstreams r ! u)))
            (rg_machines r), r))"

definition displayName :: "string \<Rightarrow> registry \<Rightarrow> string" where
  "displayName mid r =
     (case lookup_machine mid r of
        None \<Rightarrow> []
      | Some h \<Rightarrow> let i = mr_info (rg_records r ! h) in if mi_display_name i \<noteq> [] then mi_display_name i else mi_name i)"

definition deregister :: "string \<Rightarrow> registry \<Rightarrow> bool \<times> registry" where
  "deregister mid r =
     (case lookup_machine mid r of
        None \<Rightarrow> (False, r)
      | Some h \<Rightarrow>
          let m = rg_records r ! h in
          if mr_static m then (False, r)
          else let r = drop_link mid r; r = r\<lparr>rg_machines := AList.delete mid (rg_machines r)\<rparr>
               in (True, case mr_upstream m of None \<Rightarrow> r | Some u \<Rightarrow> stop_entry u r))"

definition parkHostLink :: "nat \<Rightarrow> string \<Rightarrow> nat \<Rightarrow> registry \<Rightarrow> bool \<times> registry" where
  "parkHostLink now mid conn r =
     (case lookup_machine mid r of
        None \<Rightarrow> (False, r)
      | Some h \<Rightarrow>
          let m = rg_records r ! h in
          if mr_static m \<or> \<not> mi_dials_out (mr_info m) \<or> now - mi_last_seen (mr_info m) > machineExpiry then (False, r)
          else (case park mid conn (rg_hub r) of
                  (replaced, hub) \<Rightarrow>
                    (True, r\<lparr>rg_hub := hub, rg_closed := rg_closed r @ (case replaced of None \<Rightarrow> [] | Some c \<Rightarrow> [c])\<rparr>)))"

section \<open>Viewers\<close>

text \<open>The second critical section of \<open>acquire\<close>, on the record the first one found; the upstream of a new
  viewer.\<close>

definition new_entry :: "nat \<Rightarrow> machine_info \<Rightarrow> upstream_entry" where
  "new_entry room i =
     \<lparr>ue_machine = mi_id i, ue_addr = mi_endpoint i, ue_supports_login = mi_supports_login i, ue_cert = mi_cert i,
      ue_uses_links = mi_dials_out i,
      ue_abr = (if mi_bitrate i \<noteq> 0 then setSenderTarget (mi_bitrate i) (abr_new room) else abr_new room),
      ue_viewers = 0, ue_counts = [], ue_stopped = False\<rparr>"

definition acquire_locked :: "nat \<Rightarrow> nat \<Rightarrow> registry \<Rightarrow> (machine_error + nat) \<times> registry" where
  "acquire_locked room h r =
     (let m = rg_records r ! h in
      if (case mr_upstream m of None \<Rightarrow> False | Some u \<Rightarrow> ue_viewers (rg_upstreams r ! u) > 0) then (Err MachineInUse, r)
      else let (u, r) = (case mr_upstream m of
                           Some u \<Rightarrow> (u, r)
                         | None \<Rightarrow>
                             let u = length (rg_upstreams r)
                             in (u, set_record h (m\<lparr>mr_upstream := Some u\<rparr>)
                                      (r\<lparr>rg_upstreams := rg_upstreams r @ [new_entry room (mr_info m)]\<rparr>)));
               e = rg_upstreams r ! u; n = ue_viewers e + 1
           in (Ok u, set_entry u (e\<lparr>ue_viewers := n, ue_counts := ue_counts e @ [n]\<rparr>) r))"

definition setUpstreamStatus :: "string \<Rightarrow> string \<Rightarrow> registry \<Rightarrow> registry" where
  "setUpstreamStatus mid upst r =
     (case lookup_machine mid r of
        None \<Rightarrow> r
      | Some h \<Rightarrow> let m = rg_records r ! h in set_record h (m\<lparr>mr_info := (mr_info m)\<lparr>mi_upstream_status := upst\<rparr>\<rparr>) r)"

fun clear_upstream :: "nat \<Rightarrow> (string \<times> nat) list \<Rightarrow> registry \<Rightarrow> registry" where
  "clear_upstream u [] r = r"
| "clear_upstream u ((mid, h) # ms) r =
     (let m = rg_records r ! h in
      if mr_upstream m = Some u then set_record h (m\<lparr>mr_upstream := None\<rparr>) r else clear_upstream u ms r)"

definition release_viewer :: "nat \<Rightarrow> registry \<Rightarrow> registry" where
  "release_viewer u r =
     (let e = rg_upstreams r ! u;
          n = (if ue_viewers e > 0 then ue_viewers e - 1 else ue_viewers e);
          r = set_entry u (e\<lparr>ue_viewers := n, ue_counts := ue_counts e @ [n]\<rparr>) r
      in if n = 0 then stop_entry u (clear_upstream u (rg_machines r) r) else r)"

section \<open>The host's side of a link\<close>

definition hostLinkMaxHelloSize :: nat where "hostLinkMaxHelloSize = 4 * 1024"

datatype link_reply = LinkUnauthorized | LinkUnknown | LinkParked

text \<open>\<open>handleHostLink\<close>: the machine and the token are read from the JSON of the hello.\<close>

definition read_hello :: "(byte list \<Rightarrow> (string \<times> string) option) \<Rightarrow> stream \<Rightarrow> (string \<times> string) option" where
  "read_hello hello_json s =
     (case read_exact 2 s of
        Inl e \<Rightarrow> None
      | Inr (bs, s) \<Rightarrow>
          let n = unat (u16_of_be bs) in
          if n = 0 \<or> n > hostLinkMaxHelloSize then None
          else case read_exact n s of
                 Inl e \<Rightarrow> None
               | Inr (payload, s) \<Rightarrow>
                   (case hello_json payload of
                      None \<Rightarrow> None
                    | Some (mid, token) \<Rightarrow> if mid = [] \<or> token = [] then None else Some (mid, token)))"

definition handleHostLink ::
  "(byte list \<Rightarrow> (string \<times> string) option) \<Rightarrow> string \<Rightarrow> nat \<Rightarrow> bool \<Rightarrow> nat \<Rightarrow> stream \<Rightarrow> registry \<Rightarrow> link_reply \<times> registry" where
  "handleHostLink hello_json token now ack_ok conn s r =
     (case read_hello hello_json s of
        None \<Rightarrow> (LinkUnauthorized, r)
      | Some (mid, t) \<Rightarrow>
          if t \<noteq> token then (LinkUnauthorized, r)
          else if (case lookup_machine mid r of
                     None \<Rightarrow> True
                   | Some h \<Rightarrow> mr_static (rg_records r ! h) \<or> \<not> mi_dials_out (mr_info (rg_records r ! h)))
          then (LinkUnknown, r)
          else if \<not> ack_ok then (LinkUnauthorized, r)
          else case parkHostLink now mid conn r of (ok, r) \<Rightarrow> (if ok then LinkParked else LinkUnknown, r))"

section \<open>Well-formed registries\<close>

definition acquire :: "nat \<Rightarrow> nat \<Rightarrow> string \<Rightarrow> registry \<Rightarrow> (machine_error + nat) \<times> registry" where
  "acquire room now mid r =
     (case get_machine now mid r of
        (Inl e, r) \<Rightarrow> (Inl e, r)
      | (Inr h, r) \<Rightarrow> acquire_locked room h r)"

definition rec_ok :: "upstream_entry list \<Rightarrow> string \<Rightarrow> machine_record \<Rightarrow> bool" where
  "rec_ok ups mid m \<longleftrightarrow> mi_id (mr_info m) = mid \<and> mi_bitrate (mr_info m) = 0
     \<and> (case mr_upstream m of None \<Rightarrow> True
        | Some u \<Rightarrow> u < length ups \<and> ue_machine (ups ! u) = mid \<and> ue_viewers (ups ! u) = 1 \<and> \<not> ue_stopped (ups ! u))"

definition entry_ok :: "upstream_entry \<Rightarrow> bool" where
  "entry_ok e \<longleftrightarrow> ue_viewers e \<le> 1 \<and> (ue_stopped e \<or> ue_viewers e = 1)"

definition hub_ok :: "registry \<Rightarrow> bool" where
  "hub_ok r \<longleftrightarrow> hb_parked (rg_hub r) = int (card (dom (map_of (hb_links (rg_hub r)))))
     \<and> (\<forall>mid. map_of (hb_links (rg_hub r)) mid \<noteq> None \<longrightarrow>
          (\<exists>h. lookup_machine mid r = Some h \<and> mi_dials_out (mr_info (rg_records r ! h))))"

definition reg_ok :: "registry \<Rightarrow> bool" where
  "reg_ok r \<longleftrightarrow> distinct (map fst (rg_machines r))
     \<and> (\<forall>mid h. lookup_machine mid r = Some h \<longrightarrow> h < length (rg_records r) \<and> rec_ok (rg_upstreams r) mid (rg_records r ! h))
     \<and> list_all entry_ok (rg_upstreams r) \<and> hub_ok r"

lemma reg_okD:
  assumes "reg_ok r" "lookup_machine mid r = Some h"
  shows "h < length (rg_records r)" "rec_ok (rg_upstreams r) mid (rg_records r ! h)"
  using assms by (auto simp: reg_ok_def)

lemma reg_ok_linkD:
  assumes "reg_ok r" "map_of (hb_links (rg_hub r)) mid \<noteq> None"
  obtains h where "lookup_machine mid r = Some h" "mi_dials_out (mr_info (rg_records r ! h))"
proof -
  have "\<exists>h. lookup_machine mid r = Some h \<and> mi_dials_out (mr_info (rg_records r ! h))"
    using assms unfolding reg_ok_def hub_ok_def by blast
  with that show ?thesis by blast
qed

lemma reg_ok_gauge: "reg_ok r \<Longrightarrow> hb_parked (rg_hub r) = int (card (dom (map_of (hb_links (rg_hub r)))))"
  by (simp add: reg_ok_def hub_ok_def)

lemma reg_ok_handle_unique:
  assumes "reg_ok r" "lookup_machine mid r = Some h" "lookup_machine mid' r = Some h"
  shows "mid = mid'"
  using reg_okD(2) [OF assms(1,2)] reg_okD(2) [OF assms(1,3)] by (simp add: rec_ok_def)

lemma registry_frame [simp]:
  "lookup_machine mid (set_record h m r) = lookup_machine mid r" "lookup_machine mid (set_entry u e r) = lookup_machine mid r"
  "lookup_machine mid (r\<lparr>rg_hub := hub, rg_closed := cl\<rparr>) = lookup_machine mid r"
  "rg_machines (set_record h m r) = rg_machines r" "rg_machines (set_entry u e r) = rg_machines r"
  "rg_records (set_entry u e r) = rg_records r" "rg_upstreams (set_record h m r) = rg_upstreams r"
  "rg_hub (set_record h m r) = rg_hub r" "rg_hub (set_entry u e r) = rg_hub r"
  "rg_records (set_record h m r) = (rg_records r)[h := m]" "rg_upstreams (set_entry u e r) = (rg_upstreams r)[u := e]"
  "lookup_machine mid (stop_entry u r) = lookup_machine mid r" "rg_records (stop_entry u r) = rg_records r"
  "rg_hub (stop_entry u r) = rg_hub r" "rg_machines (stop_entry u r) = rg_machines r"
  by (simp_all add: lookup_machine_def set_record_def set_entry_def stop_entry_def)

text \<open>A record that is written stays well-formed when the new one is, and has no link it must not have.\<close>

lemma reg_ok_set_record:
  assumes "reg_ok r" "lookup_machine mid r = Some h" "rec_ok (rg_upstreams r) mid m"
    and "mi_dials_out (mr_info m) = mi_dials_out (mr_info (rg_records r ! h)) \<or> mi_dials_out (mr_info m)
      \<or> map_of (hb_links (rg_hub r)) mid = None"
  shows "reg_ok (set_record h m r)"
proof -
  have h: "h < length (rg_records r)" using reg_okD(1) [OF assms(1,2)] .
  have other: "(rg_records r)[h := m] ! h' = (if h' = h then m else rg_records r ! h')" if "h' < length (rg_records r)" for h'
    using that by simp
  have "h' < length (rg_records r) \<and> rec_ok (rg_upstreams r) mid' ((rg_records r)[h := m] ! h')" if "lookup_machine mid' r = Some h'" for mid' h'
    using reg_okD [OF assms(1) that] other reg_ok_handle_unique [OF assms(1,2)] that assms(3) by (metis)
  moreover have "\<exists>h'. lookup_machine mid' r = Some h' \<and> mi_dials_out (mr_info ((rg_records r)[h := m] ! h'))"
    if l: "map_of (hb_links (rg_hub r)) mid' \<noteq> None" for mid'
  proof -
    obtain h' where h': "lookup_machine mid' r = Some h'" "mi_dials_out (mr_info (rg_records r ! h'))"
      using reg_ok_linkD [OF assms(1) l] .
    have "mid' = mid" if "h' = h" using reg_ok_handle_unique [OF assms(1,2)] h'(1) that by simp
    then show ?thesis using h' l assms(4) other [OF reg_okD(1) [OF assms(1) h'(1)]] by auto
  qed
  ultimately show ?thesis using assms(1) by (simp add: reg_ok_def hub_ok_def)
qed

text \<open>An upstream no machine refers to may change; one that is referred to keeps its machine, its viewer and runs.\<close>

lemma reg_ok_set_entry:
  assumes "reg_ok r" "entry_ok e"
    and "\<And>mid h. lookup_machine mid r = Some h \<Longrightarrow> mr_upstream (rg_records r ! h) = Some u \<Longrightarrow>
      ue_machine e = mid \<and> ue_viewers e = 1 \<and> \<not> ue_stopped e"
  shows "reg_ok (set_entry u e r)"
proof -
  have "rec_ok ((rg_upstreams r)[u := e]) mid (rg_records r ! h)" if l: "lookup_machine mid r = Some h" for mid h
    using reg_okD(2) [OF assms(1) l] assms(3) [OF l]
    by (cases "mr_upstream (rg_records r ! h) = Some u") (auto simp: rec_ok_def split: option.splits)
  moreover have "list_all entry_ok ((rg_upstreams r)[u := e])"
    using assms(1,2) by (auto simp: reg_ok_def list_all_iff dest: set_update_subset_insert [THEN subsetD])
  ultimately show ?thesis using assms(1) by (simp add: reg_ok_def hub_ok_def)
qed

lemma reg_ok_stop:
  assumes "reg_ok r" "\<And>mid h. lookup_machine mid r = Some h \<Longrightarrow> mr_upstream (rg_records r ! h) \<noteq> Some u"
  shows "reg_ok (stop_entry u r)"
proof (cases "u < length (rg_upstreams r)")
  case True
  then have "entry_ok (rg_upstreams r ! u)" using assms(1) by (simp add: reg_ok_def list_all_length)
  then show ?thesis
    unfolding stop_entry_def using assms by (intro reg_ok_set_entry) (auto simp: entry_ok_def)
next
  case False
  then show ?thesis using assms(1) by (simp add: stop_entry_def set_entry_def list_update_beyond)
qed

text \<open>Links: removing one, and parking one of a machine that dials out.\<close>

lemma remove_link_spec:
  "map_of (hb_links (snd (remove_link mid h))) = (map_of (hb_links h))(mid := None)"
  "hb_parked h = int (card (dom (map_of (hb_links h)))) \<Longrightarrow>
     hb_parked (snd (remove_link mid h)) = int (card (dom (map_of (hb_links (snd (remove_link mid h))))))"
proof -
  show m: "map_of (hb_links (snd (remove_link mid h))) = (map_of (hb_links h))(mid := None)"
    by (cases "map_of (hb_links h) mid") (simp_all add: remove_link_def AList.delete_conv' fun_upd_idem)
  assume p: "hb_parked h = int (card (dom (map_of (hb_links h))))"
  show "hb_parked (snd (remove_link mid h)) = int (card (dom (map_of (hb_links (snd (remove_link mid h))))))"
  proof (cases "map_of (hb_links h) mid")
    case None
    then show ?thesis using p by (simp add: remove_link_def)
  next
    case (Some c)
    then have "mid \<in> dom (map_of (hb_links h))" by auto
    then have "card (dom (map_of (hb_links h))) = Suc (card (dom (map_of (hb_links h)) - {mid}))"
      by (rule card.remove [OF finite_dom_map_of])
    then show ?thesis using p Some unfolding m by (simp add: remove_link_def)
  qed
qed

lemma reg_ok_hub:
  assumes "reg_ok r" "hub_ok (r\<lparr>rg_hub := hub, rg_closed := cl\<rparr>)"
  shows "reg_ok (r\<lparr>rg_hub := hub, rg_closed := cl\<rparr>)"
  using assms by (simp add: reg_ok_def)

lemma drop_link_eq: "drop_link mid r = r\<lparr>rg_hub := snd (remove_link mid (rg_hub r)),
    rg_closed := rg_closed r @ (case fst (remove_link mid (rg_hub r)) of None \<Rightarrow> [] | Some c \<Rightarrow> [c])\<rparr>"
  by (simp add: drop_link_def split: prod.split)

lemma drop_link_frame [simp]:
  "lookup_machine mid' (drop_link mid r) = lookup_machine mid' r" "rg_records (drop_link mid r) = rg_records r"
  "rg_upstreams (drop_link mid r) = rg_upstreams r" "rg_machines (drop_link mid r) = rg_machines r"
  "map_of (hb_links (rg_hub (drop_link mid r))) = (map_of (hb_links (rg_hub r)))(mid := None)"
  by (simp_all add: drop_link_eq remove_link_spec(1))

lemma reg_ok_drop_link:
  assumes "reg_ok r"
  shows "reg_ok (drop_link mid r)"
proof -
  have "\<exists>h. lookup_machine mid' r = Some h \<and> mi_dials_out (mr_info (rg_records r ! h))"
    if "((map_of (hb_links (rg_hub r)))(mid := None)) mid' \<noteq> None" for mid'
    using that reg_ok_linkD [OF assms, of mid'] by (cases "mid' = mid") auto
  then have "hub_ok (drop_link mid r)"
    using remove_link_spec(2) [OF reg_ok_gauge [OF assms], of mid] remove_link_spec(1) [of mid "rg_hub r"]
    by (simp add: hub_ok_def) (simp add: drop_link_eq)
  then show ?thesis using assms by (simp add: reg_ok_def)
qed

lemma reg_ok_park:
  assumes "reg_ok r" "lookup_machine mid r = Some h" "mi_dials_out (mr_info (rg_records r ! h))"
  shows "reg_ok (r\<lparr>rg_hub := snd (park mid c (rg_hub r)), rg_closed := cl\<rparr>)"
proof (rule reg_ok_hub [OF assms(1)])
  have m: "map_of (hb_links (snd (park mid c (rg_hub r)))) = (map_of (hb_links (rg_hub r)))(mid \<mapsto> c)"
    by (simp add: park_def Let_def AList.update_conv')
  note k = reg_ok_gauge [OF assms(1)]
  have "hb_parked (snd (park mid c (rg_hub r))) = int (card (insert mid (dom (map_of (hb_links (rg_hub r))))))"
    using k by (cases "map_of (hb_links (rg_hub r)) mid")
      (auto simp: park_def Let_def card_insert_if finite_dom_map_of domIff)
  moreover have "\<exists>h. lookup_machine mid' r = Some h \<and> mi_dials_out (mr_info (rg_records r ! h))"
    if "((map_of (hb_links (rg_hub r)))(mid \<mapsto> c)) mid' \<noteq> None" for mid'
    using that assms(2,3) reg_ok_linkD [OF assms(1), of mid'] by (cases "mid' = mid") auto
  ultimately show "hub_ok (r\<lparr>rg_hub := snd (park mid c (rg_hub r)), rg_closed := cl\<rparr>)"
    by (simp add: hub_ok_def m)
qed

section \<open>Every operation keeps the registry well-formed\<close>

lemma lookup_new_record:
  "lookup_machine mid' (snd (new_record mid m r)) = (if mid' = mid then Some (length (rg_records r)) else lookup_machine mid' r)"
  by (simp add: new_record_def lookup_machine_def AList.update_conv')

lemma reg_ok_new_record:
  assumes "reg_ok r" "lookup_machine mid r = None" "rec_ok (rg_upstreams r) mid m"
  shows "reg_ok (snd (new_record mid m r))"
proof -
  have rec: "rg_records (snd (new_record mid m r)) ! h = (if h = length (rg_records r) then m else rg_records r ! h)"
    if "h \<le> length (rg_records r)" for h
    using that by (simp add: new_record_def nth_append)
  have "h < length (rg_records (snd (new_record mid m r))) \<and> rec_ok (rg_upstreams r) mid' (rg_records (snd (new_record mid m r)) ! h)"
    if "lookup_machine mid' (snd (new_record mid m r)) = Some h" for mid' h
    using that assms(3) reg_okD [OF assms(1), of mid' h] rec [of h]
    by (auto simp: lookup_new_record split: if_splits) (simp_all add: new_record_def)
  moreover have "\<exists>h. lookup_machine mid' (snd (new_record mid m r)) = Some h \<and> mi_dials_out (mr_info (rg_records (snd (new_record mid m r)) ! h))"
    if l: "map_of (hb_links (rg_hub r)) mid' \<noteq> None" for mid'
  proof -
    obtain h where h: "lookup_machine mid' r = Some h" "mi_dials_out (mr_info (rg_records r ! h))" using reg_ok_linkD [OF assms(1) l] .
    then have "mid' \<noteq> mid" using assms(2) by auto
    then show ?thesis using h reg_okD(1) [OF assms(1) h(1)] rec [of h] by (simp add: lookup_new_record)
  qed
  moreover have "distinct (map fst (rg_machines (snd (new_record mid m r))))"
    using assms(1) by (simp add: reg_ok_def new_record_def AList.distinct_update)
  ultimately show ?thesis
    using assms(1) by (simp add: reg_ok_def hub_ok_def) (simp add: new_record_def)
qed

lemma registered_rec_ok:
  "rec_ok ups mid m \<Longrightarrow> in_id input = mid \<Longrightarrow> rec_ok ups mid (m\<lparr>mr_info := registered_info parse now upst input, mr_static := st\<rparr>)"
  by (simp add: rec_ok_def registered_info_def blank_info_def)

lemma refresh_entry_frame [simp]:
  "ue_machine (refresh_entry input e) = ue_machine e" "ue_viewers (refresh_entry input e) = ue_viewers e"
  "ue_stopped (refresh_entry input e) = ue_stopped e"
  by (simp_all add: refresh_entry_def Let_def)

lemma reg_ok_register_at:
  assumes "reg_ok r" "lookup_machine (in_id input) r = Some h"
  shows "reg_ok (register_at parse now input static h r)"
proof -
  define m where "m = rg_records r ! h"
  define upst where "upst = (if mi_upstream_status (mr_info m) = [] then ''idle'' else mi_upstream_status (mr_info m))"
  define r1 where "r1 = (if mi_dials_out (mr_info m) \<and> \<not> in_dials_out input then drop_link (in_id input) r else r)"
  define r2 where "r2 = set_record h (m\<lparr>mr_info := registered_info parse now upst input, mr_static := static\<rparr>) r1"
  have r1: "reg_ok r1" "lookup_machine (in_id input) r1 = Some h" "rg_records r1 = rg_records r" "rg_upstreams r1 = rg_upstreams r"
    using assms reg_ok_drop_link by (auto simp: r1_def)
  have m: "rec_ok (rg_upstreams r) (in_id input) m" using reg_okD(2) [OF assms] by (simp add: m_def)
  have "mi_dials_out (mr_info (rg_records r1 ! h)) = in_dials_out input \<or> in_dials_out input
      \<or> map_of (hb_links (rg_hub r1)) (in_id input) = None"
    using r1(3) by (auto simp: r1_def m_def)
  then have r2: "reg_ok r2"
    unfolding r2_def using r1 m registered_rec_ok [OF m refl]
    by (intro reg_ok_set_record) (auto simp: registered_info_def)
  have eq: "register_at parse now input static h r
    = (case mr_upstream m of None \<Rightarrow> r2 | Some u \<Rightarrow> set_entry u (refresh_entry input (rg_upstreams r2 ! u)) r2)"
    by (simp only: register_at_def Let_def m_def r1_def r2_def upst_def)
  show ?thesis
  proof (cases "mr_upstream m")
    case None
    then show ?thesis using r2 eq by simp
  next
    case (Some u)
    then have u: "ue_machine (rg_upstreams r2 ! u) = in_id input" "ue_viewers (rg_upstreams r2 ! u) = 1" "\<not> ue_stopped (rg_upstreams r2 ! u)"
      using m r1(4) by (auto simp: rec_ok_def r2_def)
    have "mid = in_id input" if "lookup_machine mid r2 = Some h'" "mr_upstream (rg_records r2 ! h') = Some u" for mid h'
      using reg_okD(2) [OF r2 that(1)] that(2) u by (simp add: rec_ok_def)
    then have "reg_ok (set_entry u (refresh_entry input (rg_upstreams r2 ! u)) r2)"
      using r2 u by (intro reg_ok_set_entry) (auto simp: entry_ok_def)
    then show ?thesis using Some eq by simp
  qed
qed

text \<open>Only the fields that are overwritten differ between a blank record and one with its identifier.\<close>

lemma upsert_new:
  assumes "lookup_machine (in_id input) r = None"
  shows "upsert parse now input static r = register_at parse now input static (length (rg_records r))
    (snd (new_record (in_id input) \<lparr>mr_info = blank_info\<lparr>mi_id := in_id input\<rparr>, mr_static = False, mr_upstream = None\<rparr> r))"
  using assms by (simp add: upsert_def register_at_def new_record_def set_record_def Let_def blank_info_def)

lemma reg_ok_upsert:
  assumes "reg_ok r"
  shows "reg_ok (upsert parse now input static r)"
proof (cases "lookup_machine (in_id input) r")
  case None
  have "rec_ok (rg_upstreams r) (in_id input) \<lparr>mr_info = blank_info\<lparr>mi_id := in_id input\<rparr>, mr_static = False, mr_upstream = None\<rparr>"
    by (simp add: rec_ok_def blank_info_def)
  from reg_ok_new_record [OF assms None this] show ?thesis
    unfolding upsert_new [OF None] by (rule reg_ok_register_at) (simp add: lookup_new_record)
next
  case (Some h)
  then show ?thesis using reg_ok_register_at [OF assms Some] by (simp add: upsert_def)
qed

lemma reg_ok_expire:
  assumes "reg_ok r" "lookup_machine mid r = Some h"
  shows "reg_ok (expire_record mid h r)"
proof -
  define m where "m = rg_records r ! h"
  define r1 where "r1 = drop_link mid (set_record h (m\<lparr>mr_info := (mr_info m)\<lparr>mi_online := False\<rparr>, mr_upstream := None\<rparr>) r)"
  have h: "h < length (rg_records r)" and m: "rec_ok (rg_upstreams r) mid m"
    using reg_okD [OF assms] by (simp_all add: m_def)
  have r1: "reg_ok r1"
    unfolding r1_def using assms m by (intro reg_ok_drop_link reg_ok_set_record) (auto simp: rec_ok_def m_def)
  have "mr_upstream (rg_records r1 ! h') \<noteq> Some u" if "mr_upstream m = Some u" "lookup_machine mid' r1 = Some h'" for u mid' h'
  proof
    assume a: "mr_upstream (rg_records r1 ! h') = Some u"
    then have "mid' = mid" using reg_okD(2) [OF r1 that(2)] m that(1) by (simp add: rec_ok_def r1_def)
    then have "h' = h" using that(2) assms(2) by (simp add: r1_def)
    then show False using a h by (simp add: r1_def)
  qed
  then show ?thesis
    using r1 reg_ok_stop [OF r1] by (auto simp: expire_record_def Let_def m_def r1_def split: option.split)
qed

lemma expire_record_frame [simp]: "rg_machines (expire_record mid h r) = rg_machines r"
  "lookup_machine mid' (expire_record mid h r) = lookup_machine mid' r"
  by (simp_all add: expire_record_def Let_def split: option.split)

lemma reg_ok_get: "reg_ok r \<Longrightarrow> reg_ok (snd (get_machine now mid r))"
  using reg_ok_expire [of r mid] by (simp add: get_machine_def Let_def split: option.split)

lemma reg_ok_expire_all:
  "reg_ok r \<Longrightarrow> set ms \<subseteq> set (rg_machines r) \<Longrightarrow> reg_ok (expire_all now ms r)"
proof (induction ms arbitrary: r)
  case (Cons x ms)
  obtain mid h where x: "x = (mid, h)" by (cases x)
  have "lookup_machine mid r = Some h"
    using Cons.prems x by (auto simp: lookup_machine_def reg_ok_def intro!: map_of_is_SomeI)
  then have "reg_ok (expire_record mid h r)" using Cons.prems(1) by (intro reg_ok_expire)
  then show ?case using Cons x by simp
qed simp

lemma reg_ok_delete:
  assumes "reg_ok r" "map_of (hb_links (rg_hub r)) mid = None"
  shows "reg_ok (r\<lparr>rg_machines := AList.delete mid (rg_machines r)\<rparr>)"
proof -
  have l: "lookup_machine mid' (r\<lparr>rg_machines := AList.delete mid (rg_machines r)\<rparr>) = (if mid' = mid then None else lookup_machine mid' r)" for mid'
    by (simp add: lookup_machine_def AList.delete_conv')
  have "\<exists>h. lookup_machine mid' r = Some h \<and> mi_dials_out (mr_info (rg_records r ! h)) \<and> mid' \<noteq> mid"
    if "map_of (hb_links (rg_hub r)) mid' \<noteq> None" for mid'
    using reg_ok_linkD [OF assms(1) that] assms(2) that by metis
  then have "hub_ok (r\<lparr>rg_machines := AList.delete mid (rg_machines r)\<rparr>)"
    using reg_ok_gauge [OF assms(1)] assms(2) by (auto simp: hub_ok_def l)
  then show ?thesis
    using assms(1) reg_okD [OF assms(1)] by (auto simp: reg_ok_def l AList.distinct_delete split: if_splits)
qed

lemma reg_ok_deregister:
  assumes "reg_ok r"
  shows "reg_ok (snd (deregister mid r))"
proof (cases "lookup_machine mid r")
  case (Some h)
  define r1 where "r1 = (drop_link mid r)\<lparr>rg_machines := AList.delete mid (rg_machines (drop_link mid r))\<rparr>"
  have r1: "reg_ok r1" unfolding r1_def by (rule reg_ok_delete [OF reg_ok_drop_link [OF assms]]) simp
  have m: "rec_ok (rg_upstreams r) mid (rg_records r ! h)" using reg_okD(2) [OF assms Some] .
  have "mr_upstream (rg_records r1 ! h') \<noteq> Some u" if "mr_upstream (rg_records r ! h) = Some u" "lookup_machine mid' r1 = Some h'" for u mid' h'
  proof
    assume "mr_upstream (rg_records r1 ! h') = Some u"
    then have "mid' = mid" using reg_okD(2) [OF r1 that(2)] m that(1) by (simp add: rec_ok_def r1_def)
    then show False using that(2) by (simp add: r1_def lookup_machine_def AList.delete_conv')
  qed
  then show ?thesis
    using assms r1 reg_ok_stop [OF r1] Some by (auto simp: deregister_def Let_def r1_def split: option.split)
qed (use assms in \<open>simp add: deregister_def\<close>)

lemma reg_ok_parkHostLink:
  assumes "reg_ok r"
  shows "reg_ok (snd (parkHostLink now mid conn r))"
proof (cases "lookup_machine mid r")
  case (Some h)
  obtain c hub where p: "park mid conn (rg_hub r) = (c, hub)" by (rule prod.exhaust)
  show ?thesis
    using assms Some p reg_ok_park [OF assms Some, where c = conn] by (simp add: parkHostLink_def Let_def)
qed (use assms in \<open>simp add: parkHostLink_def\<close>)

text \<open>A viewer gets an upstream of its own, made for it, or none.\<close>

lemma acquire_locked_spec:
  assumes "reg_ok r" "lookup_machine mid r = Some h"
  shows "acquire_locked room h r =
    (if mr_upstream (rg_records r ! h) \<noteq> None then (Err MachineInUse, r)
     else (Ok (length (rg_upstreams r)),
       set_record h ((rg_records r ! h)\<lparr>mr_upstream := Some (length (rg_upstreams r))\<rparr>)
         (r\<lparr>rg_upstreams := rg_upstreams r @ [(new_entry room (mr_info (rg_records r ! h)))\<lparr>ue_viewers := 1, ue_counts := [1]\<rparr>]\<rparr>)))"
proof (cases "mr_upstream (rg_records r ! h)")
  case None
  then show ?thesis by (simp add: acquire_locked_def Let_def set_record_def set_entry_def new_entry_def list_update_append)
next
  case (Some u)
  then show ?thesis using reg_okD(2) [OF assms] by (simp add: acquire_locked_def Let_def rec_ok_def)
qed

lemma reg_ok_acquire_locked:
  assumes "reg_ok r" "lookup_machine mid r = Some h"
  shows "reg_ok (snd (acquire_locked room h r))"
proof (cases "mr_upstream (rg_records r ! h) = None")
  case True
  define m where "m = rg_records r ! h"
  define e where "e = (new_entry room (mr_info m))\<lparr>ue_viewers := 1, ue_counts := [1]\<rparr>"
  define r1 where "r1 = r\<lparr>rg_upstreams := rg_upstreams r @ [e]\<rparr>"
  have m: "rec_ok (rg_upstreams r) mid m" using reg_okD(2) [OF assms] by (simp add: m_def)
  have e: "entry_ok e" "ue_machine e = mid" "ue_viewers e = 1" "\<not> ue_stopped e"
    using m by (simp_all add: entry_ok_def e_def new_entry_def rec_ok_def)
  have grow: "rec_ok (rg_upstreams r @ [e]) mid' m'" if "rec_ok (rg_upstreams r) mid' m'" for mid' m'
    using that by (auto simp: rec_ok_def nth_append split: option.splits)
  have l: "lookup_machine mid' r1 = lookup_machine mid' r" for mid' by (simp add: r1_def lookup_machine_def)
  have r1: "reg_ok r1"
    using assms(1) e(1) grow reg_okD [OF assms(1)] by (auto simp: reg_ok_def hub_ok_def l) (auto simp: r1_def)
  have "rec_ok (rg_upstreams r1) mid (m\<lparr>mr_upstream := Some (length (rg_upstreams r))\<rparr>)"
    using m e by (simp add: rec_ok_def r1_def)
  then have "reg_ok (set_record h (m\<lparr>mr_upstream := Some (length (rg_upstreams r))\<rparr>) r1)"
    using r1 assms(2) by (intro reg_ok_set_record) (simp_all add: l, simp_all add: r1_def m_def)
  then show ?thesis using True unfolding acquire_locked_spec [OF assms] by (simp add: m_def e_def r1_def)
qed (use assms acquire_locked_spec [OF assms] in simp)

lemma get_machine_lookup: "get_machine now mid r = (Ok h, r') \<Longrightarrow> lookup_machine mid r' = Some h"
  by (auto simp: get_machine_def Let_def split: option.splits if_splits)

lemma reg_ok_acquire:
  assumes "reg_ok r"
  shows "reg_ok (snd (acquire room now mid r))"
proof (cases "get_machine now mid r")
  case (Pair res r')
  have "reg_ok r'" using reg_ok_get [OF assms, of now mid] Pair by simp
  then show ?thesis
    using Pair get_machine_lookup [of now mid r _ r'] reg_ok_acquire_locked [of r' mid] by (cases res) (auto simp: acquire_def)
qed

text \<open>Releasing.\<close>

lemma clear_upstream_cases:
  "clear_upstream u ms r = r \<and> (\<forall>(mid, h)\<in>set ms. mr_upstream (rg_records r ! h) \<noteq> Some u)
   \<or> (\<exists>mid h. (mid, h) \<in> set ms \<and> mr_upstream (rg_records r ! h) = Some u
        \<and> clear_upstream u ms r = set_record h ((rg_records r ! h)\<lparr>mr_upstream := None\<rparr>) r)"
proof (induction ms)
  case (Cons x ms)
  obtain mid h where x: "x = (mid, h)" by (cases x)
  show ?case
  proof (cases "mr_upstream (rg_records r ! h) = Some u")
    case True
    then have "clear_upstream u (x # ms) r = set_record h ((rg_records r ! h)\<lparr>mr_upstream := None\<rparr>) r" by (simp add: x Let_def)
    moreover have "(mid, h) \<in> set (x # ms)" by (simp add: x)
    ultimately show ?thesis using True by blast
  next
    case False
    then have eq: "clear_upstream u (x # ms) r = clear_upstream u ms r" by (simp add: x Let_def)
    have "\<forall>(mid, h)\<in>set (x # ms). mr_upstream (rg_records r ! h) \<noteq> Some u" if "\<forall>(mid, h)\<in>set ms. mr_upstream (rg_records r ! h) \<noteq> Some u"
      using that False by (simp add: x)
    then show ?thesis unfolding eq using Cons.IH list.set_intros(2) [of _ ms x] by blast
  qed
qed simp

lemma clear_set_entry: "clear_upstream u ms (set_entry u e r) = set_entry u e (clear_upstream u ms r)"
  by (induction ms) (auto simp: Let_def set_entry_def set_record_def)

lemma reg_ok_clear:
  assumes "reg_ok r"
  shows "reg_ok (clear_upstream u (rg_machines r) r)"
    and "lookup_machine mid (clear_upstream u (rg_machines r) r) = Some h \<Longrightarrow>
      mr_upstream (rg_records (clear_upstream u (rg_machines r) r) ! h) \<noteq> Some u"
proof -
  have mem: "(mid, h) \<in> set (rg_machines r) \<longleftrightarrow> lookup_machine mid r = Some h" for mid h
    using assms by (simp add: reg_ok_def lookup_machine_def map_of_eq_Some_iff)
  consider "clear_upstream u (rg_machines r) r = r" "\<And>mid h. lookup_machine mid r = Some h \<Longrightarrow> mr_upstream (rg_records r ! h) \<noteq> Some u"
    | mid0 h0 where "lookup_machine mid0 r = Some h0" "mr_upstream (rg_records r ! h0) = Some u"
      "clear_upstream u (rg_machines r) r = set_record h0 ((rg_records r ! h0)\<lparr>mr_upstream := None\<rparr>) r"
    using clear_upstream_cases [of u "rg_machines r" r] mem by blast
  then have "reg_ok (clear_upstream u (rg_machines r) r)
    \<and> (lookup_machine mid (clear_upstream u (rg_machines r) r) = Some h \<longrightarrow>
       mr_upstream (rg_records (clear_upstream u (rg_machines r) r) ! h) \<noteq> Some u)"
  proof cases
    case 1
    then show ?thesis using assms by simp
  next
    case 2
    note m = reg_okD [OF assms 2(1)]
    have "reg_ok (set_record h0 ((rg_records r ! h0)\<lparr>mr_upstream := None\<rparr>) r)"
      using assms 2(1) m(2) by (intro reg_ok_set_record) (auto simp: rec_ok_def)
    moreover have "mr_upstream ((rg_records r)[h0 := (rg_records r ! h0)\<lparr>mr_upstream := None\<rparr>] ! h) \<noteq> Some u"
      if l: "lookup_machine mid r = Some h"
    proof (cases "h = h0")
      case False
      then show ?thesis
        using reg_okD(2) [OF assms l] m(2) 2(1,2) l by (auto simp: rec_ok_def)
    qed (use m(1) in simp)
    ultimately show ?thesis using 2(3) by simp
  qed
  then show "reg_ok (clear_upstream u (rg_machines r) r)"
    and "lookup_machine mid (clear_upstream u (rg_machines r) r) = Some h \<Longrightarrow>
      mr_upstream (rg_records (clear_upstream u (rg_machines r) r) ! h) \<noteq> Some u" by blast+
qed

lemma release_viewer_eq:
  assumes "reg_ok r" "u < length (rg_upstreams r)"
  shows "release_viewer u r = set_entry u ((rg_upstreams r ! u)\<lparr>ue_viewers := 0, ue_counts := ue_counts (rg_upstreams r ! u) @ [0], ue_stopped := True\<rparr>)
    (clear_upstream u (rg_machines r) r)"
proof -
  have "ue_viewers (rg_upstreams r ! u) \<le> 1" using assms by (auto simp: reg_ok_def list_all_length entry_ok_def)
  moreover have "rg_upstreams (clear_upstream u (rg_machines r) r) = rg_upstreams r"
    using clear_upstream_cases [of u "rg_machines r" r] by auto
  ultimately show ?thesis
    using assms(2) by (simp add: release_viewer_def Let_def clear_set_entry stop_entry_def) (simp add: set_entry_def)
qed

lemma reg_ok_release:
  assumes "reg_ok r" "u < length (rg_upstreams r)"
  shows "reg_ok (release_viewer u r)"
  unfolding release_viewer_eq [OF assms]
  using reg_ok_clear [OF assms(1)] by (intro reg_ok_set_entry) (auto simp: entry_ok_def)

section \<open>Runs of the registry\<close>

text \<open>The requests of hosts and viewers, the host links and the upstreams.  A viewer releases an upstream that exists.\<close>

datatype registry_event =
    Registers nat machine_registration
  | Deregisters string
  | ListsMachines nat
  | GetsMachine nat string
  | Acquires nat nat string
  | Releases nat
  | HostDials string nat bool nat stream
  | LinkEnds string nat
  | TakesLink "nat \<Rightarrow> bool" string
  | ReportsStatus string string

definition on_hub :: "(link_hub \<Rightarrow> link_hub) \<Rightarrow> registry \<Rightarrow> registry" where
  "on_hub f r = r\<lparr>rg_hub := f (rg_hub r), rg_closed := rg_closed r\<rparr>"

fun registry_step ::
  "(string \<Rightarrow> (string \<times> string) option) \<Rightarrow> (byte list \<Rightarrow> (string \<times> string) option) \<Rightarrow> registry_event \<Rightarrow> registry
     \<Rightarrow> (machine_error + nat) option \<times> registry" where
  "registry_step parse hello_json (Registers now input) r = (None, upsert parse now input False r)"
| "registry_step parse hello_json (Deregisters mid) r = (None, snd (deregister mid r))"
| "registry_step parse hello_json (ListsMachines now) r = (None, snd (list_machines now r))"
| "registry_step parse hello_json (GetsMachine now mid) r = (None, snd (get_machine now mid r))"
| "registry_step parse hello_json (Acquires room now mid) r = (case acquire room now mid r of (res, r) \<Rightarrow> (Some res, r))"
| "registry_step parse hello_json (Releases u) r = (None, if u < length (rg_upstreams r) then release_viewer u r else r)"
| "registry_step parse hello_json (HostDials token now ack_ok conn s) r = (None, snd (handleHostLink hello_json token now ack_ok conn s r))"
| "registry_step parse hello_json (LinkEnds mid conn) r = (None, on_hub (link_ended mid conn) r)"
| "registry_step parse hello_json (TakesLink ended mid) r = (None, on_hub (\<lambda>h. snd (take_link ended mid h)) r)"
| "registry_step parse hello_json (ReportsStatus mid upst) r = (None, setUpstreamStatus mid upst r)"

lemma reg_ok_closed: "reg_ok (r\<lparr>rg_closed := cl\<rparr>) = reg_ok r"
  by (simp add: reg_ok_def hub_ok_def lookup_machine_def)

lemma on_hub_remove:
  assumes "reg_ok r"
  shows "reg_ok (on_hub (\<lambda>h. snd (remove_link mid h)) r)"
proof -
  have "on_hub (\<lambda>h. snd (remove_link mid h)) r = (drop_link mid r)\<lparr>rg_closed := rg_closed r\<rparr>"
    by (simp add: on_hub_def drop_link_eq)
  then show ?thesis using reg_ok_drop_link [OF assms] by (simp add: reg_ok_closed)
qed

lemma link_ended_remove: "link_ended mid conn h = h \<or> link_ended mid conn h = snd (remove_link mid h)"
  by (simp add: link_ended_def remove_link_def)

lemma take_link_remove: "snd (take_link ended mid h) = snd (remove_link mid h)"
  by (simp add: take_link_def split: prod.split option.split)

lemma reg_ok_status: "reg_ok r \<Longrightarrow> reg_ok (setUpstreamStatus mid upst r)"
proof (cases "lookup_machine mid r")
  case (Some h)
  assume ok: "reg_ok r"
  have "rec_ok (rg_upstreams r) mid ((rg_records r ! h)\<lparr>mr_info := (mr_info (rg_records r ! h))\<lparr>mi_upstream_status := upst\<rparr>\<rparr>)"
    using reg_okD(2) [OF ok Some] by (simp add: rec_ok_def)
  with ok Some have "reg_ok (set_record h ((rg_records r ! h)\<lparr>mr_info := (mr_info (rg_records r ! h))\<lparr>mi_upstream_status := upst\<rparr>\<rparr>) r)"
    by (intro reg_ok_set_record) auto
  then show ?thesis using Some by (simp add: setUpstreamStatus_def Let_def)
qed (simp add: setUpstreamStatus_def)

lemma reg_ok_handleHostLink: "reg_ok r \<Longrightarrow> reg_ok (snd (handleHostLink hello_json token now ack_ok conn s r))"
proof -
  assume ok: "reg_ok r"
  show ?thesis
  proof (cases "read_hello hello_json s")
    case (Some p)
    obtain mid t where p: "p = (mid, t)" by (cases p)
    have "reg_ok (snd (case parkHostLink now mid conn r of (ok, r) \<Rightarrow> (if ok then LinkParked else LinkUnknown, r)))"
      using reg_ok_parkHostLink [OF ok, of now mid conn] by (simp add: split_beta)
    then show ?thesis using ok Some p by (simp add: handleHostLink_def del: split_paired_All)
  qed (use ok in \<open>simp add: handleHostLink_def\<close>)
qed

interpretation relay_registry: stepper "registry_step parse hello_json" reg_ok for parse hello_json
proof unfold_locales
  fix e and r :: registry
  assume ok: "reg_ok r"
  show "reg_ok (snd (registry_step parse hello_json e r))"
  proof (cases e)
    case (LinkEnds mid conn)
    have "reg_ok (on_hub (\<lambda>h. h) r)" using ok by (simp add: on_hub_def)
    then have "reg_ok (on_hub (link_ended mid conn) r)"
      using link_ended_remove [of mid conn "rg_hub r"] on_hub_remove [OF ok, of mid] by (auto simp: on_hub_def)
    then show ?thesis using LinkEnds by simp
  next
    case (ListsMachines now)
    then show ?thesis using reg_ok_expire_all [OF ok, of "rg_machines r" now] by (simp add: list_machines_def Let_def)
  next
    case (Acquires room now mid)
    then show ?thesis using reg_ok_acquire [OF ok, of room now mid] by (simp add: split_beta)
  qed (use ok reg_ok_upsert reg_ok_deregister reg_ok_get reg_ok_release reg_ok_handleHostLink on_hub_remove reg_ok_status
      in \<open>simp_all add: take_link_remove\<close>)
qed

text \<open>The registry as \<open>main\<close> starts it, with the configured machine.\<close>

definition registry_start :: "nat \<Rightarrow> string \<Rightarrow> registry" where
  "registry_start now endpoint = seedStatic now ''default'' ''Configured Flux Server'' endpoint newMachineRegistry"

lemma reg_ok_start: "reg_ok (registry_start now endpoint)"
proof -
  have "reg_ok newMachineRegistry"
    by (simp add: reg_ok_def hub_ok_def newMachineRegistry_def newHostLinkHub_def lookup_machine_def)
  then show ?thesis
    unfolding registry_start_def seedStatic_def
    by (rule reg_ok_new_record) (simp_all add: newMachineRegistry_def lookup_machine_def rec_ok_def blank_info_def)
qed

text \<open>C36: Every registry that requests can lead to is well-formed.  Machine identifiers are unique and lead
  to a record of that machine; the upstream of a machine exists, belongs to it, runs and has exactly one viewer, so no two
  machines share one; no upstream ever has two viewers and one without a viewer is stopped; the gauge counts the parked links,
  and a link is parked only for a registered machine that dials out.\<close>

theorem registry_wellformed:
  "let r = snd (run (registry_step parse hello_json) es (registry_start now endpoint)) in
     distinct (map fst (rg_machines r))
   \<and> list_all (\<lambda>(mid, h). h < length (rg_records r) \<and> mi_id (mr_info (rg_records r ! h)) = mid
       \<and> (case mr_upstream (rg_records r ! h) of None \<Rightarrow> True
          | Some u \<Rightarrow> u < length (rg_upstreams r) \<and> ue_machine (rg_upstreams r ! u) = mid
              \<and> ue_viewers (rg_upstreams r ! u) = 1 \<and> \<not> ue_stopped (rg_upstreams r ! u))) (rg_machines r)
   \<and> list_all (\<lambda>e. ue_viewers e \<le> 1 \<and> (if ue_viewers e = 0 then ue_stopped e else True)) (rg_upstreams r)
   \<and> hb_parked (rg_hub r) = int (card (dom (map_of (hb_links (rg_hub r)))))
   \<and> list_all (\<lambda>(mid, conn). case map_of (rg_machines r) mid of None \<Rightarrow> False | Some h \<Rightarrow> mi_dials_out (mr_info (rg_records r ! h)))
       (hb_links (rg_hub r))"
proof -
  define r where "r = snd (run (registry_step parse hello_json) es (registry_start now endpoint))"
  have ok: "reg_ok r" unfolding r_def by (rule relay_registry.inv_run [OF reg_ok_start])
  have d: "distinct (map fst (rg_machines r))" using ok by (simp add: reg_ok_def)
  have "h < length (rg_records r) \<and> rec_ok (rg_upstreams r) mid (rg_records r ! h)" if "(mid, h) \<in> set (rg_machines r)" for mid h
    using reg_okD [OF ok, of mid h] map_of_is_SomeI [OF d that] by (simp add: lookup_machine_def)
  then have 1: "list_all (\<lambda>(mid, h). h < length (rg_records r) \<and> mi_id (mr_info (rg_records r ! h)) = mid
       \<and> (case mr_upstream (rg_records r ! h) of None \<Rightarrow> True
          | Some u \<Rightarrow> u < length (rg_upstreams r) \<and> ue_machine (rg_upstreams r ! u) = mid
              \<and> ue_viewers (rg_upstreams r ! u) = 1 \<and> \<not> ue_stopped (rg_upstreams r ! u))) (rg_machines r)"
    by (auto simp: list_all_iff rec_ok_def)
  have "case map_of (rg_machines r) mid of None \<Rightarrow> False | Some h \<Rightarrow> mi_dials_out (mr_info (rg_records r ! h))"
    if "(mid, conn) \<in> set (hb_links (rg_hub r))" for mid conn
  proof -
    have "map_of (hb_links (rg_hub r)) mid \<noteq> None" using weak_map_of_SomeI [OF that] by auto
    from reg_ok_linkD [OF ok this] obtain h where "map_of (rg_machines r) mid = Some h" "mi_dials_out (mr_info (rg_records r ! h))"
      unfolding lookup_machine_def .
    then show ?thesis by (simp only: option.case)
  qed
  then have 2: "list_all (\<lambda>(mid, conn). case map_of (rg_machines r) mid of None \<Rightarrow> False
      | Some h \<Rightarrow> mi_dials_out (mr_info (rg_records r ! h))) (hb_links (rg_hub r))"
    unfolding list_all_iff by blast
  have "list_all (\<lambda>e. ue_viewers e \<le> 1 \<and> (if ue_viewers e = 0 then ue_stopped e else True)) (rg_upstreams r)"
    using ok by (auto simp: reg_ok_def list_all_iff entry_ok_def)
  with d 1 2 reg_ok_gauge [OF ok] show ?thesis unfolding r_def [symmetric] Let_def by blast
qed

section \<open>Every viewer has an upstream of its own\<close>

definition acquired :: "(machine_error + nat) option list \<Rightarrow> nat list" where
  "acquired outs = List.map_filter (\<lambda>out. case out of Some (Inr u) \<Rightarrow> Some u | _ \<Rightarrow> None) outs"

lemma clear_upstream_length [simp]: "length (rg_upstreams (clear_upstream u ms r)) = length (rg_upstreams r)"
  by (induction ms) (auto simp: Let_def)

lemma expire_length [simp]: "length (rg_upstreams (expire_record mid h r)) = length (rg_upstreams r)"
  by (simp add: expire_record_def Let_def stop_entry_def split: option.split)

lemma expire_all_length [simp]: "length (rg_upstreams (expire_all now ms r)) = length (rg_upstreams r)"
  by (induction now ms r rule: expire_all.induct) auto

lemma get_length [simp]: "length (rg_upstreams (snd (get_machine now mid r))) = length (rg_upstreams r)"
  by (simp add: get_machine_def Let_def split: option.split)

lemma register_at_length [simp]: "length (rg_upstreams (register_at parse now input static h r)) = length (rg_upstreams r)"
  by (simp add: register_at_def Let_def split: option.split)

lemma upsert_length [simp]: "length (rg_upstreams (upsert parse now input static r)) = length (rg_upstreams r)"
  by (simp add: upsert_def split: option.split prod.split) (simp add: new_record_def)

lemma deregister_length [simp]: "length (rg_upstreams (snd (deregister mid r))) = length (rg_upstreams r)"
  by (simp add: deregister_def Let_def stop_entry_def split: option.split)

lemma release_length [simp]: "length (rg_upstreams (release_viewer u r)) = length (rg_upstreams r)"
  by (simp add: release_viewer_def Let_def stop_entry_def)

lemma handleHostLink_upstreams [simp]: "rg_upstreams (snd (handleHostLink hello_json token now ack_ok conn s r)) = rg_upstreams r"
  by (simp add: handleHostLink_def parkHostLink_def Let_def split: option.split prod.split)

lemma status_upstreams [simp]: "rg_upstreams (setUpstreamStatus mid upst r) = rg_upstreams r"
  by (simp add: setUpstreamStatus_def Let_def split: option.split)

lemma acquire_spec:
  assumes "reg_ok r" "acquire room now mid r = (Ok u, r')"
  shows "u = length (rg_upstreams r)" "length (rg_upstreams r') = Suc u"
    "\<exists>i. mi_bitrate i = 0 \<and> mi_id i = mid \<and> rg_upstreams r' ! u = (new_entry room i)\<lparr>ue_viewers := 1, ue_counts := [1]\<rparr>"
proof -
  obtain h r1 where g: "get_machine now mid r = (Ok h, r1)" and a: "acquire_locked room h r1 = (Ok u, r')"
    using assms(2) by (auto simp: acquire_def split: prod.splits sum.splits)
  have ok: "reg_ok r1" and len: "length (rg_upstreams r1) = length (rg_upstreams r)"
    using reg_ok_get [OF assms(1), of now mid] get_length [of now mid r] g by simp_all
  note l = get_machine_lookup [OF g]
  show "u = length (rg_upstreams r)" "length (rg_upstreams r') = Suc u"
    using a len unfolding acquire_locked_spec [OF ok l] by (auto split: if_splits)
  then have "rg_upstreams r' ! u = (new_entry room (mr_info (rg_records r1 ! h)))\<lparr>ue_viewers := 1, ue_counts := [1]\<rparr>"
    using a unfolding acquire_locked_spec [OF ok l] len [symmetric] by (auto split: if_splits)
  then show "\<exists>i. mi_bitrate i = 0 \<and> mi_id i = mid \<and> rg_upstreams r' ! u = (new_entry room i)\<lparr>ue_viewers := 1, ue_counts := [1]\<rparr>"
    using reg_okD(2) [OF ok l] by (auto simp: rec_ok_def)
qed

lemma acquire_error_length:
  assumes "reg_ok r" "acquire room now mid r = (Err e, r')"
  shows "length (rg_upstreams r') = length (rg_upstreams r)"
proof (cases "get_machine now mid r")
  case (Pair res r1)
  have ok: "reg_ok r1" and len: "length (rg_upstreams r1) = length (rg_upstreams r)"
    using reg_ok_get [OF assms(1), of now mid] get_length [of now mid r] Pair by simp_all
  show ?thesis
  proof (cases res)
    case (Inr h)
    then have "lookup_machine mid r1 = Some h" using Pair get_machine_lookup by blast
    then show ?thesis using assms(2) Pair Inr len acquire_locked_spec [OF ok, of mid h room] by (auto simp: acquire_def split: if_splits)
  qed (use assms(2) Pair len in \<open>auto simp: acquire_def\<close>)
qed

lemma acquired_step:
  assumes "reg_ok r" "registry_step parse hello_json e r = (out, r')"
  shows "acquired [out] = [length (rg_upstreams r)..<length (rg_upstreams r')]"
proof (cases "\<exists>room now mid. e = Acquires room now mid")
  case True
  then obtain room now mid where e: "e = Acquires room now mid" by blast
  obtain res r1 where a: "acquire room now mid r = (res, r1)" by (rule prod.exhaust)
  then have eq: "out = Some res" "r' = r1" using assms(2) e by simp_all
  show ?thesis
  proof (cases res)
    case (Inl x)
    then show ?thesis using acquire_error_length [OF assms(1)] a eq by (simp add: acquired_def map_filter_def)
  next
    case (Inr u)
    then show ?thesis using acquire_spec(1,2) [OF assms(1)] a eq by (simp add: acquired_def map_filter_def)
  qed
next
  case False
  then have "out = None" "length (rg_upstreams r') = length (rg_upstreams r)"
    using assms(2) by (cases e; auto simp: list_machines_def Let_def on_hub_def)+
  then show ?thesis by (simp add: acquired_def map_filter_def)
qed

lemma acquired_Cons: "acquired (out # outs) = acquired [out] @ acquired outs"
  by (simp add: acquired_def map_filter_def)

lemma length_step: "reg_ok r \<Longrightarrow> length (rg_upstreams r) \<le> length (rg_upstreams (snd (registry_step parse hello_json e r)))"
proof (cases "\<exists>room now mid. e = Acquires room now mid")
  case True
  assume ok: "reg_ok r"
  from True obtain room now mid where e: "e = Acquires room now mid" by blast
  obtain res r1 where a: "acquire room now mid r = (res, r1)" by (rule prod.exhaust)
  then show ?thesis using acquire_error_length [OF ok] acquire_spec(1,2) [OF ok] e by (cases res) auto
qed (cases e; simp add: list_machines_def Let_def on_hub_def)

lemma upt_joined: "i \<le> j \<Longrightarrow> j \<le> k \<Longrightarrow> [i..<j] @ [j..<k] = [i..<k]"
  using upt_add_eq_append [of i j "k - j"] by simp

lemma acquired_run:
  "reg_ok r \<Longrightarrow> run (registry_step parse hello_json) es r = (outs, r') \<Longrightarrow>
     length (rg_upstreams r) \<le> length (rg_upstreams r') \<and> acquired outs = [length (rg_upstreams r)..<length (rg_upstreams r')]"
proof (induction es arbitrary: r outs)
  case Nil
  then show ?case by (simp add: acquired_def map_filter_def)
next
  case (Cons e es)
  obtain out r1 where s: "registry_step parse hello_json e r = (out, r1)" by (rule prod.exhaust)
  obtain outs1 where rest: "run (registry_step parse hello_json) es r1 = (outs1, r')" "outs = out # outs1"
    using Cons.prems(2) s by (cases "run (registry_step parse hello_json) es r1") auto
  have ok: "reg_ok r1" using relay_registry.inv_step [OF Cons.prems(1), of parse hello_json e] s by simp
  have le: "length (rg_upstreams r) \<le> length (rg_upstreams r1)"
    using length_step [OF Cons.prems(1), of parse hello_json e] s by simp
  have "acquired outs = acquired [out] @ acquired outs1" unfolding rest(2) by (rule acquired_Cons)
  then show ?case
    using Cons.IH [OF ok rest(1)] acquired_step [OF Cons.prems(1) s] le by (simp add: upt_joined)
qed


text \<open>A pointer obtained before a machine is deregistered: the record keeps its upstream, and after the viewer has
  left, the second section of \<open>acquire\<close> hands out the stopped upstream again.\<close>

theorem stale_record_reuses_stopped_upstream:
  assumes "reg_ok r" "lookup_machine mid r = Some h" "\<not> mr_static (rg_records r ! h)" "mr_upstream (rg_records r ! h) = Some u"
  shows "case acquire_locked room h (release_viewer u (snd (deregister mid r))) of
    (res, r') \<Rightarrow> res = Ok u \<and> ue_stopped (rg_upstreams r' ! u)"
proof -
  define r1 where "r1 = snd (deregister mid r)"
  have u: "u < length (rg_upstreams r)" using reg_okD(2) [OF assms(1,2)] assms(4) by (simp add: rec_ok_def)
  have ok: "reg_ok r1" unfolding r1_def by (rule reg_ok_deregister [OF assms(1)])
  have rec: "rg_records r1 = rg_records r" and gone: "lookup_machine mid r1 = None" and len: "length (rg_upstreams r1) = length (rg_upstreams r)"
    using assms by (simp_all add: r1_def deregister_def Let_def lookup_machine_def AList.delete_conv' stop_entry_def set_entry_def)
  have "clear_upstream u (rg_machines r1) r1 = r1"
  proof -
    have False if "(mid', h') \<in> set (rg_machines r1)" "mr_upstream (rg_records r1 ! h') = Some u" for mid' h'
    proof -
      have l: "lookup_machine mid' r1 = Some h'" using ok that(1) by (simp add: reg_ok_def lookup_machine_def)
      have l': "lookup_machine mid' r = Some h'"
        using l assms by (auto simp: r1_def deregister_def Let_def lookup_machine_def AList.delete_conv' stop_entry_def set_entry_def split: if_splits)
      then have "mid' = mid"
        using reg_okD(2) [OF assms(1) l'] reg_okD(2) [OF assms(1,2)] that(2) assms(4) rec by (simp add: rec_ok_def)
      then show False using l gone by simp
    qed
    then show ?thesis using clear_upstream_cases [of u "rg_machines r1" r1] by blast
  qed
  then have "release_viewer u r1 = set_entry u ((rg_upstreams r1 ! u)\<lparr>ue_viewers := 0, ue_counts := ue_counts (rg_upstreams r1 ! u) @ [0], ue_stopped := True\<rparr>) r1"
    using release_viewer_eq [OF ok] u len by simp
  then show ?thesis
    using assms(4) rec u len unfolding r1_def [symmetric] by (simp add: acquire_locked_def Let_def)
qed

text \<open>The hello a host writes to open a link is the hello the relay reads.\<close>

theorem link_hello_round_trip:
  assumes "encode_link_hello payload = Ok bs"
  shows "read_hello hello_json \<lparr>pending = bs @ rest, ending = e\<rparr> =
    (case hello_json payload of None \<Rightarrow> None | Some (mid, token) \<Rightarrow> if mid = [] \<or> token = [] then None else Some (mid, token))"
proof -
  have p: "payload \<noteq> []" "length payload \<le> 4096" "bs = u16_be (word_of_nat (length payload)) @ payload"
    using assms by (auto simp: encode_link_hello_def LINK_HELLO_MAX_SIZE_def split: if_splits)
  have "read_exact 2 \<lparr>pending = bs @ rest, ending = e\<rparr> = Ok (u16_be (word_of_nat (length payload)), \<lparr>pending = payload @ rest, ending = e\<rparr>)"
    using read_exact_append [of "u16_be (word_of_nat (length payload))" 2 "payload @ rest" e] by (simp add: p(3))
  moreover have "unat (word_of_nat (length payload) :: u16) = length payload"
    using p(2) by (simp add: unat_of_nat)
  ultimately show ?thesis
    using p by (simp add: read_hello_def Let_def hostLinkMaxHelloSize_def read_exact_append)
qed

end
