(* ===== verification/Relay_Login.thy ===== *)
theory Relay_Login
  imports Relay_Proto
begin

text \<open>
  The login state of an upstream (\<open>flux-web/login.go\<close>): which viewer answers the prompts of the host, whose
  login is active, and who may attach, answer and lock.  A handler returns what it does, in order, as a
  list of effects; an effect on the command channel is a \<open>send\<close>, which drops the command when the channel is full.
  The JSON of a login frame is a parameter.
\<close>

section \<open>State\<close>

datatype login_state = LoginIdle | LoginAuthenticating | LoginActive

text \<open>Of a session, its identifier and the identity of its user, if the relay authenticates users.\<close>

record identity =
  idn_sub :: string
  idn_name :: string
  idn_username :: string

record login_session =
  ls_id :: string
  ls_user :: "identity option"

record login_info =
  li_state :: login_state
  li_session :: string
  li_auth :: "login_session option"
  li_os_user :: string
  li_os_uid :: int
  li_sub :: string
  li_name :: string

record login_frame_json =
  lf_state :: string
  lf_style :: string
  lf_message :: string
  lf_user :: string
  lf_uid :: int
  lf_reattached :: bool

text \<open>\<open>lu_current\<close> is the session bound to the upstream, \<open>lu_sessions\<close> those of the machine in the session registry.\<close>

record login_upstream =
  lu_login :: login_info
  lu_prompt :: "login_frame_json option"
  lu_spoken :: bool
  lu_supports :: bool
  lu_current :: "login_session option"
  lu_sessions :: "login_session list"

text \<open>What a handler does.  The first three only mark changes of the login state.\<close>

datatype login_effect =
    Grants login_session
  | Accepts string
  | Clears
  | SendsResponse string
  | SendsLock
  | Forwards string "byte list"
  | StartsFrames string
  | EndsSession string string
  | SetsOSInfo string string int
  | Audits "string option" string string

definition no_login :: login_info where
  "no_login = \<lparr>li_state = LoginIdle, li_session = [], li_auth = None, li_os_user = [], li_os_uid = 0, li_sub = [], li_name = []\<rparr>"

definition login_new :: "bool \<Rightarrow> login_upstream" where
  "login_new supports =
     \<lparr>lu_login = no_login, lu_prompt = None, lu_spoken = False, lu_supports = supports, lu_current = None, lu_sessions = []\<rparr>"

definition sub_of :: "login_session \<Rightarrow> string" where
  "sub_of s = (case ls_user s of None \<Rightarrow> [] | Some i \<Rightarrow> idn_sub i)"

definition name_of :: "login_session \<Rightarrow> string" where
  "name_of s = (case ls_user s of None \<Rightarrow> [] | Some i \<Rightarrow> idn_name i)"

definition authenticating :: "login_session \<Rightarrow> string \<Rightarrow> login_info" where
  "authenticating s name =
     no_login\<lparr>li_state := LoginAuthenticating, li_session := ls_id s, li_auth := Some s, li_sub := sub_of s, li_name := name\<rparr>"

section \<open>Operations\<close>

datatype gate = RoleAuth | RoleViewer | Rejected string

definition gateViewer :: "login_session \<Rightarrow> login_upstream \<Rightarrow> gate \<times> login_effect list \<times> login_upstream" where
  "gateViewer s u =
     (if \<not> lu_supports u \<and> \<not> lu_spoken u then (RoleViewer, [], u)
      else case li_state (lu_login u) of
             LoginAuthenticating \<Rightarrow> (Rejected ''login in progress'', [], u)
           | LoginActive \<Rightarrow>
               if li_sub (lu_login u) = [] \<or> sub_of s \<noteq> li_sub (lu_login u)
               then (Rejected (''in use by '' @ li_os_user (lu_login u)), [], u)
               else (RoleViewer, [], u)
           | LoginIdle \<Rightarrow> (RoleAuth, [Grants s], u\<lparr>lu_login := authenticating s (name_of s)\<rparr>))"

definition loginOSUser :: "login_upstream \<Rightarrow> string" where
  "loginOSUser u = (if li_state (lu_login u) = LoginActive then li_os_user (lu_login u) else [])"

definition sendLoginResponseIfAuth :: "login_session \<Rightarrow> string \<Rightarrow> login_upstream \<Rightarrow> login_effect list" where
  "sendLoginResponseIfAuth s resp u =
     (if li_state (lu_login u) = LoginAuthenticating \<and> li_session (lu_login u) = ls_id s then [SendsResponse resp] else [])"

definition viewerLock :: "login_session \<Rightarrow> login_upstream \<Rightarrow> login_effect list \<times> login_upstream" where
  "viewerLock s u =
     (if li_state (lu_login u) \<noteq> LoginActive then ([], u)
      else if sub_of s = [] \<or> sub_of s \<noteq> li_sub (lu_login u) then ([], u)
      else ([Grants s, SendsLock], u\<lparr>lu_login := authenticating s (li_name (lu_login u))\<rparr>))"

definition onSessionLeft :: "login_session \<Rightarrow> login_upstream \<Rightarrow> login_effect list \<times> login_upstream" where
  "onSessionLeft s u =
     (case li_state (lu_login u) of
        LoginAuthenticating \<Rightarrow>
          if li_session (lu_login u) = ls_id s then ([Clears], u\<lparr>lu_login := no_login\<rparr>) else ([], u)
      | LoginActive \<Rightarrow>
          if list_all (\<lambda>v. ls_id v = ls_id s) (lu_sessions u) then ([Clears, SendsLock], u\<lparr>lu_login := no_login\<rparr>) else ([], u)
      | LoginIdle \<Rightarrow> ([], u))"

definition onUpstreamDisconnected :: "login_upstream \<Rightarrow> login_effect list \<times> login_upstream" where
  "onUpstreamDisconnected u =
     (Clears # map (\<lambda>v. EndsSession (ls_id v) ''host connection lost'') (lu_sessions u),
      u\<lparr>lu_login := no_login, lu_prompt := None, lu_spoken := False\<rparr>)"

text \<open>The user name the relay answers itself, when the prompt asks for it and the identity has one.\<close>

definition usernamePrompt :: string where "usernamePrompt = ''Username''"

definition prefilled :: "bool \<Rightarrow> login_session \<Rightarrow> login_frame_json \<Rightarrow> string option" where
  "prefilled loginPrefill s f =
     (if lf_message f = usernamePrompt \<and> loginPrefill
      then (case ls_user s of None \<Rightarrow> None | Some i \<Rightarrow> if idn_username i \<noteq> [] then Some (idn_username i) else None)
      else None)"

text \<open>A viewer that attached before the first prompt becomes the authenticating one.\<close>

definition promote :: "login_upstream \<Rightarrow> login_effect list \<times> login_upstream" where
  "promote u =
     (if li_auth (lu_login u) = None \<and> li_state (lu_login u) = LoginIdle
      then (case lu_current u of
              None \<Rightarrow> ([], u)
            | Some cur \<Rightarrow> ([Grants cur], u\<lparr>lu_login := authenticating cur (name_of cur)\<rparr>))
      else ([], u))"

definition on_prompt :: "bool \<Rightarrow> login_frame_json \<Rightarrow> byte list \<Rightarrow> login_upstream \<Rightarrow> login_effect list \<times> login_upstream" where
  "on_prompt loginPrefill f data u =
     (case promote (u\<lparr>lu_prompt := Some f\<rparr>) of
        (es, u) \<Rightarrow>
          (es @ (case li_auth (lu_login u) of
                   None \<Rightarrow> []
                 | Some s \<Rightarrow>
                     (case prefilled loginPrefill s f of
                        Some name \<Rightarrow> [SendsResponse name]
                      | None \<Rightarrow> [Forwards (ls_id s) data])), u))"

definition on_ok :: "login_frame_json \<Rightarrow> byte list \<Rightarrow> login_upstream \<Rightarrow> login_effect list \<times> login_upstream" where
  "on_ok f data u =
     (let l = lu_login u; s = li_auth l in
      (Accepts (lf_user f)
       # (case s of None \<Rightarrow> [] | Some s \<Rightarrow> [SetsOSInfo (ls_id s) (lf_user f) (lf_uid f)])
       @ [Audits (map_option ls_id s) (lf_user f) ''ok'']
       @ (case s of None \<Rightarrow> [] | Some s \<Rightarrow> [Forwards (ls_id s) data, StartsFrames (ls_id s)]),
       u\<lparr>lu_login := no_login\<lparr>li_state := LoginActive, li_session := li_session l, li_os_user := lf_user f, li_os_uid := lf_uid f,
                              li_sub := li_sub l, li_name := li_name l\<rparr>\<rparr>))"

definition on_failed :: "login_frame_json \<Rightarrow> byte list \<Rightarrow> login_upstream \<Rightarrow> login_effect list" where
  "on_failed f data u =
     (let s = li_auth (lu_login u)
      in Audits (map_option ls_id s) (lf_user f) ''failed'' # (case s of None \<Rightarrow> [] | Some s \<Rightarrow> [Forwards (ls_id s) data]))"

definition on_busy :: "login_frame_json \<Rightarrow> byte list \<Rightarrow> login_upstream \<Rightarrow> login_effect list \<times> login_upstream" where
  "on_busy f data u =
     (let s = li_auth (lu_login u)
      in (Clears # Audits (map_option ls_id s) (lf_user f) ''busy''
            # (case s of None \<Rightarrow> [] | Some s \<Rightarrow> [Forwards (ls_id s) data, EndsSession (ls_id s) (''host in use by '' @ lf_user f)]),
          u\<lparr>lu_login := no_login\<rparr>))"

definition handleLoginFrame ::
  "(byte list \<Rightarrow> login_frame_json option) \<Rightarrow> bool \<Rightarrow> byte list \<Rightarrow> login_upstream \<Rightarrow> login_effect list \<times> login_upstream" where
  "handleLoginFrame unmarshal loginPrefill data u =
     (case unmarshal data of
        None \<Rightarrow> ([], u)
      | Some f \<Rightarrow>
          let u = u\<lparr>lu_spoken := True\<rparr> in
          if lf_state f = ''prompt'' then on_prompt loginPrefill f data u
          else if lf_state f = ''ok'' then on_ok f data u
          else if lf_state f = ''failed'' then (on_failed f data u, u)
          else if lf_state f = ''busy'' then on_busy f data u
          else ([], u))"

definition replayPrompt :: "(login_frame_json \<Rightarrow> byte list) \<Rightarrow> bool \<Rightarrow> login_session \<Rightarrow> login_upstream \<Rightarrow> login_effect list" where
  "replayPrompt marshal loginPrefill s u =
     (case lu_prompt u of
        None \<Rightarrow> []
      | Some f \<Rightarrow>
          (case prefilled loginPrefill s f of
             Some name \<Rightarrow> [SendsResponse name]
           | None \<Rightarrow> [Forwards (ls_id s) (marshal f)]))"

section \<open>Sessions\<close>

text \<open>What a session does to the login state: the gate, the binding with the replay for the role it was given, the entry in the session
  registry, its messages, and its release.  \<open>releaseNow\<close> unbinds the session, takes it out of the registry, and then
  reports that it left.\<close>

definition bind_session :: "(login_frame_json \<Rightarrow> byte list) \<Rightarrow> bool \<Rightarrow> login_session \<Rightarrow> gate \<Rightarrow> login_upstream \<Rightarrow> login_effect list \<times> login_upstream" where
  "bind_session marshal loginPrefill s role u =
     (let u = u\<lparr>lu_current := Some s\<rparr> in (if role = RoleAuth then replayPrompt marshal loginPrefill s u else [], u))"

definition release_session :: "login_session \<Rightarrow> login_upstream \<Rightarrow> login_effect list \<times> login_upstream" where
  "release_session s u =
     (let u = (if lu_current u = Some s then u\<lparr>lu_current := None\<rparr> else u)
      in onSessionLeft s (u\<lparr>lu_sessions := filter (\<lambda>v. ls_id v \<noteq> ls_id s) (lu_sessions u)\<rparr>))"

datatype login_event =
    GatesViewer login_session
  | BindsViewer login_session gate
  | AddsSession login_session
  | Answers login_session string
  | Locks login_session
  | LeavesViewer login_session
  | HostFrame "byte list"
  | HostLost

fun relay_login_step ::
  "(byte list \<Rightarrow> login_frame_json option) \<Rightarrow> (login_frame_json \<Rightarrow> byte list) \<Rightarrow> bool \<Rightarrow> login_event \<Rightarrow> login_upstream
     \<Rightarrow> login_effect list \<times> login_upstream" where
  "relay_login_step unm mar pre (GatesViewer s) u = snd (gateViewer s u)"
| "relay_login_step unm mar pre (BindsViewer s role) u = bind_session mar pre s role u"
| "relay_login_step unm mar pre (AddsSession s) u = ([], u\<lparr>lu_sessions := lu_sessions u @ [s]\<rparr>)"
| "relay_login_step unm mar pre (Answers s resp) u = (sendLoginResponseIfAuth s resp u, u)"
| "relay_login_step unm mar pre (Locks s) u = viewerLock s u"
| "relay_login_step unm mar pre (LeavesViewer s) u = release_session s u"
| "relay_login_step unm mar pre (HostFrame data) u = handleLoginFrame unm pre data u"
| "relay_login_step unm mar pre HostLost u = onUpstreamDisconnected u"

section \<open>Whose login it is\<close>

text \<open>The owner of the login by the history alone: the session that was last given the exchange, and, once the
  host has accepted it, the session whose exchange was accepted.\<close>

datatype login_owner = Nobody | Exchanging login_session | LoggedIn "login_session option" string

fun owner_after :: "login_effect \<Rightarrow> login_owner \<Rightarrow> login_owner" where
  "owner_after (Grants s) ow = Exchanging s"
| "owner_after Clears ow = Nobody"
| "owner_after (Accepts osu) ow =
     (case ow of Nobody \<Rightarrow> LoggedIn None osu | Exchanging s \<Rightarrow> LoggedIn (Some s) osu | LoggedIn so _ \<Rightarrow> LoggedIn so osu)"
| "owner_after _ ow = ow"

definition owner_of :: "login_effect list \<Rightarrow> login_owner \<Rightarrow> login_owner" where
  "owner_of es ow = foldl (\<lambda>ow e. owner_after e ow) ow es"

lemma owner_of_simps [simp]:
  "owner_of [] ow = ow" "owner_of (e # es) ow = owner_of es (owner_after e ow)"
  "owner_of (es @ es') ow = owner_of es' (owner_of es ow)"
  by (simp_all add: owner_of_def)

definition login_agrees :: "login_owner \<Rightarrow> login_info \<Rightarrow> bool" where
  "login_agrees ow l \<longleftrightarrow>
     (case ow of
        Nobody \<Rightarrow> l = no_login
      | Exchanging s \<Rightarrow> li_state l = LoginAuthenticating \<and> li_session l = ls_id s \<and> li_auth l = Some s \<and> li_sub l = sub_of s
      | LoggedIn so osu \<Rightarrow> li_state l = LoginActive \<and> li_auth l = None \<and> li_os_user l = osu
          \<and> li_sub l = (case so of None \<Rightarrow> [] | Some s \<Rightarrow> sub_of s))"

lemma agrees_authenticating [simp]: "login_agrees (Exchanging s) (authenticating s name)"
  by (simp add: login_agrees_def authenticating_def no_login_def)

lemma agrees_no_login [simp]: "login_agrees Nobody no_login"
  by (simp add: login_agrees_def)

lemma agrees_idle: "login_agrees ow l \<Longrightarrow> li_state l = LoginIdle \<longleftrightarrow> ow = Nobody"
  by (auto simp: login_agrees_def no_login_def split: login_owner.splits)

lemma owner_of_ends [simp]: "owner_of (map (\<lambda>v. EndsSession (f v) r) vs) ow = ow"
  by (induction vs) simp_all

lemma on_prompt_agrees:
  assumes "login_agrees ow (lu_login u)"
  shows "login_agrees (owner_of (fst (on_prompt pre f data u)) ow) (lu_login (snd (on_prompt pre f data u)))"
proof -
  have rest: "owner_of (case a of None \<Rightarrow> [] | Some s \<Rightarrow> (case prefilled pre s f of Some name \<Rightarrow> [SendsResponse name]
      | None \<Rightarrow> [Forwards (ls_id s) data])) ow' = ow'" for a ow'
    by (simp split: option.split)
  show ?thesis using assms by (simp add: on_prompt_def promote_def rest split: option.split)
qed

lemma on_ok_agrees:
  "login_agrees ow (lu_login u) \<Longrightarrow> login_agrees (owner_of (fst (on_ok f data u)) ow) (lu_login (snd (on_ok f data u)))"
  by (auto simp: on_ok_def Let_def login_agrees_def no_login_def split: login_owner.splits option.splits)

lemma on_busy_agrees: "login_agrees (owner_of (fst (on_busy f data u)) ow) (lu_login (snd (on_busy f data u)))"
  by (simp add: on_busy_def Let_def split: option.split)

lemma on_failed_owner: "owner_of (on_failed f data u) ow = ow"
  by (simp add: on_failed_def Let_def split: option.split)

lemma handleLoginFrame_agrees:
  assumes "login_agrees ow (lu_login u)"
  shows "login_agrees (owner_of (fst (handleLoginFrame unm pre data u)) ow) (lu_login (snd (handleLoginFrame unm pre data u)))"
proof -
  have "login_agrees ow (lu_login (u\<lparr>lu_spoken := True\<rparr>))" using assms by simp
  note a = on_prompt_agrees [OF this] on_ok_agrees [OF this]
  show ?thesis
    using assms a by (cases "unm data") (simp_all add: handleLoginFrame_def Let_def on_busy_agrees on_failed_owner)
qed

lemma onSessionLeft_agrees:
  "login_agrees ow (lu_login u) \<Longrightarrow> login_agrees (owner_of (fst (onSessionLeft s u)) ow) (lu_login (snd (onSessionLeft s u)))"
  by (simp add: onSessionLeft_def split: login_state.split)

lemma replay_owner: "owner_of (replayPrompt mar pre s u) ow = ow"
  by (simp add: replayPrompt_def split: option.split)

lemma relay_login_agrees:
  assumes "login_agrees ow (lu_login u)"
  shows "login_agrees (owner_of (fst (relay_login_step unm mar pre e u)) ow) (lu_login (snd (relay_login_step unm mar pre e u)))"
proof (cases e)
  case (GatesViewer s)
  then show ?thesis using assms by (simp add: gateViewer_def split: login_state.split)
next
  case (LeavesViewer s)
  have "login_agrees ow (lu_login ((if lu_current u = Some s then u\<lparr>lu_current := None\<rparr> else u)
      \<lparr>lu_sessions := filter (\<lambda>v. ls_id v \<noteq> ls_id s) (lu_sessions (if lu_current u = Some s then u\<lparr>lu_current := None\<rparr> else u))\<rparr>))"
    using assms by simp
  from onSessionLeft_agrees [OF this, of s] show ?thesis using LeavesViewer by (simp only: relay_login_step.simps release_session_def Let_def)
qed (use assms handleLoginFrame_agrees in
    \<open>simp_all add: bind_session_def Let_def replay_owner sendLoginResponseIfAuth_def viewerLock_def onUpstreamDisconnected_def\<close>)

lemma relay_login_run_agrees:
  "login_agrees ow (lu_login u) \<Longrightarrow> run (relay_login_step unm mar pre) evs u = (outs, u') \<Longrightarrow>
     login_agrees (owner_of (concat outs) ow) (lu_login u')"
proof (induction evs arbitrary: ow u outs)
  case (Cons e evs)
  obtain es u1 where s: "relay_login_step unm mar pre e u = (es, u1)" by (rule prod.exhaust)
  obtain outs1 where r: "run (relay_login_step unm mar pre) evs u1 = (outs1, u')" "outs = es # outs1"
    using Cons.prems(2) s by (cases "run (relay_login_step unm mar pre) evs u1") auto
  have "login_agrees (owner_of es ow) (lu_login u1)" using relay_login_agrees [OF Cons.prems(1), of unm mar pre e] s by simp
  from Cons.IH [OF this r(1)] show ?case by (simp add: r(2))
qed simp

text \<open>In a history, frames start only for the session whose exchange the host accepted.\<close>

fun starts_ok :: "login_owner \<Rightarrow> login_effect list \<Rightarrow> bool" where
  "starts_ok ow [] = True"
| "starts_ok ow (e # es) =
     ((case e of
         StartsFrames sid \<Rightarrow> (case ow of LoggedIn (Some s) osu \<Rightarrow> ls_id s = sid | _ \<Rightarrow> False)
       | _ \<Rightarrow> True)
      \<and> starts_ok (owner_after e ow) es)"

lemma starts_ok_append: "starts_ok ow (es @ es') \<longleftrightarrow> starts_ok ow es \<and> starts_ok (owner_of es ow) es'"
  by (induction es arbitrary: ow) auto

text \<open>The effects of every handler but the one for an accepted login start no frames.\<close>

lemma starts_ok_none: "list_all (\<lambda>e. case e of StartsFrames sid \<Rightarrow> False | _ \<Rightarrow> True) es \<Longrightarrow> starts_ok ow es"
  by (induction es arbitrary: ow) (auto split: login_effect.splits)

lemma on_ok_starts:
  assumes "login_agrees ow (lu_login u)"
  shows "starts_ok ow (fst (on_ok f data u))"
proof (cases "li_auth (lu_login u)")
  case None
  then show ?thesis by (intro starts_ok_none) (simp add: on_ok_def Let_def)
next
  case (Some s)
  then have "ow = Exchanging s" using assms by (auto simp: login_agrees_def no_login_def split: login_owner.splits)
  then show ?thesis using Some by (simp add: on_ok_def Let_def)
qed

lemma handleLoginFrame_starts:
  assumes "login_agrees ow (lu_login u)"
  shows "starts_ok ow (fst (handleLoginFrame unm pre data u))"
proof (cases "unm data")
  case (Some f)
  have "starts_ok ow (fst (on_prompt pre f data (u\<lparr>lu_spoken := True\<rparr>)))"
    by (intro starts_ok_none) (simp add: on_prompt_def promote_def split: option.split)
  moreover have "starts_ok ow (fst (on_ok f data (u\<lparr>lu_spoken := True\<rparr>)))" using assms by (intro on_ok_starts) simp
  moreover have "starts_ok ow (on_failed f data (u\<lparr>lu_spoken := True\<rparr>))"
    by (intro starts_ok_none) (simp add: on_failed_def Let_def split: option.split)
  moreover have "starts_ok ow (fst (on_busy f data (u\<lparr>lu_spoken := True\<rparr>)))"
    by (intro starts_ok_none) (simp add: on_busy_def Let_def split: option.split)
  ultimately show ?thesis using Some by (simp add: handleLoginFrame_def Let_def)
qed (simp add: handleLoginFrame_def)

lemma relay_login_starts:
  assumes "login_agrees ow (lu_login u)"
  shows "starts_ok ow (fst (relay_login_step unm mar pre e u))"
proof (cases e)
  case (HostFrame data)
  then show ?thesis using handleLoginFrame_starts [OF assms] by simp
next
  case (GatesViewer s)
  then show ?thesis by (simp add: gateViewer_def split: login_state.split)
next
  case (BindsViewer s role)
  have "starts_ok ow (replayPrompt mar pre s (u\<lparr>lu_current := Some s\<rparr>))"
    by (intro starts_ok_none) (simp add: replayPrompt_def split: option.split)
  then show ?thesis using BindsViewer by (simp add: bind_session_def Let_def)
next
  case (LeavesViewer s)
  have "starts_ok ow (fst (onSessionLeft s u'))" for u' by (simp add: onSessionLeft_def split: login_state.split)
  then show ?thesis using LeavesViewer by (simp add: release_session_def Let_def)
next
  case HostLost
  have "starts_ok ow (map (\<lambda>v. EndsSession (ls_id v) r) vs)" for ow r vs by (intro starts_ok_none) (simp add: list_all_iff)
  then show ?thesis using HostLost by (simp add: onUpstreamDisconnected_def)
qed (simp_all add: sendLoginResponseIfAuth_def viewerLock_def)

lemma relay_login_run_starts:
  "login_agrees ow (lu_login u) \<Longrightarrow> starts_ok ow (concat (fst (run (relay_login_step unm mar pre) evs u)))"
proof (induction evs arbitrary: ow u)
  case (Cons e evs)
  obtain es u1 where s: "relay_login_step unm mar pre e u = (es, u1)" by (rule prod.exhaust)
  have "login_agrees (owner_of es ow) (lu_login u1)" using relay_login_agrees [OF Cons.prems, of unm mar pre e] s by simp
  from Cons.IH [OF this] relay_login_starts [OF Cons.prems, of unm mar pre e] s show ?case
    by (simp add: starts_ok_append split_beta)
qed simp


end
