(* ===== verification/Relay_Ticket.thy ===== *)
theory Relay_Ticket
  imports Relay_Proto "HOL-Library.AList" "HOL-Library.Sublist"
begin

text \<open>
  Tickets of the relay: the signed tickets of direct connections (\<open>flux-web/ticket.go\<close>) and the one-time tickets of relayed
  ones (\<open>issueTicket\<close> and \<open>consumeTicket\<close> of \<open>flux-web/auth.go\<close>).  The signature scheme and the JSON of a payload are
  parameters; base64 is modelled.  Times are nanoseconds.  The clock of a verification is read before
  the lock of the verifier is taken, so a verification is two steps: a check and, under the lock, a commit.
\<close>

section \<open>Base64 without padding\<close>

text \<open>\<open>RawURLEncoding\<close>: bytes to groups of six bits and back.  The decoder skips line ends and ignores the unused bits of the
  last group.\<close>

definition b64_alphabet :: string where
  "b64_alphabet = ''ABCDEFGHIJKLMNOPQRSTUVWXYZabcdefghijklmnopqrstuvwxyz0123456789-_''"

fun sextets :: "nat list \<Rightarrow> nat list" where
  "sextets [] = []"
| "sextets [a] = [a div 4, a mod 4 * 16]"
| "sextets [a, b] = [a div 4, a mod 4 * 16 + b div 16, b mod 16 * 4]"
| "sextets (a # b # c # bs) = [a div 4, a mod 4 * 16 + b div 16, b mod 16 * 4 + c div 64, c mod 64] @ sextets bs"

fun from_sextets :: "nat list \<Rightarrow> nat list option" where
  "from_sextets [] = Some []"
| "from_sextets [p] = None"
| "from_sextets [p, q] = Some [p * 4 + q div 16]"
| "from_sextets [p, q, r] = Some [p * 4 + q div 16, q mod 16 * 16 + r div 4]"
| "from_sextets (p # q # r # s # ss) =
     map_option (\<lambda>bs. [p * 4 + q div 16, q mod 16 * 16 + r div 4, r mod 4 * 64 + s] @ bs) (from_sextets ss)"

definition b64_char :: "nat \<Rightarrow> char" where
  "b64_char n = b64_alphabet ! n"

definition b64_value :: "char \<Rightarrow> nat option" where
  "b64_value c = map_of (zip b64_alphabet [0..<64]) c"

definition EncodeToString :: "byte list \<Rightarrow> string" where
  "EncodeToString bs = map b64_char (sextets (map unat bs))"

definition DecodeString :: "string \<Rightarrow> byte list option" where
  "DecodeString s =
     (let cs = filter (\<lambda>c. c \<noteq> CHR 0x0A \<and> c \<noteq> CHR 0x0D) s in
      if list_all (\<lambda>c. b64_value c \<noteq> None) cs
      then map_option (map word_of_nat) (from_sextets (map (\<lambda>c. the (b64_value c)) cs))
      else None)"

lemma from_sextets_sextets: "list_all (\<lambda>a. a < 256) as \<Longrightarrow> from_sextets (sextets as) = Some as"
proof (induction as rule: sextets.induct)
  case (4 a b c bs)
  have "c div 64 < 4" "b div 16 < 16" using "4.prems" by auto
  then have "(b mod 16 * 4 + c div 64) div 4 = b mod 16" "(b mod 16 * 4 + c div 64) mod 4 = c div 64"
    "(a mod 4 * 16 + b div 16) div 16 = a mod 4" "(a mod 4 * 16 + b div 16) mod 16 = b div 16"
    by simp_all
  then show ?case using 4 by simp
qed auto

lemma sextets_bound: "list_all (\<lambda>a. a < 256) as \<Longrightarrow> list_all (\<lambda>n. n < 64) (sextets as)"
  by (induction as rule: sextets.induct) auto

lemma bytes_bound: "list_all (\<lambda>a. a < 256) (map unat (bs :: byte list))"
  by (simp add: list_all_iff byte_lt_256)

lemma b64_alphabet_length: "length b64_alphabet = 64" "distinct b64_alphabet"
  by (simp_all add: b64_alphabet_def)

lemma b64_value_char: "n < 64 \<Longrightarrow> b64_value (b64_char n) = Some n"
proof -
  assume n: "n < 64"
  have "(b64_alphabet ! n, [0..<64] ! n) \<in> set (zip b64_alphabet [0..<64])"
    using n b64_alphabet_length(1) by (auto simp: in_set_zip)
  then have "(b64_alphabet ! n, n) \<in> set (zip b64_alphabet [0..<64])" using n by simp
  then show ?thesis
    unfolding b64_value_def b64_char_def
    using b64_alphabet_length by (intro map_of_is_SomeI) simp_all
qed

lemma alphabet_plain: "c \<in> set b64_alphabet \<Longrightarrow> c \<noteq> CHR 0x0A \<and> c \<noteq> CHR 0x0D \<and> c \<noteq> CHR ''.''"
  by (auto simp: b64_alphabet_def)

lemma encoded_plain: "c \<in> set (EncodeToString bs) \<Longrightarrow> c \<noteq> CHR 0x0A \<and> c \<noteq> CHR 0x0D \<and> c \<noteq> CHR ''.''"
proof -
  assume "c \<in> set (EncodeToString bs)"
  then obtain n where n: "n \<in> set (sextets (map unat bs))" "c = b64_char n" by (auto simp: EncodeToString_def)
  from sextets_bound [OF bytes_bound] n have "c \<in> set b64_alphabet" by (auto simp: list_all_iff b64_char_def b64_alphabet_length)
  then show ?thesis by (rule alphabet_plain)
qed

text \<open>Decoding takes back encoding.\<close>

lemma decode_encode: "DecodeString (EncodeToString bs) = Some bs"
proof -
  note lt = bytes_bound [of bs]
  have "filter (\<lambda>c. c \<noteq> CHR 0x0A \<and> c \<noteq> CHR 0x0D) (EncodeToString bs) = EncodeToString bs"
    using encoded_plain by (auto simp: filter_id_conv)
  moreover have "b64_value (b64_char n) = Some n" if "n \<in> set (sextets (map unat bs))" for n
    using sextets_bound [OF lt] that b64_value_char by (auto simp: list_all_iff)
  then have "map (\<lambda>c. the (b64_value c)) (EncodeToString bs) = sextets (map unat bs)"
    "list_all (\<lambda>c. b64_value c \<noteq> None) (EncodeToString bs)"
    by (auto simp: EncodeToString_def list_all_iff map_idI)
  ultimately show ?thesis
    using from_sextets_sextets [OF lt] by (simp add: DecodeString_def comp_def)
qed

section \<open>Signed tickets\<close>

definition ticketNonceSize :: nat where "ticketNonceSize = 16"
definition ticketClockSkew :: int where "ticketClockSkew = 5 * int SECOND"
definition wtTicketTTL :: int where "wtTicketTTL = 60 * int SECOND"
definition defaultClipboardMaxBytes :: int where "defaultClipboardMaxBytes = 2 ^ 20"

record ticket_user =
  tu_sub :: string
  tu_username :: string
  tu_email :: string
  tu_name :: string
  tu_admin :: bool

record ticket_policy =
  tp_mode :: string
  tp_max_bytes :: int
  tp_capture :: bool

record ticket_payload =
  pl_version :: int
  pl_machine :: string
  pl_sub :: string
  pl_username :: string
  pl_email :: string
  pl_name :: string
  pl_admin :: bool
  pl_clipboard :: string
  pl_capture :: bool
  pl_max_bytes :: int
  pl_path :: string
  pl_expires :: int
  pl_nonce :: string

record ticket_identity =
  ti_sub :: string
  ti_username :: string
  ti_email :: string
  ti_name :: string
  ti_admin :: bool
  ti_clipboard :: string
  ti_capture :: bool
  ti_max_bytes :: int
  ti_path :: string
  ti_expires :: int

datatype ticket_error =
    TicketMalformed | MalformedPayload | MalformedSignature | InvalidSignature | UnsupportedVersion | NotDirect | WrongMachine
  | NoSubject | InvalidNonce | TicketExpired | AlreadyUsed

definition ticketClipboardPolicy :: "string \<Rightarrow> string" where
  "ticketClipboardPolicy mode =
     (if mode \<in> {''both'', ''off'', ''host_to_client'', ''client_to_host''} then mode else ''off'')"

text \<open>The nonce is random; \<open>time.Unix\<close> truncates to seconds.\<close>

definition ticket_payload_for :: "ticket_user \<Rightarrow> string \<Rightarrow> ticket_policy \<Rightarrow> string \<Rightarrow> int \<Rightarrow> byte list \<Rightarrow> ticket_payload" where
  "ticket_payload_for user machine policy path now nonce =
     \<lparr>pl_version = 1, pl_machine = machine, pl_sub = tu_sub user, pl_username = tu_username user, pl_email = tu_email user,
      pl_name = tu_name user, pl_admin = tu_admin user, pl_clipboard = tp_mode policy, pl_capture = tp_capture policy,
      pl_max_bytes = tp_max_bytes policy, pl_path = path, pl_expires = (now + wtTicketTTL) div int SECOND,
      pl_nonce = EncodeToString nonce\<rparr>"

definition sign_ticket ::
  "(ticket_payload \<Rightarrow> byte list) \<Rightarrow> (byte list \<Rightarrow> byte list) \<Rightarrow> ticket_user \<Rightarrow> string \<Rightarrow> ticket_policy \<Rightarrow> string \<Rightarrow> int \<Rightarrow> byte list \<Rightarrow> string option" where
  "sign_ticket marshal mldsa_sign user machine policy path now nonce =
     (if machine = [] then None
      else let encoded = marshal (ticket_payload_for user machine policy path now nonce)
           in Some (EncodeToString encoded @ ''.'' @ EncodeToString (mldsa_sign encoded)))"

text \<open>\<open>strings.Split\<close> at dots.\<close>

fun split_dots :: "string \<Rightarrow> string \<Rightarrow> string list" where
  "split_dots acc [] = [acc]"
| "split_dots acc (c # cs) = (if c = CHR ''.'' then acc # split_dots [] cs else split_dots (acc @ [c]) cs)"

definition expires_at :: "ticket_payload \<Rightarrow> int" where
  "expires_at p = pl_expires p * int SECOND"

text \<open>The part of \<open>verify\<close> before the lock; the nonce of the payload is decoded.\<close>

definition ticket_check ::
  "(byte list \<Rightarrow> ticket_payload option) \<Rightarrow> (byte list \<Rightarrow> byte list \<Rightarrow> bool) \<Rightarrow> int \<Rightarrow> string \<Rightarrow> string \<Rightarrow> ticket_error + (ticket_payload \<times> byte list)" where
  "ticket_check unmarshal mldsa_verify now ticket machine =
     (case split_dots [] ticket of
        [a, b] \<Rightarrow>
          if a = [] \<or> b = [] then Err TicketMalformed
          else (case DecodeString a of
                  None \<Rightarrow> Err MalformedPayload
                | Some bytes \<Rightarrow>
                    (case DecodeString b of
                       None \<Rightarrow> Err MalformedSignature
                     | Some sig \<Rightarrow>
                         if \<not> mldsa_verify bytes sig then Err InvalidSignature
                         else (case unmarshal bytes of
                                 None \<Rightarrow> Err MalformedPayload
                               | Some p \<Rightarrow>
                                   if pl_version p \<noteq> 1 then Err UnsupportedVersion
                                   else if pl_path p \<noteq> ''direct'' \<and> pl_path p \<noteq> ''probe'' then Err NotDirect
                                   else if pl_machine p = [] \<or> pl_machine p \<noteq> machine then Err WrongMachine
                                   else if pl_sub p = [] then Err NoSubject
                                   else (case DecodeString (pl_nonce p) of
                                           None \<Rightarrow> Err InvalidNonce
                                         | Some nonce \<Rightarrow>
                                             if length nonce \<noteq> ticketNonceSize then Err InvalidNonce
                                             else if now > expires_at p + ticketClockSkew then Err TicketExpired
                                             else Ok (p, nonce)))))
      | _ \<Rightarrow> Err TicketMalformed)"

definition ticket_identity_of :: "ticket_payload \<Rightarrow> ticket_identity" where
  "ticket_identity_of p =
     \<lparr>ti_sub = pl_sub p, ti_username = pl_username p, ti_email = pl_email p, ti_name = pl_name p, ti_admin = pl_admin p,
      ti_clipboard = ticketClipboardPolicy (pl_clipboard p), ti_capture = pl_capture p,
      ti_max_bytes = (if pl_max_bytes p \<le> 0 then defaultClipboardMaxBytes else pl_max_bytes p),
      ti_path = pl_path p, ti_expires = expires_at p\<rparr>"

type_synonym nonces = "(byte list \<times> int) list"

text \<open>The part under the lock, with the time read before it.\<close>

definition prune_nonces :: "int \<Rightarrow> nonces \<Rightarrow> nonces" where
  "prune_nonces now ns = filter (\<lambda>(k, expiry). \<not> now > expiry + ticketClockSkew) ns"

definition ticket_commit :: "int \<Rightarrow> ticket_payload \<times> byte list \<Rightarrow> nonces \<Rightarrow> (ticket_error + ticket_payload) \<times> nonces" where
  "ticket_commit now = (\<lambda>(p, nonce) ns.
     let ns = prune_nonces now ns in
     if map_of ns nonce \<noteq> None then (Err AlreadyUsed, ns)
     else (Ok p, AList.update nonce (expires_at p) ns))"

definition verify_ticket ::
  "(byte list \<Rightarrow> ticket_payload option) \<Rightarrow> (byte list \<Rightarrow> byte list \<Rightarrow> bool) \<Rightarrow> int \<times> string \<times> string \<Rightarrow> nonces
     \<Rightarrow> (ticket_error + ticket_payload) \<times> nonces" where
  "verify_ticket unmarshal mldsa_verify = (\<lambda>(now, ticket, machine) ns.
     case ticket_check unmarshal mldsa_verify now ticket machine of
       Inl e \<Rightarrow> (Err e, ns)
     | Inr pn \<Rightarrow> ticket_commit now pn ns)"

text \<open>\<open>ticketPathFromPayload\<close>, which the relay uses to refuse direct tickets.\<close>

definition ticketPathFromPayload :: "(byte list \<Rightarrow> string option) \<Rightarrow> string \<Rightarrow> string" where
  "ticketPathFromPayload path_json ticket =
     (case split_dots [] ticket of
        [a, b] \<Rightarrow>
          (case DecodeString a of
             None \<Rightarrow> []
           | Some bytes \<Rightarrow> (case path_json bytes of None \<Rightarrow> [] | Some path \<Rightarrow> path))
      | _ \<Rightarrow> [])"

section \<open>Tickets of relayed connections\<close>

text \<open>The user and the expiry of each outstanding ticket.  A new ticket is a random token.\<close>

type_synonym wt_tickets = "(string \<times> ticket_user \<times> int) list"

definition issueTicket :: "int \<Rightarrow> string \<Rightarrow> ticket_user \<Rightarrow> wt_tickets \<Rightarrow> wt_tickets" where
  "issueTicket now token user ts =
     AList.update token (user, now + wtTicketTTL) (filter (\<lambda>(k, u, expiry). \<not> now > expiry) ts)"

definition consumeTicket :: "int \<Rightarrow> string \<Rightarrow> wt_tickets \<Rightarrow> ticket_user option \<times> wt_tickets" where
  "consumeTicket now token ts =
     (case map_of ts token of
        None \<Rightarrow> (None, ts)
      | Some (user, expiry) \<Rightarrow> (if now > expiry then None else Some user, AList.delete token ts))"

text \<open>A path to return to after a login.\<close>

definition sanitizeNext :: "string \<Rightarrow> string" where
  "sanitizeNext nxt = (if nxt = [] \<or> \<not> prefix ''/'' nxt \<or> prefix ''//'' nxt then ''/'' else nxt)"

section \<open>A signed ticket is accepted\<close>

lemma split_dots_plain: "CHR ''.'' \<notin> set s \<Longrightarrow> split_dots acc (s @ r) = split_dots (acc @ s) r"
  by (induction s arbitrary: acc) auto

lemma encode_nonempty: "bs \<noteq> [] \<Longrightarrow> EncodeToString bs \<noteq> []"
proof -
  assume "bs \<noteq> []"
  then obtain b bs' where "map unat bs = b # bs'" by (cases bs) auto
  then show ?thesis by (cases bs' rule: sextets.cases) (auto simp: EncodeToString_def)
qed

lemma split_signed:
  "split_dots [] (EncodeToString a @ CHR ''.'' # EncodeToString b) = [EncodeToString a, EncodeToString b]"
proof -
  have "CHR ''.'' \<notin> set (EncodeToString a)" "CHR ''.'' \<notin> set (EncodeToString b)"
    using encoded_plain [of "CHR ''.''"] by auto
  then show ?thesis
    using split_dots_plain [of "EncodeToString a" "[]" "''.'' @ EncodeToString b"] split_dots_plain [of "EncodeToString b" "[]" "[]"] by simp
qed

theorem signed_ticket_accepted:
  assumes "\<And>p. unmarshal (marshal p) = Some p" "\<And>bytes. mldsa_verify bytes (mldsa_sign bytes)"
    and "\<And>p. marshal p \<noteq> []" "\<And>bytes. mldsa_sign bytes \<noteq> []"
    and "path = ''direct'' \<or> path = ''probe''" "tu_sub user \<noteq> []" "length nonce = ticketNonceSize"
    and "sign_ticket marshal mldsa_sign user machine policy path now nonce = Some ticket"
    and "now' \<le> now + wtTicketTTL" "map_of ns nonce = None"
  shows "fst (verify_ticket unmarshal mldsa_verify (now', ticket, machine) ns) = Ok (ticket_payload_for user machine policy path now nonce)"
proof -
  let ?p = "ticket_payload_for user machine policy path now nonce"
  have m: "machine \<noteq> []" and t: "ticket = EncodeToString (marshal ?p) @ ''.'' @ EncodeToString (mldsa_sign (marshal ?p))"
    using assms(8) by (auto simp: sign_ticket_def Let_def split: if_splits)
  have "now + wtTicketTTL < ((now + wtTicketTTL) div int SECOND + 1) * int SECOND"
    using div_mult_mod_eq [of "now + wtTicketTTL" "int SECOND"] pos_mod_bound [of "int SECOND" "now + wtTicketTTL"]
    by (simp add: SECOND_def algebra_simps)
  then have late: "\<not> now' > expires_at ?p + ticketClockSkew"
    using assms(9) by (simp add: expires_at_def ticket_payload_for_def ticketClockSkew_def algebra_simps)
  have "ticket_check unmarshal mldsa_verify now' ticket machine = Ok (?p, nonce)"
    unfolding t using assms(1-7) m late
    by (auto simp: ticket_check_def split_signed encode_nonempty decode_encode ticket_payload_for_def)
  moreover have "map_of (prune_nonces now' ns) nonce = None"
    using assms(10) by (auto simp: prune_nonces_def map_of_eq_None_iff)
  ultimately show ?thesis by (simp add: verify_ticket_def ticket_commit_def Let_def)
qed

section \<open>Single use\<close>

lemma prune_lookup:
  "distinct (map fst ns) \<Longrightarrow> map_of (prune_nonces now ns) k = Some e \<longleftrightarrow> map_of ns k = Some e \<and> now \<le> e + ticketClockSkew"
  by (auto simp: prune_nonces_def distinct_map_filter not_less)

lemma distinct_prune: "distinct (map fst ns) \<Longrightarrow> distinct (map fst (prune_nonces now ns))"
  by (simp add: prune_nonces_def distinct_map_filter)

text \<open>The nonces of the tickets accepted so far that may still be presented, at the time of the last verification.\<close>

definition nonces_cover :: "int \<Rightarrow> (ticket_payload \<times> byte list) set \<Rightarrow> nonces \<Rightarrow> bool" where
  "nonces_cover t A ns \<longleftrightarrow> distinct (map fst ns)
     \<and> (\<forall>(p, n)\<in>A. t \<le> expires_at p + ticketClockSkew \<longrightarrow> map_of ns n = Some (expires_at p))"

lemma commit_cover:
  assumes "nonces_cover t A ns" "t \<le> now" "ticket_commit now (p, n) ns = (res, ns')"
  shows "nonces_cover now (case res of Inl _ \<Rightarrow> A | Inr _ \<Rightarrow> insert (p, n) A) ns'"
proof -
  have d: "distinct (map fst (prune_nonces now ns))" using assms(1) distinct_prune by (auto simp: nonces_cover_def)
  have kept: "map_of (prune_nonces now ns) n' = Some (expires_at p')"
    if "(p', n') \<in> A" "now \<le> expires_at p' + ticketClockSkew" for p' n'
    using assms(1,2) that by (fastforce simp: nonces_cover_def prune_lookup)
  show ?thesis
  proof (cases "map_of (prune_nonces now ns) n")
    case None
    then have "res = Ok p" "ns' = AList.update n (expires_at p) (prune_nonces now ns)"
      using assms(3) by (auto simp: ticket_commit_def Let_def)
    moreover have "n' \<noteq> n" if "(p', n') \<in> A" "now \<le> expires_at p' + ticketClockSkew" for p' n'
      using kept [OF that] None by auto
    ultimately show ?thesis using d kept by (auto simp: nonces_cover_def AList.distinct_update AList.update_conv')
  next
    case (Some e)
    then show ?thesis using assms(3) d kept by (auto simp: ticket_commit_def Let_def nonces_cover_def)
  qed
qed

lemma commit_refuses:
  assumes "nonces_cover t A ns" "t \<le> now" "(p, n) \<in> A" "now \<le> expires_at p + ticketClockSkew"
  shows "fst (ticket_commit now (p, n) ns) = Err AlreadyUsed"
proof -
  have "map_of ns n = Some (expires_at p)" using assms by (fastforce simp: nonces_cover_def)
  then have "map_of (prune_nonces now ns) n = Some (expires_at p)"
    using assms(1,4) by (simp add: prune_lookup nonces_cover_def)
  then show ?thesis by (simp add: ticket_commit_def Let_def)
qed

lemma check_facts:
  "ticket_check unmarshal mldsa_verify now ticket machine = Ok (p, n) \<Longrightarrow>
     DecodeString (pl_nonce p) = Some n \<and> now \<le> expires_at p + ticketClockSkew \<and> pl_machine p = machine \<and> pl_sub p \<noteq> []
       \<and> (pl_path p = ''direct'' \<or> pl_path p = ''probe'')
       \<and> (\<exists>bytes sig. mldsa_verify bytes sig \<and> unmarshal bytes = Some p)"
  by (auto simp: ticket_check_def split: list.splits if_splits option.splits)

definition oks :: "(ticket_error + ticket_payload) list \<Rightarrow> ticket_payload list" where
  "oks outs = List.map_filter (\<lambda>out. case out of Inr p \<Rightarrow> Some p | Inl _ \<Rightarrow> None) outs"

definition with_nonce :: "ticket_payload \<Rightarrow> ticket_payload \<times> byte list" where
  "with_nonce p = (p, the (DecodeString (pl_nonce p)))"

text \<open>What is accepted is new, was signed, is meant for the machine and in time.\<close>

lemma verify_run:
  assumes "nonces_cover t (with_nonce ` A) ns" "sorted (t # map fst reqs)"
  shows "distinct (oks (fst (run (verify_ticket unmarshal mldsa_verify) reqs ns)))
    \<and> set (oks (fst (run (verify_ticket unmarshal mldsa_verify) reqs ns))) \<inter> A = {}"
  using assms
proof (induction reqs arbitrary: t A ns)
  case Nil
  then show ?case by (simp add: oks_def map_filter_def)
next
  case (Cons q reqs)
  obtain now ticket machine where q: "q = (now, ticket, machine)" by (cases q)
  have le: "t \<le> now" "sorted (now # map fst reqs)" using Cons.prems(2) q by auto
  obtain res ns' where v: "verify_ticket unmarshal mldsa_verify q ns = (res, ns')" by (rule prod.exhaust)
  have outs: "oks (fst (run (verify_ticket unmarshal mldsa_verify) (q # reqs) ns))
      = (case res of Inl _ \<Rightarrow> [] | Inr p \<Rightarrow> [p]) @ oks (fst (run (verify_ticket unmarshal mldsa_verify) reqs ns'))"
    using v by (simp add: oks_def map_filter_def split_beta split: sum.split)
  show ?case
  proof (cases "ticket_check unmarshal mldsa_verify now ticket machine")
    case (Inl e)
    then have "res = Err e" "ns' = ns" using v q by (simp_all add: verify_ticket_def)
    moreover have "nonces_cover now (with_nonce ` A) ns"
      using Cons.prems(1) le(1) by (fastforce simp: nonces_cover_def)
    ultimately show ?thesis using Cons.IH [of now A ns] le(2) outs by simp
  next
    case (Inr pn)
    obtain p n where pn: "pn = (p, n)" by (cases pn)
    have c: "ticket_commit now (p, n) ns = (res, ns')" using v q Inr pn by (simp add: verify_ticket_def)
    note f = check_facts [OF Inr [unfolded pn]]
    then have wn: "with_nonce p = (p, n)" and live: "now \<le> expires_at p + ticketClockSkew" by (simp_all add: with_nonce_def)
    note cov = commit_cover [OF Cons.prems(1) le(1) c]
    show ?thesis
    proof (cases res)
      case (Inl e)
      then show ?thesis using cov Cons.IH [of now A ns'] le(2) outs by simp
    next
      case (Inr p')
      then have "p' = p" using c by (auto simp: ticket_commit_def Let_def split: if_splits)
      moreover have "p \<notin> A"
        using commit_refuses [OF Cons.prems(1) le(1) _ live] c Inr wn by (metis Inl_Inr_False fst_conv image_eqI)
      moreover have "nonces_cover now (with_nonce ` insert p A) ns'" using cov Inr wn by simp
      from Cons.IH [OF this le(2)] have "distinct (oks (fst (run (verify_ticket unmarshal mldsa_verify) reqs ns')))"
        "set (oks (fst (run (verify_ticket unmarshal mldsa_verify) reqs ns'))) \<inter> insert p A = {}" by simp_all
      ultimately show ?thesis using outs Inr by auto
    qed
  qed
qed

text \<open>C39: A direct ticket is accepted at most once by verifications one after the other: over any requests at times that
  do not go back, no payload is accepted twice.  Concurrent verifications break this: one that read the clock in time but
  commits after another verification has pruned the nonce accepts a ticket that was used.  A one-time ticket
  of the relay is redeemed at most once.\<close>

theorem tickets_single_use:
  assumes "sorted (map fst reqs)"
    and "ticket_check unmarshal mldsa_verify t1 ticket machine = Ok (p, n)" "ticket_check unmarshal mldsa_verify t2 ticket' machine = Ok (q, m)"
    and "n \<noteq> m" "expires_at p + ticketClockSkew < t2"
  shows "distinct (oks (fst (run (verify_ticket unmarshal mldsa_verify) reqs [])))
    \<and> fst (run (\<lambda>(now, pn). ticket_commit now pn) [(t1, p, n), (t2, q, m), (t1, p, n)] []) = [Ok p, Ok q, Ok p]
    \<and> fst (consumeTicket t token (snd (consumeTicket t' token ts))) = None"
proof (intro conjI)
  show "distinct (oks (fst (run (verify_ticket unmarshal mldsa_verify) reqs [])))"
  proof (cases reqs)
    case (Cons r rs)
    then have "sorted (fst r # map fst reqs)" using assms(1) by auto
    from verify_run [OF _ this, of "{}" "[]"] show ?thesis by (simp add: nonces_cover_def)
  qed (simp add: oks_def map_filter_def)
  have live: "t1 \<le> expires_at p + ticketClockSkew" "t2 \<le> expires_at q + ticketClockSkew"
    using check_facts [OF assms(2)] check_facts [OF assms(3)] by auto
  then have "t1 \<le> expires_at q + ticketClockSkew" using assms(5) by linarith
  then show "fst (run (\<lambda>(now, pn). ticket_commit now pn) [(t1, p, n), (t2, q, m), (t1, p, n)] []) = [Ok p, Ok q, Ok p]"
    using assms(4,5) live by (auto simp: ticket_commit_def Let_def prune_nonces_def)
  show "fst (consumeTicket t token (snd (consumeTicket t' token ts))) = None"
    by (auto simp: consumeTicket_def AList.delete_conv' split: option.split prod.split)
qed

definition sample_payload :: "int \<Rightarrow> byte \<Rightarrow> ticket_payload" where
  "sample_payload now b = ticket_payload_for \<lparr>tu_sub = ''u'', tu_username = ''u'', tu_email = [], tu_name = [], tu_admin = False\<rparr>
     ''m'' \<lparr>tp_mode = ''both'', tp_max_bytes = 1, tp_capture = True\<rparr> ''direct'' now (replicate 16 b)"

definition sample_json :: "byte list \<Rightarrow> ticket_payload option" where
  "sample_json bs = (if bs = [1] then Some (sample_payload 0 1) else if bs = [2] then Some (sample_payload (30 * int SECOND) 2) else None)"

definition sample_ticket :: "byte \<Rightarrow> string" where
  "sample_ticket b = EncodeToString [b] @ CHR ''.'' # EncodeToString [9]"

lemma sample_payload_fields:
  "pl_version (sample_payload t b) = 1" "pl_path (sample_payload t b) = ''direct''" "pl_machine (sample_payload t b) = ''m''"
  "pl_sub (sample_payload t b) = ''u''" "DecodeString (pl_nonce (sample_payload t b)) = Some (replicate 16 b)"
  by (simp_all add: sample_payload_def ticket_payload_for_def decode_encode)

theorem tickets_single_use_witness:
  "fst (run (verify_ticket sample_json (\<lambda>_ _. True)) [(0, sample_ticket 1, ''m''), (60 * int SECOND, sample_ticket 1, ''m'')] [])
     = [Ok (sample_payload 0 1), Err AlreadyUsed]
   \<and> fst (run (\<lambda>(now, pn). ticket_commit now pn)
       [(60 * int SECOND, sample_payload 0 1, replicate 16 1), (70 * int SECOND, sample_payload (30 * int SECOND) 2, replicate 16 2),
        (60 * int SECOND, sample_payload 0 1, replicate 16 1)] [])
     = [Ok (sample_payload 0 1), Ok (sample_payload (30 * int SECOND) 2), Ok (sample_payload 0 1)]"
proof -
  have "(60 * int SECOND) div int SECOND = 60" "(90 * int SECOND) div int SECOND = 90" by (simp_all add: SECOND_def)
  then have e: "expires_at (sample_payload 0 1) = 60 * int SECOND" "expires_at (sample_payload (30 * int SECOND) 2) = 90 * int SECOND"
    by (simp_all add: sample_payload_def ticket_payload_for_def expires_at_def wtTicketTTL_def)
  have c: "ticket_check sample_json (\<lambda>_ _. True) t (sample_ticket 1) ''m'' = Ok (sample_payload 0 1, replicate 16 1)" if "t \<le> 65 * int SECOND" for t
    using that e unfolding sample_ticket_def ticket_check_def split_signed
    by (simp add: encode_nonempty decode_encode sample_json_def ticketClockSkew_def sample_payload_fields ticketNonceSize_def)
  have c2: "ticket_check sample_json (\<lambda>_ _. True) (70 * int SECOND) (sample_ticket 2) ''m'' = Ok (sample_payload (30 * int SECOND) 2, replicate 16 2)"
    using e unfolding sample_ticket_def ticket_check_def split_signed
    by (simp add: encode_nonempty decode_encode sample_json_def ticketClockSkew_def sample_payload_fields ticketNonceSize_def)
  have "sorted (map fst [(0 :: int, sample_ticket 1, ''m''), (60 * int SECOND, sample_ticket 1, ''m'')])" by (simp add: SECOND_def)
  from tickets_single_use [OF this c c2, of "60 * int SECOND" 0 "''x''" 0 "[]"] e c
  show ?thesis
    by (simp add: verify_ticket_def ticket_commit_def prune_nonces_def Let_def ticketClockSkew_def SECOND_def oks_def map_filter_def)
qed

end
