(* ===== verification/Relay_Clipboard.thy ===== *)
theory Relay_Clipboard
  imports Relay_Proto
begin

text \<open>
  The clipboard path of the relay (\<open>flux-web/clipboard.go\<close>) and the policies it enforces (\<open>flux-web/store.go\<close>).  A handler
  returns what it does, in order, as a list of effects.  The policy table is a map; a query that fails is an
  outcome of its own.  The JSON of a clipboard message is a parameter; the validity of UTF-8 is modelled.
\<close>

section \<open>Policies\<close>

datatype clip_dir = HostToClient | ClientToHost
datatype clip_result = ClipOK | ClipBlocked | ClipTooLarge | ClipInvalid

record clip_policy =
  cp_mode :: string
  cp_max_bytes :: int
  cp_capture :: bool
  cp_path :: string
  cp_updated_by :: string

definition defaultMachinePolicy :: clip_policy where
  "defaultMachinePolicy =
     \<lparr>cp_mode = ''both'', cp_max_bytes = 2 ^ 20, cp_capture = True, cp_path = ''auto'', cp_updated_by = []\<rparr>"

definition allows :: "clip_policy \<Rightarrow> clip_dir \<Rightarrow> bool" where
  "allows p dir =
     (if cp_mode p = ''both'' then True
      else if cp_mode p = ''off'' then False
      else if cp_mode p = ''host_to_client'' then dir = HostToClient
      else if cp_mode p = ''client_to_host'' then dir = ClientToHost
      else False)"

datatype policy_error = InvalidClipMode | InvalidPath | InvalidMaxBytes

type_synonym policy_table = "string \<rightharpoonup> clip_policy"

definition putPolicy :: "string \<Rightarrow> clip_policy \<Rightarrow> string \<Rightarrow> policy_table \<Rightarrow> policy_error + policy_table" where
  "putPolicy mid p updated_by tbl =
     (if cp_mode p \<notin> {''both'', ''off'', ''host_to_client'', ''client_to_host''} then Err InvalidClipMode
      else let p = (if cp_path p = [] then p\<lparr>cp_path := ''auto''\<rparr> else p) in
           if cp_path p \<notin> {''auto'', ''direct_only'', ''relay_only''} then Err InvalidPath
           else if cp_max_bytes p \<le> 0 \<or> cp_max_bytes p > 64 * 2 ^ 20 then Err InvalidMaxBytes
           else Ok (tbl(mid \<mapsto> p\<lparr>cp_updated_by := updated_by\<rparr>)))"

text \<open>The default is returned when there is no row, and also when the query fails.\<close>

definition getPolicy :: "bool \<Rightarrow> string \<Rightarrow> policy_table \<Rightarrow> clip_policy" where
  "getPolicy query_fails mid tbl =
     (if query_fails then defaultMachinePolicy else case tbl mid of None \<Rightarrow> defaultMachinePolicy | Some p \<Rightarrow> p)"

section \<open>UTF-8\<close>

definition cont :: "byte \<Rightarrow> bool" where "cont b \<longleftrightarrow> 0x80 \<le> b \<and> b \<le> 0xBF"

text \<open>The number of bytes of the valid sequence at the front, 0 when there is none.\<close>

definition rune_size :: "byte list \<Rightarrow> nat" where
  "rune_size bs =
     (let a = bs ! 0; b = bs ! 1; c = bs ! 2; d = bs ! 3 in
      if length bs \<ge> 1 \<and> a < 0x80 then 1
      else if length bs \<ge> 2 \<and> 0xC2 \<le> a \<and> a \<le> 0xDF \<and> cont b then 2
      else if length bs \<ge> 3 \<and> 0xE0 \<le> a \<and> a \<le> 0xEF \<and> cont b \<and> cont c \<and> (a = 0xE0 \<longrightarrow> 0xA0 \<le> b) \<and> (a = 0xED \<longrightarrow> b \<le> 0x9F) then 3
      else if length bs \<ge> 4 \<and> 0xF0 \<le> a \<and> a \<le> 0xF4 \<and> cont b \<and> cont c \<and> cont d \<and> (a = 0xF0 \<longrightarrow> 0x90 \<le> b) \<and> (a = 0xF4 \<longrightarrow> b \<le> 0x8F) then 4
      else 0)"

function (sequential) utf8_valid :: "byte list \<Rightarrow> bool" where
  "utf8_valid bs = (if bs = [] then True else if rune_size bs = 0 then False else utf8_valid (drop (rune_size bs) bs))"
  by pat_completeness auto
termination by (relation "measure length") auto

declare utf8_valid.simps [simp del]

section \<open>The rate limit\<close>

record clip_rate =
  cr_start :: "nat option"
  cr_count :: nat

definition clipboardRateLimit :: nat where "clipboardRateLimit = 10"

definition rate_allow :: "nat \<Rightarrow> clip_rate \<Rightarrow> bool \<times> clip_rate" where
  "rate_allow now r =
     (let r = (if (case cr_start r of None \<Rightarrow> True | Some t \<Rightarrow> now - t \<ge> SECOND) then \<lparr>cr_start = Some now, cr_count = 0\<rparr> else r);
          r = r\<lparr>cr_count := cr_count r + 1\<rparr>
      in (cr_count r \<le> clipboardRateLimit, r))"

section \<open>Transfers\<close>

record clip_message =
  cm_mime :: string
  cm_data :: "byte list"

text \<open>An audit row names the session, if there is one, the direction, the type, the data, the result and whether the
  content is captured.\<close>

datatype clip_effect =
    QueuesClipboard "byte list"
  | DeliversTo string clip_message
  | AuditsClip "string option" clip_dir string "byte list" clip_result bool
  | SendsStatus string clip_dir clip_result string

definition clipWireMime :: string where "clipWireMime = ''text/plain;charset=utf-8''"

record clip_session =
  cs_id :: string
  cs_machine :: "string option"
  cs_override :: "clip_policy option"

text \<open>The relay may run without a database.\<close>

definition store_policy :: "bool \<Rightarrow> string \<Rightarrow> policy_table option \<Rightarrow> clip_policy" where
  "store_policy query_fails mid db = (case db of None \<Rightarrow> defaultMachinePolicy | Some tbl \<Rightarrow> getPolicy query_fails mid tbl)"

definition sessionClipboardPolicy :: "bool \<Rightarrow> clip_session \<Rightarrow> policy_table option \<Rightarrow> clip_policy" where
  "sessionClipboardPolicy query_fails s db =
     (case cs_override s of
        Some p \<Rightarrow> p
      | None \<Rightarrow> (case cs_machine s of None \<Rightarrow> defaultMachinePolicy | Some mid \<Rightarrow> store_policy query_fails mid db))"

text \<open>A message of a viewer; \<open>room\<close> tells whether the command channel of the upstream has a free place.  A session with no
  machine fails, None.\<close>

definition handleClipboard ::
  "(byte list \<Rightarrow> clip_message option) \<Rightarrow> (clip_message \<Rightarrow> byte list) \<Rightarrow> bool \<Rightarrow> bool \<Rightarrow> clip_session \<Rightarrow> byte list \<Rightarrow> policy_table option \<Rightarrow> clip_effect list option" where
  "handleClipboard unmarshal marshal room query_fails s raw db =
     (if cs_machine s = None then None else
      let policy = sessionClipboardPolicy query_fails s db;
          status_of = (\<lambda>result. SendsStatus (cs_id s) ClientToHost result (cp_mode policy));
          audit = (\<lambda>mime data result. AuditsClip (Some (cs_id s)) ClientToHost mime data result (cp_capture policy))
      in Some (case unmarshal raw of
           None \<Rightarrow> [audit [] [] ClipInvalid, status_of ClipInvalid]
         | Some msg \<Rightarrow>
             if cm_mime msg \<noteq> clipWireMime \<or> \<not> utf8_valid (cm_data msg) then [audit [] [] ClipInvalid, status_of ClipInvalid]
             else if int (length (cm_data msg)) > cp_max_bytes policy
               then [audit (cm_mime msg) (cm_data msg) ClipTooLarge, status_of ClipTooLarge]
             else if \<not> allows policy ClientToHost
               then [audit (cm_mime msg) (cm_data msg) ClipBlocked, status_of ClipBlocked]
             else (if room then [QueuesClipboard (marshal msg)] else [])
                    @ [audit (cm_mime msg) (cm_data msg) ClipOK, status_of ClipOK]))"

definition clip_verdict :: "clip_policy \<Rightarrow> byte list \<Rightarrow> clip_result" where
  "clip_verdict policy payload =
     (if int (length payload) > cp_max_bytes policy then ClipTooLarge
      else if \<not> allows policy HostToClient then ClipBlocked else ClipOK)"

text \<open>The delivery to one viewer, whose control stream may fail.\<close>

definition deliver_clip :: "(string \<Rightarrow> bool) \<Rightarrow> bool \<Rightarrow> clip_message \<Rightarrow> policy_table option \<Rightarrow> clip_session \<Rightarrow> clip_effect list" where
  "deliver_clip write_ok query_fails msg db s =
     (let policy = sessionClipboardPolicy query_fails s db; result = clip_verdict policy (cm_data msg);
          row = AuditsClip (Some (cs_id s)) HostToClient (cm_mime msg) (cm_data msg) result (cp_capture policy)
      in if result = ClipOK then (if write_ok (cs_id s) then [DeliversTo (cs_id s) msg, row] else []) else [row])"

text \<open>A clipboard frame of the host.\<close>

definition handleClipboardFrame ::
  "(byte list \<Rightarrow> clip_message option) \<Rightarrow> (string \<Rightarrow> bool) \<Rightarrow> bool \<Rightarrow> string \<Rightarrow> nat \<Rightarrow> byte list \<Rightarrow> clip_session list \<Rightarrow> policy_table option \<Rightarrow> clip_rate
     \<Rightarrow> clip_effect list \<times> clip_rate" where
  "handleClipboardFrame unmarshal write_ok query_fails mid now data viewers db r =
     (case rate_allow now r of
        (False, r) \<Rightarrow> ([], r)
      | (True, r) \<Rightarrow>
          let policy = store_policy query_fails mid db in
          (case unmarshal data of
             None \<Rightarrow> ([AuditsClip None HostToClient [] [] ClipInvalid (cp_capture policy)], r)
           | Some msg \<Rightarrow>
               if cm_mime msg = [] \<or> \<not> utf8_valid (cm_data msg)
               then ([AuditsClip None HostToClient [] [] ClipInvalid (cp_capture policy)], r)
               else if viewers = []
               then ([AuditsClip None HostToClient (cm_mime msg) (cm_data msg) (clip_verdict policy (cm_data msg)) (cp_capture policy)], r)
               else (concat (map (deliver_clip write_ok query_fails msg db) viewers), r)))"

section \<open>The policy is enforced\<close>

definition policy_ok :: "clip_policy \<Rightarrow> bool" where
  "policy_ok p \<longleftrightarrow> cp_mode p \<in> {''both'', ''off'', ''host_to_client'', ''client_to_host''}
     \<and> cp_path p \<in> {''auto'', ''direct_only'', ''relay_only''} \<and> 0 < cp_max_bytes p \<and> cp_max_bytes p \<le> 64 * 2 ^ 20"

definition table_ok :: "policy_table \<Rightarrow> bool" where
  "table_ok tbl \<longleftrightarrow> (\<forall>mid p. tbl mid = Some p \<longrightarrow> policy_ok p)"

text \<open>The requests of administrators.\<close>

fun put_all :: "(string \<times> clip_policy \<times> string) list \<Rightarrow> policy_table \<Rightarrow> policy_table" where
  "put_all [] tbl = tbl"
| "put_all ((mid, p, by_whom) # ps) tbl = put_all ps (case putPolicy mid p by_whom tbl of Inl e \<Rightarrow> tbl | Inr tbl' \<Rightarrow> tbl')"

lemma putPolicy_ok: "putPolicy mid p w tbl = Ok tbl' \<Longrightarrow> \<exists>p'. policy_ok p' \<and> tbl' = tbl(mid \<mapsto> p')"
proof -
  assume put: "putPolicy mid p w tbl = Ok tbl'"
  define p' where "p' = (if cp_path p = [] then p\<lparr>cp_path := ''auto''\<rparr> else p)"
  have mode: "cp_mode p \<in> {''both'', ''off'', ''host_to_client'', ''client_to_host''}"
    by (rule ccontr) (use put in \<open>simp only: putPolicy_def if_True not_not simp_thms sum.distinct\<close>)
  have same: "cp_mode p' = cp_mode p" "cp_max_bytes p' = cp_max_bytes p" by (simp_all add: p'_def)
  have body: "(if cp_path p' \<notin> {''auto'', ''direct_only'', ''relay_only''} then Err InvalidPath
       else if cp_max_bytes p' \<le> 0 \<or> cp_max_bytes p' > 64 * 2 ^ 20 then Err InvalidMaxBytes
       else Ok (tbl(mid \<mapsto> p'\<lparr>cp_updated_by := w\<rparr>))) = Ok tbl'"
    using put mode unfolding putPolicy_def p'_def Let_def by argo
  have path: "cp_path p' \<in> {''auto'', ''direct_only'', ''relay_only''}" using body by (metis sum.distinct(1))
  have size: "0 < cp_max_bytes p' \<and> cp_max_bytes p' \<le> 64 * 2 ^ 20" using body path by (metis not_le sum.distinct(1))
  have "tbl' = tbl(mid \<mapsto> p'\<lparr>cp_updated_by := w\<rparr>)" using body path size by (metis not_le sum.inject(2))
  moreover have "policy_ok (p'\<lparr>cp_updated_by := w\<rparr>)"
    using mode path size unfolding policy_ok_def same [symmetric] by simp
  ultimately show ?thesis by blast
qed

lemma table_ok_put: "table_ok tbl \<Longrightarrow> putPolicy mid p w tbl = Ok tbl' \<Longrightarrow> table_ok tbl'"
  by (drule putPolicy_ok) (auto simp: table_ok_def split: if_splits)

lemma table_ok_put_all: "table_ok tbl \<Longrightarrow> table_ok (put_all ps tbl)"
  by (induction ps tbl rule: put_all.induct) (auto split: sum.split dest: table_ok_put)

lemma default_ok: "policy_ok defaultMachinePolicy"
  by (simp add: policy_ok_def defaultMachinePolicy_def)

lemma getPolicy_ok: "table_ok tbl \<Longrightarrow> policy_ok (getPolicy query_fails mid tbl)"
  by (auto simp: getPolicy_def table_ok_def default_ok split: option.split)

text \<open>The directions a mode of the table is meant to open.\<close>

definition mode_opens :: "string \<Rightarrow> clip_dir \<Rightarrow> bool" where
  "mode_opens mode dir \<longleftrightarrow> mode = ''both'' \<or> mode = (case dir of HostToClient \<Rightarrow> ''host_to_client'' | ClientToHost \<Rightarrow> ''client_to_host'')"

lemma allows_opens: "allows p dir = mode_opens (cp_mode p) dir"
  by (cases dir) (auto simp: allows_def mode_opens_def)

lemma handleClipboard_queues:
  "handleClipboard unm mar room qf s raw db = Some effs \<Longrightarrow> QueuesClipboard payload \<in> set effs \<longleftrightarrow>
     (\<exists>msg. unm raw = Some msg \<and> payload = mar msg \<and> room \<and> cm_mime msg = clipWireMime \<and> utf8_valid (cm_data msg)
        \<and> int (length (cm_data msg)) \<le> cp_max_bytes (sessionClipboardPolicy qf s db)
        \<and> mode_opens (cp_mode (sessionClipboardPolicy qf s db)) ClientToHost)"
  by (auto simp: handleClipboard_def Let_def allows_opens split: option.splits if_splits)

fun is_audit :: "clip_effect \<Rightarrow> bool" where
  "is_audit (AuditsClip _ _ _ _ _ _) = True"
| "is_audit _ = False"

text \<open>The effects of a message are at most one command, then one audit row, then one status with the same result; the
  result does not depend on whether the command had room.\<close>

lemma handleClipboard_audited:
  "handleClipboard unm mar room qf s raw db = Some effs \<Longrightarrow>
     length (filter is_audit effs) = 1 \<and>
     filter is_audit (the (handleClipboard unm mar (\<not> room) qf s raw db)) = filter is_audit effs"
  by (auto simp: handleClipboard_def Let_def split: option.splits if_splits)

lemma deliver_clip_delivers:
  "DeliversTo sid m \<in> set (deliver_clip w qf msg db s) \<longleftrightarrow>
     sid = cs_id s \<and> m = msg \<and> w sid \<and> int (length (cm_data msg)) \<le> cp_max_bytes (sessionClipboardPolicy qf s db)
       \<and> mode_opens (cp_mode (sessionClipboardPolicy qf s db)) HostToClient"
  by (auto simp: deliver_clip_def Let_def clip_verdict_def allows_opens)

lemma handleClipboardFrame_delivers:
  "DeliversTo sid msg \<in> set (fst (handleClipboardFrame unm w qf mid now data viewers db r)) \<longleftrightarrow>
     fst (rate_allow now r) \<and> unm data = Some msg \<and> cm_mime msg \<noteq> [] \<and> utf8_valid (cm_data msg)
     \<and> (\<exists>s\<in>set viewers. sid = cs_id s \<and> w sid \<and> int (length (cm_data msg)) \<le> cp_max_bytes (sessionClipboardPolicy qf s db)
          \<and> mode_opens (cp_mode (sessionClipboardPolicy qf s db)) HostToClient)"
proof (cases "rate_allow now r")
  case (Pair ok r')
  show ?thesis
  proof (cases "unm data")
    case None
    then show ?thesis using Pair by (cases ok) (simp_all add: handleClipboardFrame_def Let_def)
  next
    case (Some m)
    have "DeliversTo sid msg \<in> set (concat (map (deliver_clip w qf m db) viewers)) \<longleftrightarrow> m = msg \<and>
      (\<exists>s\<in>set viewers. sid = cs_id s \<and> w sid \<and> int (length (cm_data msg)) \<le> cp_max_bytes (sessionClipboardPolicy qf s db)
          \<and> mode_opens (cp_mode (sessionClipboardPolicy qf s db)) HostToClient)"
      by (auto simp: deliver_clip_delivers)
    then show ?thesis using Pair Some by (cases ok; cases "viewers = []") (auto simp: handleClipboardFrame_def Let_def)
  qed
qed

text \<open>In a window of a second the first ten frames of a host are handled and the others dropped.\<close>

fun allowed :: "nat list \<Rightarrow> clip_rate \<Rightarrow> nat" where
  "allowed [] r = 0"
| "allowed (now # ts) r = (case rate_allow now r of (ok, r) \<Rightarrow> (if ok then 1 else 0) + allowed ts r)"

lemma allowed_in_window:
  "cr_start r = Some t \<Longrightarrow> list_all (\<lambda>now. now < t + SECOND) ts \<Longrightarrow> allowed ts r = min (length ts) (10 - cr_count r)"
proof (induction ts arbitrary: r)
  case (Cons now ts)
  have "now - t < SECOND" using Cons.prems(2) by (auto simp: SECOND_def)
  then have "rate_allow now r = (cr_count r + 1 \<le> 10, r\<lparr>cr_count := cr_count r + 1\<rparr>)"
    using Cons.prems(1) by (simp add: rate_allow_def Let_def clipboardRateLimit_def)
  then show ?case using Cons.IH [of "r\<lparr>cr_count := cr_count r + 1\<rparr>"] Cons.prems by auto
qed simp


end
