(* ===== verification/Spec2Isabelle.thy ===== *)
theory Spec2Isabelle
  imports Host_Schedules Host_Quic Core_Types Resolution Input Frame_Server Quic_Frames Nv12 Capture_Loop Ccd_Config Negotiation Cipher
    Audio Dxgi Relay_Frames Relay_Registry Relay_Login Relay_Ticket Relay_Clipboard
begin

text \<open>
  A verification development for the login daemon and the streaming agent.
\<close>

end
